(* ===== verification/Prelude.thy ===== *)
theory Prelude
  imports
    Main
    "HOL-Library.List_Lexorder"
    "HOL-Library.Char_ord"
    "HOL-Library.Multiset"
begin

text \<open>
  Shared vocabulary of the development: Go strings as byte lists, the few operations of
  \<^verbatim>\<open>strings\<close> and \<^verbatim>\<open>sort\<close> the sources call, results as sums (\<open>Inl\<close> is the error), loops
  with an early return, and the lemma collections the component theories extend.
  A Go \<^verbatim>\<open>string\<close> is a \<^typ>\<open>string\<close> of bytes, so \<open>length\<close> is \<^verbatim>\<open>len\<close>; the lexicographic order of
  the library is the byte order of Go's string comparison.
\<close>

named_theorems wf_intros \<open>introduction rules for well-formedness predicates\<close>
named_theorems result_simps \<open>case analysis of results\<close>

type_synonym go_time = int

text \<open>Instants are nanoseconds since the Unix epoch; Go's zero time is year 1.\<close>

abbreviation second :: int where
  "second \<equiv> 1000000000"

definition zero_time :: go_time where
  "zero_time = - 62135596800 * second"

subsection \<open>Results\<close>

definition is_ok :: "'e + 'a \<Rightarrow> bool" where
  "is_ok r = (case r of Inl _ \<Rightarrow> False | Inr _ \<Rightarrow> True)"

lemma is_ok_simps [simp]: "is_ok (Inr x)" "\<not> is_ok (Inl e)"
  by (simp_all add: is_ok_def)

lemma is_ok_iff [result_simps]: "is_ok r \<longleftrightarrow> (\<exists>x. r = Inr x)"
  by (cases r) auto

text \<open>Guards and sequencing: a success went past every early return.\<close>

lemma guard_Inr [simp, result_simps]: "(if P then Inl e else r) = Inr x \<longleftrightarrow> \<not> P \<and> r = Inr x"
  by simp

lemma bind_Inr [simp, result_simps]:
  "(case r of Inl e \<Rightarrow> Inl (g e) | Inr y \<Rightarrow> f y) = Inr x \<longleftrightarrow> (\<exists>y. r = Inr y \<and> f y = Inr x)"
  by (cases r) simp_all

text \<open>A loop over a list whose body may return early with an error.\<close>

fun each :: "('a \<Rightarrow> 'e + unit) \<Rightarrow> 'a list \<Rightarrow> 'e + unit" where
  "each f [] = Inr ()"
| "each f (x # xs) = (case f x of Inl e \<Rightarrow> Inl e | Inr _ \<Rightarrow> each f xs)"

lemma each_ok [simp]: "each f xs = Inr u \<longleftrightarrow> (\<forall>x \<in> set xs. f x = Inr ())"
  by (induction xs) (auto split: sum.splits)

lemma each_err: "each f xs = Inl e \<Longrightarrow> \<exists>x \<in> set xs. f x = Inl e"
  by (induction xs) (auto split: sum.splits)

text \<open>A loop that threads a state and may return early with an error.\<close>

fun fold_res :: "('a \<Rightarrow> 's \<Rightarrow> 'e + 's) \<Rightarrow> 'a list \<Rightarrow> 's \<Rightarrow> 'e + 's" where
  "fold_res f [] s = Inr s"
| "fold_res f (x # xs) s = (case f x s of Inl e \<Rightarrow> Inl e | Inr s' \<Rightarrow> fold_res f xs s')"

lemma fold_res_append:
  "fold_res f (xs @ ys) s =
     (case fold_res f xs s of Inl e \<Rightarrow> Inl e | Inr s' \<Rightarrow> fold_res f ys s')"
  by (induction xs arbitrary: s) (auto split: sum.splits)

text \<open>The invariant rule of such a loop: kept by every successful step.\<close>

lemma fold_res_invariant:
  assumes "fold_res f xs s = Inr t" and "P s"
    and "\<And>x u v. x \<in> set xs \<Longrightarrow> P u \<Longrightarrow> f x u = Inr v \<Longrightarrow> P v"
  shows "P t"
  using assms
proof (induction xs arbitrary: s)
  case Nil
  then show ?case by simp
next
  case (Cons x xs)
  from Cons.prems(1) obtain u where u: "f x s = Inr u" "fold_res f xs u = Inr t"
    by (auto split: sum.splits)
  have "P u" using Cons.prems(3) [OF _ Cons.prems(2) u(1)] by simp
  with u(2) show ?case
    using Cons.IH Cons.prems(3) by auto
qed

text \<open>The same rule with the prefix already consumed as part of the invariant.\<close>

lemma fold_res_prefix_invariant:
  assumes "fold_res f xs s = Inr t" and "P [] s"
    and "\<And>ys x zs u v. xs = ys @ x # zs \<Longrightarrow> P ys u \<Longrightarrow> f x u = Inr v \<Longrightarrow> P (ys @ [x]) v"
  shows "P xs t"
proof -
  have "fold_res f zs u = Inr t \<Longrightarrow> P ys u \<Longrightarrow> xs = ys @ zs \<Longrightarrow> P xs t" for ys zs u
  proof (induction zs arbitrary: ys u)
    case Nil
    then show ?case by simp
  next
    case (Cons z zs)
    from Cons.prems(1) obtain v where v: "f z u = Inr v" "fold_res f zs v = Inr t"
      by (auto split: sum.splits)
    have "P (ys @ [z]) v" using assms(3) Cons.prems v(1) by blast
    with v(2) show ?case using Cons.IH [of v "ys @ [z]"] Cons.prems(3) by simp
  qed
  from this [of xs s "[]"] show ?thesis using assms by simp
qed

subsection \<open>Strings\<close>

definition byte :: "char \<Rightarrow> nat" where
  "byte c = of_char c"

lemma byte_less [simp]: "byte c < 256"
  by (simp add: byte_def)

lemma byte_inject [simp]: "byte c = byte d \<longleftrightarrow> c = d"
  by (simp add: byte_def)

text \<open>\<^verbatim>\<open>strings.Cut\<close> and \<^verbatim>\<open>strings.Split\<close> with a one-byte separator.\<close>

fun cut :: "char \<Rightarrow> string \<Rightarrow> string \<times> string \<times> bool" where
  "cut c [] = ([], [], False)"
| "cut c (x # xs) =
     (if x = c then ([], xs, True)
      else (case cut c xs of (a, b, ok) \<Rightarrow> (x # a, b, ok)))"

fun split_on :: "char \<Rightarrow> string \<Rightarrow> string list" where
  "split_on c [] = [[]]"
| "split_on c (x # xs) =
     (if x = c then [] # split_on c xs
      else (case split_on c xs of [] \<Rightarrow> [[x]] | p # ps \<Rightarrow> (x # p) # ps))"

fun join_on :: "char \<Rightarrow> string list \<Rightarrow> string" where
  "join_on c [] = []"
| "join_on c [p] = p"
| "join_on c (p # q # ps) = p @ c # join_on c (q # ps)"

fun has_prefix :: "string \<Rightarrow> string \<Rightarrow> bool" where
  "has_prefix s [] = True"
| "has_prefix [] (p # ps) = False"
| "has_prefix (x # xs) (p # ps) = (x = p \<and> has_prefix xs ps)"

fun contains :: "string \<Rightarrow> string \<Rightarrow> bool" where
  "contains [] p = has_prefix [] p"
| "contains (x # xs) p = (has_prefix (x # xs) p \<or> contains xs p)"

definition ascii_lower :: "char \<Rightarrow> char" where
  "ascii_lower c = (if 65 \<le> byte c \<and> byte c \<le> 90 then char_of (byte c + 32) else c)"

lemma has_prefix_iff: "has_prefix s p \<longleftrightarrow> (\<exists>t. s = p @ t)"
  by (induction s p rule: has_prefix.induct) auto

lemma split_on_not_Nil [simp]: "split_on c s \<noteq> []"
  by (cases s) (auto split: list.splits)

lemma join_on_Cons [simp]: "join_on c ((x # p) # ps) = x # join_on c (p # ps)"
  by (cases ps) auto

lemma join_on_Nil_Cons: "ps \<noteq> [] \<Longrightarrow> join_on c ([] # ps) = c # join_on c ps"
  by (cases ps) auto

lemma join_split [simp]: "join_on c (split_on c s) = s"
proof (induction s)
  case Nil
  then show ?case by simp
next
  case (Cons x xs)
  then show ?case
    by (cases "split_on c xs") (auto simp: join_on_Nil_Cons)
qed

lemma split_parts: "p \<in> set (split_on c s) \<Longrightarrow> c \<notin> set p"
proof (induction s arbitrary: p)
  case Nil
  then show ?case by simp
next
  case (Cons x xs)
  then show ?case
    by (cases "split_on c xs") (auto split: if_splits)
qed

lemma split_join:
  "ps \<noteq> [] \<Longrightarrow> \<forall>p \<in> set ps. c \<notin> set p \<Longrightarrow> split_on c (join_on c ps) = ps"
proof (induction ps rule: join_on.induct)
  case (2 c p)
  then show ?case by (induction p) auto
next
  case (3 c p q ps)
  have "split_on c (p @ c # s) = p # split_on c s" if "c \<notin> set p" for s
    using that by (induction p) auto
  with 3 show ?case by simp
qed simp

lemma cut_True: "cut c s = (a, b, True) \<longleftrightarrow> s = a @ c # b \<and> c \<notin> set a"
proof (induction s arbitrary: a)
  case Nil
  then show ?case by simp
next
  case (Cons x xs)
  show ?case
  proof (cases "x = c")
    case True
    then show ?thesis by (cases a) auto
  next
    case False
    obtain a' b' k where r: "cut c xs = (a', b', k)" by (cases "cut c xs") auto
    show ?thesis
    proof (cases a)
      case Nil
      with False r show ?thesis by simp
    next
      case (Cons y ys)
      from r Cons.IH [of ys] have "(a', b', k) = (ys, b, True) \<longleftrightarrow> xs = ys @ c # b \<and> c \<notin> set ys"
        by simp
      with False r Cons show ?thesis by auto
    qed
  qed
qed

lemma find_append:
  "find P (xs @ ys) = (case find P xs of Some x \<Rightarrow> Some x | None \<Rightarrow> find P ys)"
  by (induction xs) auto

lemma sort_eq_Nil [simp]: "sort xs = [] \<longleftrightarrow> xs = []"
  by (metis set_empty set_sort)

subsection \<open>Least index of a monotone predicate\<close>

text \<open>
  The loop of \<^verbatim>\<open>sort.Search\<close>, also written out by hand in the cron schedule: halve
  \<open>[lo, hi)\<close> while the predicate is false at the midpoint.
\<close>

function search_loop :: "(int \<Rightarrow> bool) \<Rightarrow> int \<Rightarrow> int \<Rightarrow> int" where
  "search_loop f lo hi =
     (if lo < hi
      then (let mid = lo + (hi - lo) div 2
            in if f mid then search_loop f lo mid else search_loop f (mid + 1) hi)
      else lo)"
  by pat_completeness auto
termination
  by (relation "measure (\<lambda>(f, lo, hi). nat (hi - lo))") auto

declare search_loop.simps [simp del]

text \<open>The contract of the search: the predicate is monotone on the searched range.\<close>

locale monotone_search =
  fixes f :: "int \<Rightarrow> bool" and low high :: int
  assumes mono: "low \<le> i \<Longrightarrow> i \<le> j \<Longrightarrow> j < high \<Longrightarrow> f i \<Longrightarrow> f j"
begin

lemma search_loop_spec:
  assumes "low \<le> lo" "lo \<le> hi" "hi \<le> high"
    and "\<forall>i. low \<le> i \<and> i < lo \<longrightarrow> \<not> f i"
    and "\<forall>i. hi \<le> i \<and> i < high \<longrightarrow> f i"
  shows "lo \<le> search_loop f lo hi \<and> search_loop f lo hi \<le> hi
    \<and> (\<forall>i. low \<le> i \<and> i < search_loop f lo hi \<longrightarrow> \<not> f i)
    \<and> (\<forall>i. search_loop f lo hi \<le> i \<and> i < high \<longrightarrow> f i)"
  using assms
proof (induction "nat (hi - lo)" arbitrary: lo hi rule: less_induct)
  case less
  note 1 = less.prems
  show ?case
  proof (cases "lo < hi")
    case False
    then have "search_loop f lo hi = lo" by (simp add: search_loop.simps [of f lo hi])
    with False 1 show ?thesis by auto
  next
    case True
    define mid where "mid = lo + (hi - lo) div 2"
    have mid: "lo \<le> mid" "mid < hi" using True by (auto simp: mid_def)
    show ?thesis
    proof (cases "f mid")
      case f: True
      have up: "\<forall>i. mid \<le> i \<and> i < high \<longrightarrow> f i"
        using mono [OF _ _ _ f] mid(1) 1(1) by auto
      have "lo \<le> search_loop f lo mid \<and> search_loop f lo mid \<le> mid
          \<and> (\<forall>i. low \<le> i \<and> i < search_loop f lo mid \<longrightarrow> \<not> f i)
          \<and> (\<forall>i. search_loop f lo mid \<le> i \<and> i < high \<longrightarrow> f i)"
        by (rule less.hyps [OF _ 1(1) mid(1) _ 1(4) up]) (use mid 1(3) True in auto)
      moreover have "search_loop f lo hi = search_loop f lo mid"
        using True f by (simp add: search_loop.simps [of f lo hi] mid_def Let_def)
      ultimately show ?thesis using mid by auto
    next
      case nf: False
      have down: "\<forall>i. low \<le> i \<and> i < mid + 1 \<longrightarrow> \<not> f i"
      proof (intro allI impI notI)
        fix i assume i: "low \<le> i \<and> i < mid + 1" and "f i"
        then have "f mid" using mono [of i mid] mid 1 by auto
        with nf show False ..
      qed
      have "mid + 1 \<le> search_loop f (mid + 1) hi \<and> search_loop f (mid + 1) hi \<le> hi
          \<and> (\<forall>i. low \<le> i \<and> i < search_loop f (mid + 1) hi \<longrightarrow> \<not> f i)
          \<and> (\<forall>i. search_loop f (mid + 1) hi \<le> i \<and> i < high \<longrightarrow> f i)"
        by (rule less.hyps [OF _ _ _ 1(3) down 1(5)]) (use mid 1(1) in auto)
      moreover have "search_loop f lo hi = search_loop f (mid + 1) hi"
        using True nf by (simp add: search_loop.simps [of f lo hi] mid_def Let_def)
      ultimately show ?thesis using mid by auto
    qed
  qed
qed

lemma search_least:
  assumes "low \<le> high"
  shows search_ge: "low \<le> search_loop f low high"
    and search_le: "search_loop f low high \<le> high"
    and search_iff: "low \<le> i \<Longrightarrow> i < high \<Longrightarrow> f i \<longleftrightarrow> search_loop f low high \<le> i"
proof -
  have spec: "low \<le> search_loop f low high \<and> search_loop f low high \<le> high
    \<and> (\<forall>i. low \<le> i \<and> i < search_loop f low high \<longrightarrow> \<not> f i)
    \<and> (\<forall>i. search_loop f low high \<le> i \<and> i < high \<longrightarrow> f i)"
    by (rule search_loop_spec) (use assms in auto)
  then show "low \<le> search_loop f low high" and "search_loop f low high \<le> high"
    by blast+
  show "f i \<longleftrightarrow> search_loop f low high \<le> i" if "low \<le> i" "i < high"
    using spec that by (meson not_le)
qed

end

subsection \<open>Runs of step relations\<close>

text \<open>
  The contracts of the state machines: handlers are the steps of a relation, and what every step keeps holds
  along every run. An invariant, an order the states move along, and a simulation of an abstract relation.
\<close>

locale invariant_run =
  fixes step :: "'s \<Rightarrow> 's \<Rightarrow> bool" and inv :: "'s \<Rightarrow> bool"
  assumes keeps: "step s t \<Longrightarrow> inv s \<Longrightarrow> inv t"
begin

lemma run_keeps: "step\<^sup>*\<^sup>* s t \<Longrightarrow> inv s \<Longrightarrow> inv t"
  by (induction rule: rtranclp_induct) (blast intro: keeps)+

end

locale ordered_run = invariant_run +
  fixes rel :: "'a \<Rightarrow> 'a \<Rightarrow> bool"
  assumes rel_refl: "rel s s"
    and rel_trans: "rel s t \<Longrightarrow> rel t u \<Longrightarrow> rel s u"
    and step_rel: "step s t \<Longrightarrow> inv s \<Longrightarrow> rel s t"
begin

lemma run_rel: "step\<^sup>*\<^sup>* s t \<Longrightarrow> inv s \<Longrightarrow> rel s t"
proof (induction rule: rtranclp_induct)
  case (step t u)
  from run_keeps [OF step.hyps(1) step.prems] have "inv t" .
  with step rel_trans step_rel show ?case by blast
qed (rule rel_refl)

end

locale simulation_run = invariant_run +
  fixes astep :: "'b \<Rightarrow> 'b \<Rightarrow> bool" and abs :: "'a \<Rightarrow> 'b"
  assumes step_simulates: "step s t \<Longrightarrow> inv s \<Longrightarrow> astep\<^sup>*\<^sup>* (abs s) (abs t)"

sublocale simulation_run \<subseteq> simulated: ordered_run step inv "\<lambda>s t. astep\<^sup>*\<^sup>* (abs s) (abs t)"
  by unfold_locales (use step_simulates in auto)

end
