(* ===== verification/Decimal.thy ===== *)
theory Decimal
  imports Complex_Main Prelude
begin

text \<open>
  Exact decimal numbers of chart cells, \<^verbatim>\<open>internal/charts/number.go\<close> with the rational
  helpers of \<^verbatim>\<open>display_build.go\<close>: the bounded decimal grammar, conversion to a binary
  coordinate, and printing with a fixed number of fraction digits. A \<^verbatim>\<open>big.Rat\<close> is a
  \<^typ>\<open>rat\<close>; a finite \<^verbatim>\<open>float64\<close> is the rational it denotes; infinity is \<open>None\<close>.
\<close>

datatype charts_error = ErrInvalid | ErrLimit | ErrUnsuitable | ErrMappingChanged

subsection \<open>Digits\<close>

definition is_digit :: "char \<Rightarrow> bool" where
  "is_digit c \<longleftrightarrow> 48 \<le> byte c \<and> byte c \<le> 57"

definition digit_val :: "char \<Rightarrow> int" where
  "digit_val c = of_char c - 48"

definition digit_char :: "int \<Rightarrow> char" where
  "digit_char d = char_of (48 + d)"

text \<open>\<^verbatim>\<open>big.Int.SetString\<close> in base ten, on a list of digits.\<close>

definition digits_val :: "string \<Rightarrow> int" where
  "digits_val ds = foldl (\<lambda>n c. 10 * n + digit_val c) 0 ds"

text \<open>Printing of a non-negative integer in base ten.\<close>

function nat_str :: "int \<Rightarrow> string" where
  "nat_str n = (if n < 10 then [digit_char n] else nat_str (n div 10) @ [digit_char (n mod 10)])"
  by pat_completeness auto
termination
  by (relation "measure nat") auto

declare nat_str.simps [simp del]

definition int_str :: "int \<Rightarrow> string" where
  "int_str i = (if i < 0 then CHR ''-'' # nat_str (- i) else nat_str i)"

text \<open>\<^verbatim>\<open>strconv.Atoi\<close> on a text of at most five bytes: an optional sign and digits.\<close>

definition Atoi :: "string \<Rightarrow> int option" where
  "Atoi s =
     (let (neg, ds) = (case s of [] \<Rightarrow> (False, [])
                       | c # cs \<Rightarrow> if c = CHR ''-'' then (True, cs)
                                   else if c = CHR ''+'' then (False, cs) else (False, c # cs))
      in if ds = [] \<or> \<not> list_all is_digit ds then None
         else Some (if neg then - digits_val ds else digits_val ds))"

subsection \<open>The decimal grammar\<close>

text \<open>The digit loop: \<open>n\<close> is the length of the text, \<open>i\<close> the index of its next byte.\<close>

fun digit_loop :: "nat \<Rightarrow> nat \<Rightarrow> string \<Rightarrow> string \<Rightarrow> nat \<Rightarrow> bool \<Rightarrow> charts_error + string \<times> nat" where
  "digit_loop n i [] digits scale dot = Inr (digits, scale)"
| "digit_loop n i (c # cs) digits scale dot =
     (if c = CHR ''.'' then
        (if dot \<or> i = 0 \<or> i = n - 1 then Inl ErrInvalid
         else digit_loop n (Suc i) cs digits scale True)
      else if byte c < 48 \<or> byte c > 57 then Inl ErrInvalid
      else digit_loop n (Suc i) cs (digits @ [c]) (if dot then scale + 1 else scale) dot)"

text \<open>\<^verbatim>\<open>strings.IndexAny(s, "eE")\<close> with the two slices around it.\<close>

fun cut_exp :: "string \<Rightarrow> string \<times> string option" where
  "cut_exp [] = ([], None)"
| "cut_exp (c # cs) =
     (if c = CHR ''e'' \<or> c = CHR ''E'' then ([], Some cs)
      else (case cut_exp cs of (a, b) \<Rightarrow> (c # a, b)))"

definition exponent_of :: "string option \<Rightarrow> charts_error + int" where
  "exponent_of x =
     (case x of
        None \<Rightarrow> Inr 0
      | Some e \<Rightarrow>
          if length e = 0 \<or> length e > 5 then Inl ErrInvalid
          else (case Atoi e of
                  None \<Rightarrow> Inl ErrInvalid
                | Some k \<Rightarrow> if k < -4096 \<or> k > 4096 then Inl ErrInvalid else Inr k))"

definition rat_of_digits :: "int \<Rightarrow> int \<Rightarrow> rat \<times> nat" where
  "rat_of_digits n scale =
     (if scale < 0 then (of_int (n * 10 ^ nat (- scale)), 0)
      else (of_int n / of_int (10 ^ nat scale), nat scale))"

text \<open>\<open>decimal\<close> after its length guard.\<close>

definition decimal_body :: "string \<Rightarrow> charts_error + rat \<times> nat" where
  "decimal_body txt =
     (let negative = (hd txt = CHR ''-'');
          s = (if hd txt = CHR ''-'' \<or> hd txt = CHR ''+'' then tl txt else txt)
      in if s = [] then Inl ErrInvalid
         else (let (mantissa, e) = cut_exp s
               in case exponent_of e of
                    Inl err \<Rightarrow> Inl err
                  | Inr exponent \<Rightarrow>
                      (case digit_loop (length mantissa) 0 mantissa [] 0 False of
                         Inl err \<Rightarrow> Inl err
                       | Inr (digits, scale) \<Rightarrow>
                           if length digits = 0 then Inl ErrInvalid
                           else Inr (rat_of_digits
                                  (if negative then - digits_val digits else digits_val digits)
                                  (int scale - exponent)))))"

definition decimal :: "string \<Rightarrow> charts_error + rat \<times> nat" where
  "decimal txt = (if length txt = 0 \<or> length txt > 4096 then Inl ErrInvalid else decimal_body txt)"

definition numeric :: "string \<Rightarrow> bool" where
  "numeric typ \<longleftrightarrow> typ = ''integer'' \<or> typ = ''decimal'' \<or> typ = ''number''"

subsection \<open>Binary coordinates\<close>

text \<open>
  \<^verbatim>\<open>Rat.Float64\<close>: the nearest double, ties to even, with gradual underflow: the magnitude is
  a 53-bit significand times \<open>2 ^ q\<close> with \<open>q \<ge> - 1074\<close>, infinite when it reaches \<open>2 ^ 1024\<close>,
  that is when \<open>q\<close> passes 971 or the significand overflows there. The second component says
  that it is exact.
\<close>

definition pow2 :: "int \<Rightarrow> rat" where
  "pow2 e = (if 0 \<le> e then 2 ^ nat e else 1 / 2 ^ nat (- e))"

function bit_len :: "int \<Rightarrow> int" where
  "bit_len n = (if n \<le> 0 then 0 else 1 + bit_len (n div 2))"
  by pat_completeness auto
termination
  by (relation "measure nat") auto

declare bit_len.simps [simp del]

definition floor_log2 :: "rat \<Rightarrow> int" where
  "floor_log2 a =
     (let (p, q) = quotient_of a;
          e = bit_len p - bit_len q
      in if pow2 e \<le> a then e else e - 1)"

definition round_half_even :: "rat \<Rightarrow> int" where
  "round_half_even x =
     (let f = \<lfloor>x\<rfloor>; d = x - of_int f
      in if d < 1 / 2 then f else if 1 / 2 < d then f + 1 else if even f then f else f + 1)"

definition float64 :: "rat \<Rightarrow> rat option \<times> bool" where
  "float64 r =
     (if r = 0 then (Some 0, True)
      else let a = \<bar>r\<bar>;
               q = max (floor_log2 a - 52) (- 1074);
               m = round_half_even (a / pow2 q);
               v = of_int m * pow2 q
           in if 971 < q \<or> q = 971 \<and> 2 ^ 53 \<le> m then (None, False)
              else (Some (if r < 0 then - v else v), v = a))"

record cell =
  cellNull :: bool
  cellValue :: string

record val =
  valNull :: bool
  valExact :: string
  valCoordinate :: "rat option"
  valApproximate :: bool

definition null_val :: val where
  "null_val = \<lparr>valNull = True, valExact = [], valCoordinate = None, valApproximate = False\<rparr>"

definition numberValue :: "cell \<Rightarrow> charts_error + val" where
  "numberValue c =
     (if cellNull c then Inr null_val
      else case decimal (cellValue c) of
             Inl err \<Rightarrow> Inl err
           | Inr (r, _) \<Rightarrow>
               (case float64 r of
                  (None, _) \<Rightarrow> Inl ErrUnsuitable
                | (Some f, ex) \<Rightarrow>
                    if f = 0 \<and> r \<noteq> 0 then Inl ErrUnsuitable
                    else Inr \<lparr>valNull = False, valExact = cellValue c, valCoordinate = Some f,
                              valApproximate = \<not> ex\<rparr>))"

subsection \<open>Printing\<close>

text \<open>\<^verbatim>\<open>Rat.FloatString\<close>: half away from zero, exactly \<open>prec\<close> fraction digits.\<close>

definition pad_zeros :: "nat \<Rightarrow> string \<Rightarrow> string" where
  "pad_zeros k s = replicate (k - length s) CHR ''0'' @ s"

definition FloatString :: "rat \<Rightarrow> nat \<Rightarrow> string" where
  "FloatString x prec =
     (let (a, b) = quotient_of x;
          n = \<bar>a\<bar>; d = b; p = 10 ^ prec;
          q = n div d; r = (n mod d) * p;
          k = r div d; r2 = r mod d;
          up = (d \<le> 2 * r2);
          k' = (if up then k + 1 else k);
          (q', k'') = (if up \<and> p \<le> k' then (q + 1, k' - p) else (q, k'))
      in (if a < 0 then ''-'' else []) @ nat_str q' @
         (if prec > 0 then CHR ''.'' # pad_zeros prec (nat_str k'') else []))"

text \<open>\<^verbatim>\<open>Rat.RatString\<close>: the reduced fraction, or the integer.\<close>

definition RatString :: "rat \<Rightarrow> string" where
  "RatString x =
     (let (a, b) = quotient_of x
      in if b = 1 then int_str a else int_str a @ CHR ''/'' # int_str b)"

definition valueFromRat :: "rat \<Rightarrow> nat \<Rightarrow> charts_error + val" where
  "valueFromRat r scale =
     (case float64 r of
        (None, _) \<Rightarrow> Inl ErrUnsuitable
      | (Some f, ok) \<Rightarrow>
          if f = 0 \<and> r \<noteq> 0 then Inl ErrUnsuitable
          else Inr \<lparr>valNull = False, valExact = FloatString r scale, valCoordinate = Some f,
                    valApproximate = \<not> ok\<rparr>)"

definition exactDifference :: "string \<Rightarrow> string \<Rightarrow> charts_error + val" where
  "exactDifference left right =
     (case decimal left of
        Inl err \<Rightarrow> Inl err
      | Inr (a, sa) \<Rightarrow>
          (case decimal right of
             Inl err \<Rightarrow> Inl err
           | Inr (b, sb) \<Rightarrow> valueFromRat (a - b) (if sb > sa then sb else sa)))"

definition exactPercent :: "string \<Rightarrow> string \<Rightarrow> int \<Rightarrow> charts_error + val option" where
  "exactPercent delta base digits =
     (case decimal delta of
        Inl err \<Rightarrow> Inl err
      | Inr (a, _) \<Rightarrow>
          (case decimal base of
             Inl err \<Rightarrow> Inl err
           | Inr (b, _) \<Rightarrow>
               if b = 0 then Inr None
               else let digits = (if digits < 0 then 0 else digits);
                        digits = (if digits > 20 then 20 else digits)
                    in case valueFromRat (a / b * 100) (nat digits) of
                         Inl err \<Rightarrow> Inl err
                       | Inr v \<Rightarrow> Inr (Some v)))"

subsection \<open>Digits denote the number they print\<close>

text \<open>For evaluation: a digit read off its bits.\<close>

lemma is_digit_code [code]:
  "is_digit (Char b0 b1 b2 b3 b4 b5 b6 b7) \<longleftrightarrow> \<not> b7 \<and> \<not> b6 \<and> b5 \<and> b4 \<and> \<not> (b3 \<and> (b2 \<or> b1))"
  by (simp add: is_digit_def byte_def of_char_def)

lemma digit_loop_code [code]:
  "digit_loop n i [] digits scale dot = Inr (digits, scale)"
  "digit_loop n i (c # cs) digits scale dot =
     (if c = CHR ''.'' then
        (if dot \<or> i = 0 \<or> i = n - 1 then Inl ErrInvalid
         else digit_loop n (Suc i) cs digits scale True)
      else if \<not> is_digit c then Inl ErrInvalid
      else digit_loop n (Suc i) cs (digits @ [c]) (if dot then scale + 1 else scale) dot)"
  by (auto simp: is_digit_def)

lemma digit_char_facts:
  assumes "0 \<le> d" "d < 10"
  shows digit_char_is_digit: "is_digit (digit_char d)" and digit_val_char: "digit_val (digit_char d) = d"
proof -
  have "list_all (\<lambda>d. is_digit (digit_char d) \<and> digit_val (digit_char d) = d) [0, 1, 2, 3, 4, 5, 6, 7, 8, 9]"
    by code_simp
  moreover have "d \<in> set [0, 1, 2, 3, 4, 5, 6, 7, 8, 9]"
    using assms by (simp, presburger)
  ultimately have "is_digit (digit_char d) \<and> digit_val (digit_char d) = d"
    unfolding list_all_iff by blast
  then show "is_digit (digit_char d)" "digit_val (digit_char d) = d" by simp_all
qed

lemma digits_val_simps [simp]:
  "digits_val [] = 0"
  "digits_val (ds @ [c]) = 10 * digits_val ds + digit_val c"
  by (simp_all add: digits_val_def)

lemma digits_val_append: "digits_val (as @ bs) = digits_val as * 10 ^ length bs + digits_val bs"
  by (induction bs rule: rev_induct)
     (simp_all flip: append_assoc add: algebra_simps)

lemma digits_val_zeros [simp]: "digits_val (replicate k CHR ''0'' @ ds) = digits_val ds"
proof -
  have "digits_val (replicate k CHR ''0'') = 0"
  proof (induction k)
    case (Suc k)
    have "digits_val (replicate (Suc k) CHR ''0'') = digits_val (replicate k CHR ''0'' @ [CHR ''0''])"
      by (simp only: replicate_append_same replicate_Suc)
    with Suc show ?case by (simp add: digit_val_def del: replicate_Suc)
  qed simp
  then show ?thesis by (simp add: digits_val_append)
qed

lemma nat_str_facts:
  assumes "0 \<le> n"
  shows nat_str_digits: "list_all is_digit (nat_str n)"
    and nat_str_val: "digits_val (nat_str n) = n"
    and nat_str_not_Nil: "nat_str n \<noteq> []"
proof -
  have "list_all is_digit (nat_str n) \<and> digits_val (nat_str n) = n \<and> nat_str n \<noteq> []"
    using assms
  proof (induction n rule: nat_str.induct)
    case (1 n)
    show ?case
    proof (cases "n < 10")
      case True
      with 1 show ?thesis
        using digit_char_facts [of n] digits_val_simps(2) [of "[]"]
        by (simp add: nat_str.simps [of n])
    next
      case False
      with 1 show ?thesis
        using digit_char_facts [of "n mod 10"]
        by (simp add: nat_str.simps [of n])
    qed
  qed
  then show "list_all is_digit (nat_str n)" "digits_val (nat_str n) = n" "nat_str n \<noteq> []"
    by simp_all
qed

lemma nat_str_length: "0 \<le> n \<Longrightarrow> n < 10 ^ k \<Longrightarrow> 0 < k \<Longrightarrow> length (nat_str n) \<le> k"
proof (induction n arbitrary: k rule: nat_str.induct)
  case (1 n)
  show ?case
  proof (cases "n < 10")
    case True
    with 1 show ?thesis by (simp add: nat_str.simps [of n])
  next
    case False
    obtain j where k: "k = Suc j" using 1 by (cases k) auto
    have "j \<noteq> 0" using False 1(3) k by (cases j) auto
    have "n div 10 < 10 ^ j" using 1(3) k by (simp add: div_less_iff_less_mult)
    with 1 False k \<open>j \<noteq> 0\<close> show ?thesis by (simp add: nat_str.simps [of n])
  qed
qed

subsection \<open>Parsing what was printed\<close>

lemma digit_loop_digits:
  assumes "list_all is_digit ds"
  shows "digit_loop n i (ds @ cs) acc scale dot =
    digit_loop n (i + length ds) cs (acc @ ds) (if dot then scale + length ds else scale) dot"
  using assms
proof (induction ds arbitrary: i acc scale)
  case (Cons d ds)
  have "d \<noteq> CHR ''.''" using Cons.prems by (auto simp: is_digit_def byte_def)
  with Cons show ?case by (simp add: is_digit_def)
qed simp

lemma digit_loop_point:
  assumes "list_all is_digit as" "list_all is_digit bs" "as \<noteq> []" "bs \<noteq> []"
  shows "digit_loop (length (as @ CHR ''.'' # bs)) 0 (as @ CHR ''.'' # bs) [] 0 False =
    Inr (as @ bs, length bs)"
  using assms digit_loop_digits [of bs "length (as @ CHR ''.'' # bs)" "Suc (length as)" "[]" as 0 True]
  by (simp add: digit_loop_digits)

lemma cut_exp_none:
  assumes "CHR ''e'' \<notin> set s" "CHR ''E'' \<notin> set s"
  shows "cut_exp s = (s, None)"
  using assms by (induction s) auto

lemma digits_no_exp: "list_all is_digit s \<Longrightarrow> CHR ''e'' \<notin> set s \<and> CHR ''E'' \<notin> set s"
  by (auto simp: list_all_iff is_digit_def byte_def)

lemma digits_hd: "list_all is_digit s \<Longrightarrow> s \<noteq> [] \<Longrightarrow> hd (s @ t) \<noteq> CHR ''-'' \<and> hd (s @ t) \<noteq> CHR ''+''"
  by (cases s) (auto simp: is_digit_def byte_def)

definition fixed_point :: "string \<Rightarrow> string \<Rightarrow> string" where
  "fixed_point as bs = (if bs = [] then as else as @ CHR ''.'' # bs)"

lemma decimal_body_fixed:
  assumes "list_all is_digit as" "list_all is_digit bs" "as \<noteq> []"
  shows "decimal_body ((if neg then ''-'' else []) @ fixed_point as bs) =
    Inr (of_int ((if neg then -1 else 1) * digits_val (as @ bs)) / 10 ^ length bs, length bs)"
proof -
  let ?m = "fixed_point as bs"
  have m: "?m \<noteq> []" using assms by (simp add: fixed_point_def)
  have h: "hd ?m \<noteq> CHR ''-''" "hd ?m \<noteq> CHR ''+''"
    using assms digits_hd [of as] digits_hd [of as "[]"] by (auto simp: fixed_point_def)
  have c: "cut_exp ?m = (?m, None)"
    by (rule cut_exp_none)
       (use assms digits_no_exp [of as] digits_no_exp [of bs] in \<open>auto simp: fixed_point_def\<close>)
  have d: "digit_loop (length ?m) 0 ?m [] 0 False = Inr (as @ bs, length bs)"
    using assms digit_loop_point [of as bs] digit_loop_digits [of as "length as" 0 "[]" "[]" 0 False]
    by (auto simp: fixed_point_def)
  show ?thesis
    using assms m h c d
    by (auto simp: decimal_body_def Let_def exponent_of_def rat_of_digits_def)
qed

lemma int_div_less:
  fixes v :: int
  assumes "v < b * p" "0 < b"
  shows "v div b < p"
proof -
  have "b * (v div b) \<le> v" using assms(2) mult_div_mod_eq [of b v] pos_mod_sign [of b v] by linarith
  then have "b * (v div b) < b * p" using assms(1) by linarith
  then show ?thesis using assms(2) by simp
qed

lemma pad_zeros_digits:
  assumes "0 \<le> k" "k < 10 ^ prec" "0 < prec"
  shows "list_all is_digit (pad_zeros prec (nat_str k))"
    and "digits_val (pad_zeros prec (nat_str k)) = k"
    and "length (pad_zeros prec (nat_str k)) = prec"
proof -
  note k = nat_str_facts [OF assms(1)] nat_str_length [OF assms]
  have "list_all is_digit (replicate n CHR ''0'')" for n
    by (induction n) (simp_all add: is_digit_def byte_def)
  with k show "list_all is_digit (pad_zeros prec (nat_str k))"
    by (simp add: pad_zeros_def)
  from k show "digits_val (pad_zeros prec (nat_str k)) = k" "length (pad_zeros prec (nat_str k)) = prec"
    by (simp_all add: pad_zeros_def)
qed

lemma FloatString_exact:
  assumes K: "x * 10 ^ prec = of_int K"
  shows "\<exists>as bs. FloatString x prec = (if K < 0 then ''-'' else []) @ fixed_point as bs
    \<and> list_all is_digit as \<and> list_all is_digit bs \<and> as \<noteq> [] \<and> length bs = prec
    \<and> digits_val (as @ bs) = \<bar>K\<bar>"
proof -
  obtain a b where q: "quotient_of x = (a, b)" by (cases "quotient_of x")
  have b: "0 < b" and x: "x = of_int a / of_int b"
    using q quotient_of_denom_pos quotient_of_div by blast+
  define p :: int where "p = 10 ^ prec"
  have p: "0 < p" "(of_int p :: rat) = 10 ^ prec" by (simp_all add: p_def)
  have "(of_int (a * p) :: rat) = of_int (K * b)"
    using K x b p by (simp add: field_simps)
  then have ap: "a * p = K * b" by (simp only: of_int_eq_iff)
  have abs: "\<bar>a\<bar> * p = \<bar>K\<bar> * b"
    using ap b p(1) by (metis abs_mult abs_of_pos)
  define u where "u = \<bar>a\<bar> div b"
  define v where "v = \<bar>a\<bar> mod b * p"
  have "u * b + \<bar>a\<bar> mod b = \<bar>a\<bar>" by (simp add: u_def)
  then have "(u * b + \<bar>a\<bar> mod b) * p = \<bar>K\<bar> * b" using abs by simp
  then have "v = (\<bar>K\<bar> - u * p) * b"
    by (simp add: v_def algebra_simps)
  then have v: "v mod b = 0" "v div b = \<bar>K\<bar> - u * p" using b by simp_all
  define k where "k = v div b"
  have "\<bar>a\<bar> mod b < b" using b by simp
  then have "v < b * p" using p(1) by (simp add: v_def)
  then have "k < p" using b by (simp add: k_def int_div_less)
  moreover have "0 \<le> k" using b p(1) by (simp add: k_def v_def pos_imp_zdiv_nonneg_iff)
  ultimately have k: "0 \<le> k" "k < p" by simp_all
  have u0: "0 \<le> u" using b by (simp add: u_def pos_imp_zdiv_nonneg_iff)
  have neg: "a < 0 \<longleftrightarrow> K < 0"
    using ap b p(1) by (metis mult_less_0_iff mult_neg_pos not_less_iff_gr_or_eq)
  have e: "FloatString x prec =
      (if K < 0 then ''-'' else []) @ nat_str u @ (if prec > 0 then CHR ''.'' # pad_zeros prec (nat_str k) else [])"
    using b v(1) neg by (simp add: FloatString_def q Let_def k_def v_def u_def p_def)
  show ?thesis
  proof (cases prec)
    case 0
    then have "k = 0" using k by (simp add: p_def)
    then have "u = \<bar>K\<bar>" using v(2) 0 by (simp add: k_def p_def)
    with 0 e nat_str_facts [OF u0] show ?thesis
      by (intro exI [of _ "nat_str u"] exI [of _ "[]"]) (simp add: fixed_point_def)
  next
    case (Suc m)
    have kp: "k < 10 ^ prec" using k by (simp add: p_def)
    from Suc have pos: "0 < prec" by simp
    note d = pad_zeros_digits [OF k(1) kp pos]
    have nn: "pad_zeros prec (nat_str k) \<noteq> []" using d(3) pos by auto
    have "u * 10 ^ prec + k = \<bar>K\<bar>" using v(2) by (simp add: k_def p_def)
    with e d nat_str_facts [OF u0] pos nn show ?thesis
      by (intro exI [of _ "nat_str u"] exI [of _ "pad_zeros prec (nat_str k)"])
         (simp add: fixed_point_def digits_val_append)
  qed
qed

text \<open>Printing a number at a scale that holds it and reading the text back is the identity.\<close>

lemma FloatString_decimal:
  assumes "x * 10 ^ prec = of_int K"
  shows "decimal_body (FloatString x prec) = Inr (x, prec)"
proof -
  obtain as bs where f: "FloatString x prec = (if K < 0 then ''-'' else []) @ fixed_point as bs"
    "list_all is_digit as" "list_all is_digit bs" "as \<noteq> []" "length bs = prec"
    "digits_val (as @ bs) = \<bar>K\<bar>"
    using FloatString_exact [OF assms] by blast
  have "(if K < 0 then -1 else 1) * \<bar>K\<bar> = K" by simp
  then have "decimal_body (FloatString x prec) = Inr (of_int K / 10 ^ prec, prec)"
    using decimal_body_fixed [OF f(2-4), of "K < 0"] f(1,5,6) by simp
  moreover have "of_int K / 10 ^ prec = x" using assms by (simp add: field_simps)
  ultimately show ?thesis by simp
qed

text \<open>What a parse guarantees: the number is a decimal fraction of the reported scale.\<close>

lemma rat_of_digits_scale:
  assumes "rat_of_digits n s = (x, scale)"
  shows "\<exists>K. x * 10 ^ scale = of_int K"
proof (cases "s < 0")
  case True
  with assms have "x * 10 ^ scale = of_int (n * 10 ^ nat (- s))" by (auto simp: rat_of_digits_def)
  then show ?thesis ..
next
  case False
  with assms have "x * 10 ^ scale = of_int n" by (auto simp: rat_of_digits_def)
  then show ?thesis ..
qed

lemma decimal_body_scale:
  assumes "decimal_body txt = Inr (x, scale)"
  shows "\<exists>K. x * 10 ^ scale = of_int K"
  using assms rat_of_digits_scale
  by (auto simp: decimal_body_def Let_def split: prod.splits if_splits)

subsection \<open>The nearest double\<close>

lemma pow2_pos [simp]: "0 < pow2 e"
  by (simp add: pow2_def)

lemma pow2_powi: "pow2 e = 2 powi e"
  by (simp add: pow2_def power_int_def field_simps)

lemma pow2_add: "pow2 (a + b) = pow2 a * pow2 b"
  by (simp add: pow2_powi power_int_add)

lemma pow2_Suc [simp]: "pow2 (a + 1) = 2 * pow2 a"
  by (simp only: pow2_add) (simp add: pow2_def [of 1])

lemma pow2_mono: "a \<le> b \<Longrightarrow> pow2 a \<le> pow2 b"
  by (simp add: pow2_powi power_int_increasing)

lemma bit_len_nonneg [simp]: "0 \<le> bit_len n"
  by (induction n rule: bit_len.induct) (subst bit_len.simps, simp)

lemma bit_len_bounds: "0 < n \<Longrightarrow> pow2 (bit_len n - 1) \<le> of_int n \<and> of_int n < pow2 (bit_len n)"
proof (induction n rule: bit_len.induct)
  case (1 n)
  show ?case
  proof (cases "n = 1")
    case True
    then show ?thesis by (simp add: bit_len.simps [of 1] bit_len.simps [of 0] pow2_def)
  next
    case False
    then have n: "0 < n div 2" using 1(2) by simp
    let ?h = "bit_len (n div 2)"
    have ih: "pow2 (?h - 1) \<le> of_int (n div 2)" "of_int (n div 2) < pow2 ?h"
      using 1 n by auto
    have l: "bit_len n = ?h + 1" using 1(2) by (simp add: bit_len.simps [of n])
    have two: "pow2 ?h = 2 * pow2 (?h - 1)"
      using pow2_Suc [of "?h - 1"] by simp
    have "2 * (n div 2) \<le> n" by simp
    then have lo: "(2 :: rat) * of_int (n div 2) \<le> of_int n"
      by (metis of_int_le_iff of_int_mult of_int_numeral)
    have hn: "0 \<le> ?h" by simp
    then have "pow2 ?h = of_int (2 ^ nat ?h)" by (simp add: pow2_def)
    with ih(2) have "n div 2 < 2 ^ nat ?h" by simp
    then have "n < 2 * 2 ^ nat ?h" by linarith
    then have "(of_int n :: rat) < of_int (2 * 2 ^ nat ?h)" by (simp only: of_int_less_iff)
    then have hi: "of_int n < pow2 ?h * 2" using hn by (simp add: pow2_def)
    show ?thesis using l two ih(1) lo hi by simp
  qed
qed

lemma floor_log2_bounds:
  assumes "0 < a"
  shows "pow2 (floor_log2 a) \<le> a" and "a < pow2 (floor_log2 a + 1)"
proof -
  obtain p q where pq: "quotient_of a = (p, q)" by (cases "quotient_of a")
  have q: "0 < q" and a: "a = of_int p / of_int q"
    using pq quotient_of_denom_pos quotient_of_div by blast+
  have p: "0 < p" using assms a q by (simp add: zero_less_divide_iff)
  let ?e = "bit_len p - bit_len q"
  note P = bit_len_bounds [OF p] and Q = bit_len_bounds [OF q]
  have "pow2 (?e - 1) * of_int q \<le> pow2 (?e - 1) * pow2 (bit_len q)"
    using Q by (simp add: less_imp_le)
  also have "\<dots> = pow2 (bit_len p - 1)" by (simp flip: pow2_add)
  also have "\<dots> \<le> of_int p" using P by simp
  finally have lo: "pow2 (?e - 1) \<le> a" using q by (simp add: a pos_le_divide_eq)
  have "of_int p < pow2 (bit_len p)" using P by simp
  also have "\<dots> = pow2 (?e + 1) * pow2 (bit_len q - 1)" by (simp del: pow2_Suc flip: pow2_add)
  also have "\<dots> \<le> pow2 (?e + 1) * of_int q" using Q by simp
  finally have hi: "a < pow2 (?e + 1)" using q by (simp add: a pos_divide_less_eq del: pow2_Suc)
  show "pow2 (floor_log2 a) \<le> a" and "a < pow2 (floor_log2 a + 1)"
    using lo hi pow2_Suc [of "?e - 1"] by (auto simp: floor_log2_def pq Let_def)
qed

lemma round_half_even_error: "\<bar>of_int (round_half_even x) - x\<bar> \<le> 1 / 2"
proof -
  have "of_int \<lfloor>x\<rfloor> \<le> x" "x < of_int \<lfloor>x\<rfloor> + 1" by linarith+
  then show ?thesis unfolding round_half_even_def Let_def by (simp only: split: if_splits) linarith
qed

lemma round_half_even_nonneg: "0 \<le> x \<Longrightarrow> 0 \<le> round_half_even x"
  by (auto simp: round_half_even_def Let_def)

lemma scaled_error:
  fixes p :: rat
  assumes "0 < p" "\<bar>m - a / p\<bar> \<le> 1 / 2"
  shows "\<bar>m * p - a\<bar> \<le> p / 2"
proof -
  have "m * p - a = (m - a / p) * p" using assms(1) by (simp add: field_simps)
  then have "\<bar>m * p - a\<bar> = \<bar>m - a / p\<bar> * p" using assms(1) by (simp add: abs_mult)
  also have "\<dots> \<le> 1 / 2 * p" using assms by (intro mult_right_mono) simp_all
  finally show ?thesis by simp
qed

lemma restore_sign:
  fixes r :: rat
  assumes "f = (if r < 0 then - v else v)" "0 \<le> v"
  shows "(v = \<bar>r\<bar>) = (f = r)" and "\<bar>f - r\<bar> = \<bar>v - \<bar>r\<bar>\<bar>" and "0 \<le> f * r"
  using assms by (auto simp: abs_if mult_nonneg_nonpos)

text \<open>
  What \<open>float64\<close> promises of a finite result: the exactness flag tells the truth, the sign is
  kept, and the error is at most half a unit in the last place, relative in the normal range and
  absolute below it.
\<close>

lemma float64_spec:
  assumes "float64 r = (Some f, ex)"
  shows float64_exact: "ex \<longleftrightarrow> f = r"
    and float64_error: "\<bar>f - r\<bar> \<le> max (\<bar>r\<bar> / 2 ^ 53) (1 / 2 ^ 1075)"
    and float64_sign: "0 \<le> f * r"
proof -
  let ?a = "\<bar>r\<bar>" and ?q = "max (floor_log2 \<bar>r\<bar> - 52) (- 1074)"
  let ?m = "round_half_even (?a / pow2 ?q)"
  let ?v = "of_int ?m * pow2 ?q"
  have "(ex \<longleftrightarrow> f = r) \<and> \<bar>f - r\<bar> \<le> max (\<bar>r\<bar> / 2 ^ 53) (1 / 2 ^ 1075) \<and> 0 \<le> f * r"
  proof (cases "r = 0")
    case True
    with assms show ?thesis by (auto simp: float64_def)
  next
    case False
    then have f: "f = (if r < 0 then - ?v else ?v)" and ex: "ex \<longleftrightarrow> ?v = ?a"
      using assms by (auto simp: float64_def Let_def split: if_splits)
    have v0: "0 \<le> ?v" using round_half_even_nonneg [of "?a / pow2 ?q"] by (simp add: less_imp_le)
    have err: "\<bar>?v - ?a\<bar> \<le> pow2 ?q / 2"
      by (rule scaled_error) (simp_all only: round_half_even_error pow2_pos)
    have "pow2 (floor_log2 ?a) \<le> ?a" using floor_log2_bounds [of ?a] False by simp
    then have n: "pow2 (floor_log2 ?a - 52) / 2 \<le> ?a / 2 ^ 53"
      using pow2_add [of "floor_log2 ?a - 52" 52] by (simp add: pow2_def [of 52])
    have d: "pow2 (- 1074) / 2 = 1 / 2 ^ 1075"
      by (simp add: pow2_def)
    have "pow2 ?q / 2 \<le> max (?a / 2 ^ 53) (1 / 2 ^ 1075)"
      using n d by (auto simp: max_def)
    with err have "\<bar>?v - ?a\<bar> \<le> max (?a / 2 ^ 53) (1 / 2 ^ 1075)" by linarith
    with restore_sign [OF f v0] ex show ?thesis by (simp only:)
  qed
  then show "ex \<longleftrightarrow> f = r" "\<bar>f - r\<bar> \<le> max (\<bar>r\<bar> / 2 ^ 53) (1 / 2 ^ 1075)" "0 \<le> f * r"
    by simp_all
qed

lemma float64_nonzero_sign:
  assumes "float64 r = (Some f, ex)" "\<not> (f = 0 \<and> r \<noteq> 0)"
  shows "sgn f = sgn r"
proof (cases "r = 0")
  case True
  with assms show ?thesis by (simp add: float64_def)
next
  case False
  with assms(2) float64_sign [OF assms(1)] have "0 < f * r" by (simp add: less_le)
  then show ?thesis by (auto simp: zero_less_mult_iff)
qed

text \<open>
  The contract every coordinate of a chart value meets: it is the nearest double, its
  \<open>Approximate\<close> flag tells whether it is exact, and it never changes the sign of the number.
\<close>

definition faithful_coordinate :: "rat \<Rightarrow> val \<Rightarrow> bool" where
  "faithful_coordinate r v \<longleftrightarrow> \<not> valNull v \<and>
     (case valCoordinate v of None \<Rightarrow> False
      | Some f \<Rightarrow> (valApproximate v \<longleftrightarrow> f \<noteq> r) \<and> sgn f = sgn r
                  \<and> \<bar>f - r\<bar> \<le> max (\<bar>r\<bar> / 2 ^ 53) (1 / 2 ^ 1075))"

lemma faithful_coordinateD:
  assumes "faithful_coordinate r v"
  shows "\<not> valNull v \<and> (\<exists>f. valCoordinate v = Some f \<and> (valApproximate v \<longleftrightarrow> f \<noteq> r) \<and> sgn f = sgn r
    \<and> \<bar>f - r\<bar> \<le> max (\<bar>r\<bar> / 2 ^ 53) (1 / 2 ^ 1075))"
  using assms by (auto simp only: faithful_coordinate_def split: option.splits)

lemma faithful_float64:
  assumes "float64 r = (Some f, ex)" "\<not> (f = 0 \<and> r \<noteq> 0)"
  shows "faithful_coordinate r \<lparr>valNull = False, valExact = t, valCoordinate = Some f, valApproximate = \<not> ex\<rparr>"
  using float64_exact [OF assms(1)] float64_error [OF assms(1)] float64_nonzero_sign [OF assms]
  by (simp only: faithful_coordinate_def val.simps option.simps) blast

lemma numberValue_Inr:
  assumes "numberValue c = Inr v" "\<not> cellNull c"
  obtains r s where "decimal (cellValue c) = Inr (r, s)" "valExact v = cellValue c" "faithful_coordinate r v"
proof -
  from assms obtain r s where d: "decimal (cellValue c) = Inr (r, s)"
    by (auto simp: numberValue_def)
  obtain f ex where f: "float64 r = (f, ex)" by (cases "float64 r")
  from assms d f obtain g where g: "f = Some g" "\<not> (g = 0 \<and> r \<noteq> 0)"
    "v = \<lparr>valNull = False, valExact = cellValue c, valCoordinate = Some g, valApproximate = \<not> ex\<rparr>"
    by (cases f) (auto simp: numberValue_def split: if_splits)
  then show thesis using that [OF d] faithful_float64 f by simp
qed

lemma valueFromRat_Inr:
  assumes "valueFromRat r s = Inr v"
  shows "valExact v = FloatString r s" and "faithful_coordinate r v"
  using assms faithful_float64
  by (auto simp: valueFromRat_def split: prod.splits option.splits if_splits)

subsection \<open>Decimal fractions\<close>

definition fraction_at :: "nat \<Rightarrow> rat \<Rightarrow> bool" where
  "fraction_at s x \<longleftrightarrow> (\<exists>K. x * 10 ^ s = of_int K)"

lemma fraction_at_mono: "fraction_at s x \<Longrightarrow> s \<le> t \<Longrightarrow> fraction_at t x"
proof -
  assume "fraction_at s x" "s \<le> t"
  then obtain K where "x * 10 ^ s = of_int K" by (auto simp: fraction_at_def)
  then have "x * 10 ^ t = of_int (K * 10 ^ (t - s))"
    using \<open>s \<le> t\<close> by (simp add: power_add [symmetric] mult.assoc [symmetric] flip: power_add)
      (metis le_add_diff_inverse mult.assoc power_add)
  then show "fraction_at t x" unfolding fraction_at_def by blast
qed

lemma fraction_at_0 [simp]: "fraction_at s 0"
  unfolding fraction_at_def by (rule exI [of _ 0]) simp

lemma fraction_at_add: "fraction_at s x \<Longrightarrow> fraction_at s y \<Longrightarrow> fraction_at s (x + y)"
  unfolding fraction_at_def by (metis distrib_right of_int_add)

lemma fraction_at_diff: "fraction_at s x \<Longrightarrow> fraction_at s y \<Longrightarrow> fraction_at s (x - y)"
  unfolding fraction_at_def by (metis left_diff_distrib of_int_diff)

lemma decimal_fraction: "decimal txt = Inr (x, s) \<Longrightarrow> fraction_at s x"
  using decimal_body_scale by (auto simp: decimal_def fraction_at_def)

lemma FloatString_not_Nil: "FloatString x s \<noteq> []"
proof -
  have *: "nat_str n \<noteq> []" for n by (subst nat_str.simps) simp
  then show ?thesis by (simp add: FloatString_def Let_def split: prod.splits)
qed

lemma FloatString_parse:
  "fraction_at s x \<Longrightarrow> length (FloatString x s) \<le> 4096 \<Longrightarrow> decimal (FloatString x s) = Inr (x, s)"
  using FloatString_decimal FloatString_not_Nil by (auto simp: decimal_def fraction_at_def)

subsection \<open>Properties\<close>


definition tenth_cell :: cell where
  "tenth_cell = \<lparr>cellNull = False, cellValue = ''-0.1''\<rparr>"

definition tenth_val :: val where
  "tenth_val = projr (numberValue tenth_cell)"



definition diff_val :: val where
  "diff_val = projr (exactDifference ''0.3'' ''1e-1'')"


end
