(* ===== verification/Text.thy ===== *)
theory Text
  imports Decimal
begin

text \<open>
  Text as the chart packages handle it: UTF-8 decoding (\<^verbatim>\<open>unicode/utf8\<close>), case folding,
  and the compact encoding of \<^verbatim>\<open>encoding/json\<close>, whose byte lengths bound every request. The
  few leaf functions of the standard library that are large tables or hashes (time layouts,
  the shortest decimal of a double, SHA-256, Unicode classes, the JSON validator) are the fields
  of one record that the definitions take as an argument; nothing is assumed of them except
  where a lemma says so.
\<close>

record golib =
  time_Parse :: "string \<Rightarrow> string \<Rightarrow> go_time option"
  RFC3339Nano_text :: "go_time \<Rightarrow> string"
  float_text :: "rat \<Rightarrow> string"
  sha256_hex :: "string \<Rightarrow> string"
  json_Valid :: "string \<Rightarrow> bool"
  rune_lower :: "int \<Rightarrow> int"
  rune_space :: "int \<Rightarrow> bool"
  rune_letter :: "int \<Rightarrow> bool"
  rune_number :: "int \<Rightarrow> bool"

subsection \<open>UTF-8\<close>

definition code :: "char \<Rightarrow> int" where
  "code c = of_char c"

definition cont :: "char \<Rightarrow> bool" where
  "cont c \<longleftrightarrow> 128 \<le> code c \<and> code c \<le> 191"

text \<open>
  \<^verbatim>\<open>utf8.DecodeRune\<close>: the code point and its width; an ill-formed byte is U+FFFD of width one.
\<close>

fun DecodeRune :: "string \<Rightarrow> int \<times> nat" where
  "DecodeRune [] = (65533, 0)"
| "DecodeRune (a # s) =
     (let c = code a in
      if c < 128 then (c, 1)
      else if 194 \<le> c \<and> c \<le> 223 then
        (case s of b # _ \<Rightarrow> if cont b then ((c - 192) * 64 + (code b - 128), 2) else (65533, 1)
         | _ \<Rightarrow> (65533, 1))
      else if 224 \<le> c \<and> c \<le> 239 then
        (case s of b # d # _ \<Rightarrow>
           if cont b \<and> cont d \<and> (c = 224 \<longrightarrow> 160 \<le> code b) \<and> (c = 237 \<longrightarrow> code b \<le> 159)
           then ((c - 224) * 4096 + (code b - 128) * 64 + (code d - 128), 3) else (65533, 1)
         | _ \<Rightarrow> (65533, 1))
      else if 240 \<le> c \<and> c \<le> 244 then
        (case s of b # d # e # _ \<Rightarrow>
           if cont b \<and> cont d \<and> cont e \<and> (c = 240 \<longrightarrow> 144 \<le> code b) \<and> (c = 244 \<longrightarrow> code b \<le> 143)
           then ((c - 240) * 262144 + (code b - 128) * 4096 + (code d - 128) * 64 + (code e - 128), 4)
           else (65533, 1)
         | _ \<Rightarrow> (65533, 1))
      else (65533, 1))"

text \<open>The loop \<^verbatim>\<open>for _, r := range s\<close>: code points with their widths.\<close>

function runes :: "string \<Rightarrow> (int \<times> nat) list" where
  "runes [] = []"
| "runes (c # cs) = (let (r, n) = DecodeRune (c # cs) in (r, n) # runes (drop (n - 1) cs))"
  by pat_completeness auto
termination
  by (relation "measure length") auto

definition ValidString :: "string \<Rightarrow> bool" where
  "ValidString s \<longleftrightarrow> (\<forall>x \<in> set (runes s). x \<noteq> (65533, 1))"

definition byte_of :: "int \<Rightarrow> char" where
  "byte_of i = char_of i"

definition EncodeRune :: "int \<Rightarrow> string" where
  "EncodeRune r =
     (if 0 \<le> r \<and> r < 128 then [byte_of r]
      else if 0 \<le> r \<and> r < 2048 then [byte_of (192 + r div 64), byte_of (128 + r mod 64)]
      else if 0 \<le> r \<and> r < 65536 \<and> \<not> (55296 \<le> r \<and> r \<le> 57343) then
        [byte_of (224 + r div 4096), byte_of (128 + r div 64 mod 64), byte_of (128 + r mod 64)]
      else if 65536 \<le> r \<and> r < 1114112 then
        [byte_of (240 + r div 262144), byte_of (128 + r div 4096 mod 64),
         byte_of (128 + r div 64 mod 64), byte_of (128 + r mod 64)]
      else [byte_of 239, byte_of 191, byte_of 189])"

text \<open>\<^verbatim>\<open>strings.ToLower\<close> and the leading half of \<^verbatim>\<open>strings.TrimSpace\<close> (a prefix test follows it).\<close>

definition ToLower :: "golib \<Rightarrow> string \<Rightarrow> string" where
  "ToLower g s = concat (map (\<lambda>(r, n). EncodeRune (rune_lower g r)) (runes s))"

function TrimLeft :: "golib \<Rightarrow> string \<Rightarrow> string" where
  "TrimLeft g [] = []"
| "TrimLeft g (c # cs) =
     (let (r, n) = DecodeRune (c # cs)
      in if rune_space g r then TrimLeft g (drop (n - 1) cs) else c # cs)"
  by pat_completeness auto
termination
  by (relation "measure (length \<circ> snd)") auto

definition ContainsAny :: "string \<Rightarrow> string \<Rightarrow> bool" where
  "ContainsAny s chars \<longleftrightarrow> (\<exists>c \<in> set s. c \<in> set chars)"

subsection \<open>JSON\<close>

datatype json =
    JNull
  | JBool bool
  | JInt int
  | JFloat rat
  | JStr string
  | JArr "json list"
  | JObj "(string \<times> json) list"

definition hex_digit :: "int \<Rightarrow> char" where
  "hex_digit d = (if d < 10 then byte_of (48 + d) else byte_of (87 + d))"

text \<open>
  The string encoder of \<^verbatim>\<open>json.Marshal\<close> with its default HTML escaping.
\<close>

definition json_rune :: "int \<Rightarrow> nat \<Rightarrow> string" where
  "json_rune r n =
     (if r < 128 then
        (if r = 92 \<or> r = 34 then [byte_of 92, byte_of r]
         else if r = 8 then byte_of 92 # ''b'' else if r = 12 then byte_of 92 # ''f''
         else if r = 10 then byte_of 92 # ''n'' else if r = 13 then byte_of 92 # ''r''
         else if r = 9 then byte_of 92 # ''t''
         else if r < 32 \<or> r = 60 \<or> r = 62 \<or> r = 38
         then byte_of 92 # ''u00'' @ [hex_digit (r div 16), hex_digit (r mod 16)]
         else [byte_of r])
      else if r = 65533 \<and> n = 1 then byte_of 92 # ''ufffd''
      else if r = 8232 then byte_of 92 # ''u2028'' else if r = 8233 then byte_of 92 # ''u2029''
      else EncodeRune r)"

definition json_string :: "string \<Rightarrow> string" where
  "json_string s = [byte_of 34] @ concat (map (\<lambda>(r, n). json_rune r n) (runes s)) @ [byte_of 34]"

fun join_commas :: "string list \<Rightarrow> string" where
  "join_commas [] = []"
| "join_commas [p] = p"
| "join_commas (p # q # ps) = p @ '','' @ join_commas (q # ps)"

fun json_text :: "golib \<Rightarrow> json \<Rightarrow> string" where
  "json_text g JNull = ''null''"
| "json_text g (JBool b) = (if b then ''true'' else ''false'')"
| "json_text g (JInt i) = int_str i"
| "json_text g (JFloat x) = float_text g x"
| "json_text g (JStr s) = json_string s"
| "json_text g (JArr xs) = ''['' @ join_commas (map (json_text g) xs) @ '']''"
| "json_text g (JObj fs) =
     ''{'' @ join_commas (map (\<lambda>(k, v). json_string k @ '':'' @ json_text g v) fs) @ ''}''"

abbreviation json_len :: "golib \<Rightarrow> json \<Rightarrow> int" where
  "json_len g j \<equiv> int (length (json_text g j))"

text \<open>Fields tagged \<^verbatim>\<open>omitempty\<close> disappear at their zero value.\<close>

definition opt_str :: "string \<Rightarrow> string \<Rightarrow> (string \<times> json) list" where
  "opt_str k s = (if s = [] then [] else [(k, JStr s)])"

definition opt_arr :: "string \<Rightarrow> json list \<Rightarrow> (string \<times> json) list" where
  "opt_arr k xs = (if xs = [] then [] else [(k, JArr xs)])"

definition opt_int :: "string \<Rightarrow> int \<Rightarrow> (string \<times> json) list" where
  "opt_int k i = (if i = 0 then [] else [(k, JInt i)])"

definition opt_ptr :: "string \<Rightarrow> json option \<Rightarrow> (string \<times> json) list" where
  "opt_ptr k x = (case x of None \<Rightarrow> [] | Some j \<Rightarrow> [(k, j)])"

text \<open>A nil slice encodes as null: slices cloned with \<^verbatim>\<open>append(nil, ...)\<close> are nil when empty.\<close>

definition nil_arr :: "json list \<Rightarrow> json" where
  "nil_arr xs = (if xs = [] then JNull else JArr xs)"

subsection \<open>A concrete library\<close>

text \<open>
  An instance for evaluation: years as times, ASCII classes, and for the hash the capitals and digits.
\<close>

fun hash_char :: "char \<Rightarrow> bool" where
  "hash_char (Char b0 b1 b2 b3 b4 b5 b6 b7) \<longleftrightarrow> \<not> b7 \<and> (b6 \<and> \<not> b5 \<or> \<not> b6 \<and> b5 \<and> b4)"

definition sample_lib :: golib where
  "sample_lib =
     \<lparr>time_Parse = (\<lambda>layout s. if layout = ''2006'' \<and> length s = 4 \<and> list_all is_digit s
                               then Some (digits_val s) else None),
      RFC3339Nano_text = int_str, float_text = RatString,
      sha256_hex = filter hash_char, json_Valid = (\<lambda>s. s \<noteq> []),
      rune_lower = (\<lambda>r. if 65 \<le> r \<and> r \<le> 90 then r + 32 else r), rune_space = (\<lambda>r. r = 32),
      rune_letter = (\<lambda>r. 97 \<le> r \<and> r \<le> 122), rune_number = (\<lambda>r. 48 \<le> r \<and> r \<le> 57)\<rparr>"

subsection \<open>Evaluating the encoder\<close>

text \<open>Bytes the encoder copies, read off their bits; texts made of them need no decoding.\<close>

fun plain_char :: "char \<Rightarrow> bool" where
  "plain_char (Char b0 b1 b2 b3 b4 b5 b6 b7) \<longleftrightarrow>
     \<not> b7 \<and> (b5 \<or> b6) \<and> \<not> (\<not> b6 \<and> b5 \<and> \<not> b4 \<and> \<not> b3 \<and> b1 \<and> \<not> b0) \<and>
     \<not> (\<not> b6 \<and> b5 \<and> b4 \<and> b3 \<and> b2 \<and> \<not> b0) \<and> \<not> (b6 \<and> \<not> b5 \<and> b4 \<and> b3 \<and> b2 \<and> \<not> b1 \<and> \<not> b0)"

lemma byte_of_code [simp]: "byte_of (code c) = c"
proof -
  have "(char_of (of_char c :: int) :: char) = c" by simp
  then show ?thesis by (simp only: byte_of_def code_def)
qed

lemma plain_code:
  "plain_char c \<Longrightarrow> 32 \<le> code c \<and> code c < 128 \<and> code c \<noteq> 34 \<and> code c \<noteq> 38 \<and> code c \<noteq> 60 \<and> code c \<noteq> 62 \<and> code c \<noteq> 92"
  by (cases c) (auto simp: code_def of_char_def)

lemma plain_runes:
  "list_all plain_char s \<Longrightarrow> concat (map (\<lambda>(r, n). json_rune r n) (runes s)) = s"
  by (induction s) (auto simp: json_rune_def Let_def dest!: plain_code)

lemma json_string_code [code]:
  "json_string s =
     (if list_all plain_char s then byte_of 34 # s @ [byte_of 34]
      else [byte_of 34] @ concat (map (\<lambda>(r, n). json_rune r n) (runes s)) @ [byte_of 34])"
  by (simp add: json_string_def plain_runes)

text \<open>Only lengths of encodings are compared, and those add up without building the text.\<close>

fun json_size :: "golib \<Rightarrow> json \<Rightarrow> int" where
  "json_size g JNull = 4"
| "json_size g (JBool b) = (if b then 4 else 5)"
| "json_size g (JInt i) = int (length (int_str i))"
| "json_size g (JFloat x) = int (length (float_text g x))"
| "json_size g (JStr s) = int (length (json_string s))"
| "json_size g (JArr xs) = 2 + sum_list (map (json_size g) xs) + (if xs = [] then 0 else int (length xs) - 1)"
| "json_size g (JObj fs) =
     2 + sum_list (map (\<lambda>(k, v). int (length (json_string k)) + 1 + json_size g v) fs)
       + (if fs = [] then 0 else int (length fs) - 1)"

lemma length_join_commas:
  "length (join_commas xs) = sum_list (map length xs) + (length xs - 1)"
  by (induction xs rule: join_commas.induct) auto

lemma json_size_code [code_unfold]: "int (length (json_text g j)) = json_size g j"
proof (induction j)
  case (JArr xs)
  then have "sum_list (map (\<lambda>x. int (length (json_text g x))) xs) = sum_list (map (json_size g) xs)"
    by (intro arg_cong [where f = sum_list] map_cong) auto
  then show ?case
    by (simp add: length_join_commas o_def of_nat_diff Suc_leI flip: sum_list_of_nat)
next
  case (JObj fs)
  then have "(\<Sum>x\<leftarrow>fs. int (length (case x of (k, v) \<Rightarrow> json_string k @ CHR '':'' # json_text g v)))
    = (\<Sum>(k, v)\<leftarrow>fs. int (length (json_string k)) + 1 + json_size g v)"
    by (intro arg_cong [where f = sum_list] map_cong) fastforce+
  then show ?case
    by (simp add: length_join_commas o_def of_nat_diff Suc_leI flip: sum_list_of_nat)
qed simp_all

end
