(* ===== verification/ChartModel.thy ===== *)
theory ChartModel
  imports Text
begin

text \<open>
  The data model of \<^verbatim>\<open>internal/charts/model.go\<close> and of the record types of
  \<^verbatim>\<open>rich_contract.go\<close>, with the wire encoding their JSON tags prescribe, and the data
  validation of \<^verbatim>\<open>validate.go\<close>. Go integers are \<^typ>\<open>int\<close>; all of them are range-checked far
  below 64 bits before they are used. A call is modelled with a live context, so the
  cancellation checks of the loops do not appear.
\<close>

subsection \<open>Records\<close>

datatype kind =
    Area | Bar | ColumnChart | Donut | GroupedBar | Heatmap | KPI | Line | Pie | Scatter
  | StackedBar | StackedColumn | Table | Treemap | OtherKind string

fun kind_text :: "kind \<Rightarrow> string" where
  "kind_text Area = ''area''"
| "kind_text Bar = ''bar''"
| "kind_text ColumnChart = ''column''"
| "kind_text Donut = ''donut''"
| "kind_text GroupedBar = ''grouped_bar''"
| "kind_text Heatmap = ''heatmap''"
| "kind_text KPI = ''kpi''"
| "kind_text Line = ''line''"
| "kind_text Pie = ''pie''"
| "kind_text Scatter = ''scatter''"
| "kind_text StackedBar = ''stacked_bar''"
| "kind_text StackedColumn = ''stacked_column''"
| "kind_text Table = ''table''"
| "kind_text Treemap = ''treemap''"
| "kind_text (OtherKind s) = s"

definition Version :: int where "Version = 1"
definition RichVersion :: int where "RichVersion = 2"
definition DisplayVersion :: int where "DisplayVersion = 3"

record limits =
  MaxRows :: int
  MaxColumns :: int
  MaxBytes :: int
  MaxCellBytes :: int
  MaxCategories :: int
  MaxSeries :: int
  MaxAlternatives :: int
  SelectionFloor :: int
  MaxOptionsBytes :: int
  MaxOptionsDepth :: int

definition Defaults :: limits where
  "Defaults = \<lparr>MaxRows = 5000, MaxColumns = 64, MaxBytes = 2097152, MaxCellBytes = 4096,
     MaxCategories = 100, MaxSeries = 12, MaxAlternatives = 3, SelectionFloor = 50,
     MaxOptionsBytes = 4096, MaxOptionsDepth = 2\<rparr>"

definition Limits_Validate :: "limits \<Rightarrow> charts_error + unit" where
  "Limits_Validate l =
     (if MaxRows l < 1 \<or> MaxRows l > 100000 \<or> MaxColumns l < 1 \<or> MaxColumns l > 256 \<or>
         MaxBytes l < 1024 \<or> MaxBytes l > 8388608 \<or> MaxCellBytes l < 16 \<or> MaxCellBytes l > 16384 \<or>
         MaxCellBytes l > MaxBytes l \<or>
         MaxCategories l < 1 \<or> MaxCategories l > 10000 \<or> MaxSeries l < 1 \<or> MaxSeries l > 128 \<or>
         MaxAlternatives l < 0 \<or> MaxAlternatives l > 13 \<or> SelectionFloor l < 1 \<or>
         SelectionFloor l > 100 \<or>
         MaxOptionsBytes l < 128 \<or> MaxOptionsBytes l > 16384 \<or> MaxOptionsDepth l < 1 \<or>
         MaxOptionsDepth l > 8
      then Inl ErrInvalid else Inr ())"

record format =
  Unit :: string
  Currency :: string
  CurrencySymbol :: string
  Percent :: string
  FractionDigits :: int
  Locale :: string
  DatePattern :: string

record provenance =
  provVersion :: int
  Source :: string
  SourceRevision :: int
  Topic :: string
  TopicVersion :: string
  SemanticID :: string

record column =
  colID :: string
  colName :: string
  DisplayLabel :: string
  colType :: string
  colRole :: string
  colGrain :: string
  colAggregation :: string
  colFormat :: format
  colProvenance :: provenance

record completeness =
  comStatus :: string
  comReason :: string

record data =
  dataVersion :: int
  dataColumns :: "column list"
  dataRows :: "cell list list"
  dataCompleteness :: completeness

record bindings =
  bCategory :: string
  bValue :: string
  bSeries :: string
  bX :: string
  bY :: string
  bParent :: string
  bColumns :: "string list"
  bValues :: "string list"
  bHierarchy :: "string list"
  bSize :: string
  bComparison :: string
  bTarget :: string

definition no_bindings :: bindings where
  "no_bindings = \<lparr>bCategory = [], bValue = [], bSeries = [], bX = [], bY = [], bParent = [],
     bColumns = [], bValues = [], bHierarchy = [], bSize = [], bComparison = [], bTarget = []\<rparr>"

record kpi_threshold =
  thOperator :: string
  thValue :: string
  thState :: string
  thLabel :: string

record kpi_options =
  ValueRow :: string
  ComparisonMode :: string
  ShowDelta :: bool
  ShowPercentDelta :: bool
  ShowTargetDifference :: bool
  kpiSparkline :: bool
  Thresholds :: "kpi_threshold list"

record table_intent =
  tiColumn :: string
  tiVisible :: bool

record table_options =
  tabColumns :: "table_intent list"
  PageSize :: int
  tabShowTotals :: bool

record order =
  ordColumn :: string
  Direction :: string

record legend =
  legVisible :: bool
  legPosition :: string

record options =
  optTitle :: string
  optLegend :: legend
  LabelMaxRunes :: int

definition DefaultOptions :: options where
  "DefaultOptions = \<lparr>optTitle = [], optLegend = \<lparr>legVisible = True, legPosition = ''bottom''\<rparr>,
     LabelMaxRunes = 80\<rparr>"

record mapping =
  mVersion :: int
  mKind :: kind
  mColumns :: "column list"
  mBindings :: bindings
  mOrder :: "order list"
  mOptions :: options
  mKPI :: "kpi_options option"
  mTable :: "table_options option"

record point =
  pRow :: int
  pCategory :: cell
  pSeries :: cell
  pParent :: cell
  pX :: val
  pY :: val
  pValue :: val
  pMeasure :: string
  pSeriesID :: string
  pCategoryKey :: string
  pSize :: "val option"
  pPath :: "cell list"

record total_row =
  totColumn :: string
  totValue :: cell
  totScope :: string

record kpi_result =
  krValue :: val
  krComparison :: "val option"
  krDelta :: "val option"
  krPercentDelta :: "val option"
  krTarget :: "val option"
  krTargetDifference :: "val option"
  krThresholdState :: string
  krThresholdLabel :: string
  krSparkline :: "val list"

record series_definition =
  serID :: string
  serMeasure :: string
  serName :: string
  serBreakdown :: cell
  serFormat :: format

record hierarchy_node =
  hnID :: string
  hnParent :: string
  hnDepth :: int
  hnPath :: "cell list"
  hnValue :: val
  hnRows :: "int list"
  hnAggregation :: string
  hnScope :: string

record transformation =
  trVersion :: int
  trMethod :: string
  trDuplicatePolicy :: string
  trNullPolicy :: string
  trAggregation :: string
  trSizeEncoding :: string
  trScope :: string
  trMissingPoints :: int
  trGapPoints :: int
  trZeroSizePoints :: int

record chart_output =
  oVersion :: int
  oKind :: kind
  oMapping :: mapping
  oColumns :: "column list"
  oRows :: "cell list list"
  oPoints :: "point list"
  oTotals :: "total_row list"
  oState :: string
  oInputRows :: int
  oOmittedRows :: int
  oCompleteness :: completeness
  oWarnings :: "string list"
  oSeries :: "series_definition list"
  oHierarchy :: "hierarchy_node list"
  oRowIndices :: "int list"
  oTransformation :: "transformation option"
  oKPIResult :: "kpi_result option"
  oTablePageSize :: int
  oShowTotals :: bool

record binding_variant =
  bvID :: string
  bvVersion :: int
  bvRequiredSlots :: "string list"
  bvOptionalSlots :: "string list"

record catalog_entry =
  ceKind :: kind
  RequiredSlots :: "string list"
  OptionalSlots :: "string list"
  Negative :: string
  Nulls :: string
  Variants :: "binding_variant list"

record change =
  From :: string
  To :: string

record proposal =
  propStatus :: string
  propMapping :: mapping
  propChanges :: "change list"

subsection \<open>Wire encoding\<close>

definition cell_json :: "cell \<Rightarrow> json" where
  "cell_json c = JObj [(''null'', JBool (cellNull c)), (''value'', JStr (cellValue c))]"

definition row_json :: "cell list \<Rightarrow> json" where
  "row_json r = JArr (map cell_json r)"

definition format_json :: "format \<Rightarrow> json" where
  "format_json f = JObj ([(''unit'', JStr (Unit f)), (''currency'', JStr (Currency f))]
     @ opt_str ''currency_symbol'' (CurrencySymbol f)
     @ [(''percent'', JStr (Percent f)), (''fraction_digits'', JInt (FractionDigits f))]
     @ opt_str ''locale'' (Locale f) @ opt_str ''date_pattern'' (DatePattern f))"

definition provenance_json :: "provenance \<Rightarrow> json" where
  "provenance_json p = JObj [(''version'', JInt (provVersion p)), (''source'', JStr (Source p)),
     (''source_revision'', JInt (SourceRevision p)), (''topic'', JStr (Topic p)),
     (''topic_version'', JStr (TopicVersion p)), (''semantic_id'', JStr (SemanticID p))]"

definition column_json :: "column \<Rightarrow> json" where
  "column_json c = JObj ([(''id'', JStr (colID c)), (''name'', JStr (colName c))]
     @ opt_str ''display_label'' (DisplayLabel c)
     @ [(''type'', JStr (colType c)), (''role'', JStr (colRole c)), (''grain'', JStr (colGrain c)),
        (''aggregation'', JStr (colAggregation c)), (''format'', format_json (colFormat c)),
        (''provenance'', provenance_json (colProvenance c))])"

definition completeness_json :: "completeness \<Rightarrow> json" where
  "completeness_json c = JObj [(''status'', JStr (comStatus c)), (''reason'', JStr (comReason c))]"

definition bindings_json :: "bindings \<Rightarrow> json" where
  "bindings_json b = JObj (opt_str ''category'' (bCategory b) @ opt_str ''value'' (bValue b)
     @ opt_str ''series'' (bSeries b) @ opt_str ''x'' (bX b) @ opt_str ''y'' (bY b)
     @ opt_str ''parent'' (bParent b) @ opt_arr ''columns'' (map JStr (bColumns b))
     @ opt_arr ''values'' (map JStr (bValues b)) @ opt_arr ''hierarchy'' (map JStr (bHierarchy b))
     @ opt_str ''size'' (bSize b) @ opt_str ''comparison'' (bComparison b)
     @ opt_str ''target'' (bTarget b))"

definition order_json :: "order \<Rightarrow> json" where
  "order_json x = JObj [(''column'', JStr (ordColumn x)), (''direction'', JStr (Direction x))]"

definition options_json :: "options \<Rightarrow> json" where
  "options_json x = JObj [(''title'', JStr (optTitle x)),
     (''legend'', JObj [(''visible'', JBool (legVisible (optLegend x))),
                      (''position'', JStr (legPosition (optLegend x)))]),
     (''label_max_runes'', JInt (LabelMaxRunes x))]"

definition threshold_json :: "kpi_threshold \<Rightarrow> json" where
  "threshold_json t = JObj ([(''operator'', JStr (thOperator t)), (''value'', JStr (thValue t)),
     (''state'', JStr (thState t))] @ opt_str ''label'' (thLabel t))"

definition kpi_json :: "kpi_options \<Rightarrow> json" where
  "kpi_json k = JObj [(''value_row'', JStr (ValueRow k)), (''comparison_mode'', JStr (ComparisonMode k)),
     (''show_delta'', JBool (ShowDelta k)), (''show_percent_delta'', JBool (ShowPercentDelta k)),
     (''show_target_difference'', JBool (ShowTargetDifference k)),
     (''sparkline'', JBool (kpiSparkline k)), (''thresholds'', nil_arr (map threshold_json (Thresholds k)))]"

definition table_json :: "table_options \<Rightarrow> json" where
  "table_json t = JObj [(''columns'', nil_arr (map (\<lambda>c. JObj [(''column'', JStr (tiColumn c)),
        (''visible'', JBool (tiVisible c))]) (tabColumns t))),
     (''page_size'', JInt (PageSize t)), (''show_totals'', JBool (tabShowTotals t))]"

definition mapping_json :: "mapping \<Rightarrow> json" where
  "mapping_json m = JObj ([(''version'', JInt (mVersion m)), (''kind'', JStr (kind_text (mKind m))),
     (''columns'', nil_arr (map column_json (mColumns m))), (''bindings'', bindings_json (mBindings m)),
     (''order'', nil_arr (map order_json (mOrder m))), (''options'', options_json (mOptions m))]
     @ opt_ptr ''kpi'' (map_option kpi_json (mKPI m)) @ opt_ptr ''table'' (map_option table_json (mTable m)))"

definition val_json :: "val \<Rightarrow> json" where
  "val_json v = JObj [(''null'', JBool (valNull v)), (''exact'', JStr (valExact v)),
     (''coordinate'', case valCoordinate v of None \<Rightarrow> JNull | Some f \<Rightarrow> JFloat f),
     (''approximate'', JBool (valApproximate v))]"

definition point_json :: "point \<Rightarrow> json" where
  "point_json p = JObj ([(''row'', JInt (pRow p)), (''category'', cell_json (pCategory p)),
     (''series'', cell_json (pSeries p)), (''parent'', cell_json (pParent p)), (''x'', val_json (pX p)),
     (''y'', val_json (pY p)), (''value'', val_json (pValue p))] @ opt_str ''measure'' (pMeasure p)
     @ opt_str ''series_id'' (pSeriesID p) @ opt_str ''category_key'' (pCategoryKey p)
     @ opt_ptr ''size'' (map_option val_json (pSize p)) @ opt_arr ''path'' (map cell_json (pPath p)))"

definition total_json :: "total_row \<Rightarrow> json" where
  "total_json t = JObj [(''column'', JStr (totColumn t)), (''value'', cell_json (totValue t)),
     (''scope'', JStr (totScope t))]"

definition kpi_result_json :: "kpi_result \<Rightarrow> json" where
  "kpi_result_json k = JObj ([(''value'', val_json (krValue k))]
     @ opt_ptr ''comparison'' (map_option val_json (krComparison k))
     @ opt_ptr ''delta'' (map_option val_json (krDelta k))
     @ opt_ptr ''percent_delta'' (map_option val_json (krPercentDelta k))
     @ opt_ptr ''target'' (map_option val_json (krTarget k))
     @ opt_ptr ''target_difference'' (map_option val_json (krTargetDifference k))
     @ opt_str ''threshold_state'' (krThresholdState k) @ opt_str ''threshold_label'' (krThresholdLabel k)
     @ [(''sparkline'', JArr (map val_json (krSparkline k)))])"

definition series_json :: "series_definition \<Rightarrow> json" where
  "series_json s = JObj [(''id'', JStr (serID s)), (''measure'', JStr (serMeasure s)),
     (''name'', JStr (serName s)), (''breakdown'', cell_json (serBreakdown s)),
     (''format'', format_json (serFormat s))]"

definition node_json :: "hierarchy_node \<Rightarrow> json" where
  "node_json n = JObj [(''id'', JStr (hnID n)), (''parent'', JStr (hnParent n)),
     (''depth'', JInt (hnDepth n)), (''path'', JArr (map cell_json (hnPath n))),
     (''value'', val_json (hnValue n)), (''rows'', JArr (map JInt (hnRows n))),
     (''aggregation'', JStr (hnAggregation n)), (''scope'', JStr (hnScope n))]"

definition transformation_json :: "transformation \<Rightarrow> json" where
  "transformation_json t = JObj ([(''version'', JInt (trVersion t)), (''method'', JStr (trMethod t)),
     (''duplicate_policy'', JStr (trDuplicatePolicy t)), (''null_policy'', JStr (trNullPolicy t))]
     @ opt_str ''aggregation'' (trAggregation t) @ opt_str ''size_encoding'' (trSizeEncoding t)
     @ [(''scope'', JStr (trScope t)), (''missing_points'', JInt (trMissingPoints t)),
        (''gap_points'', JInt (trGapPoints t)), (''zero_size_points'', JInt (trZeroSizePoints t))])"

definition output_json :: "chart_output \<Rightarrow> json" where
  "output_json x = JObj ([(''version'', JInt (oVersion x)), (''kind'', JStr (kind_text (oKind x))),
     (''mapping'', mapping_json (oMapping x)), (''columns'', nil_arr (map column_json (oColumns x))),
     (''rows'', JArr (map row_json (oRows x))), (''points'', JArr (map point_json (oPoints x))),
     (''totals'', JArr (map total_json (oTotals x))), (''state'', JStr (oState x)),
     (''input_rows'', JInt (oInputRows x)), (''omitted_rows'', JInt (oOmittedRows x)),
     (''completeness'', completeness_json (oCompleteness x)),
     (''warnings'', JArr (map JStr (oWarnings x)))]
     @ opt_arr ''series'' (map series_json (oSeries x)) @ opt_arr ''hierarchy'' (map node_json (oHierarchy x))
     @ opt_arr ''row_indices'' (map JInt (oRowIndices x))
     @ opt_ptr ''transformation'' (map_option transformation_json (oTransformation x))
     @ opt_ptr ''kpi_result'' (map_option kpi_result_json (oKPIResult x))
     @ opt_int ''table_page_size'' (oTablePageSize x)
     @ (if oShowTotals x then [(''show_totals'', JBool True)] else []))"

subsection \<open>Validation of texts, columns and data\<close>

definition upper_rune :: "int \<Rightarrow> bool" where
  "upper_rune r \<longleftrightarrow> 65 \<le> r \<and> r \<le> 90"

definition locale_part :: "nat \<Rightarrow> string \<Rightarrow> bool" where
  "locale_part i part \<longleftrightarrow> part \<noteq> [] \<and> length part \<le> 8 \<and>
     (\<forall>(r, n) \<in> set (runes part).
        r < 65 \<or> r > 90 \<and> r < 97 \<or> r > 122 \<longrightarrow> \<not> (i = 0 \<or> r < 48 \<or> r > 57))"

definition localeTag :: "string \<Rightarrow> bool" where
  "localeTag s =
     (if s = [] then True
      else if length s < 2 \<or> length s > 35 then False
      else let parts = split_on CHR ''-'' s
           in if length (hd parts) < 2 \<or> length (hd parts) > 3 then False
              else list_all (\<lambda>(i, part). locale_part i part) (List.enumerate 0 parts))"

definition chart_ident_rune :: "int \<Rightarrow> bool" where
  "chart_ident_rune c \<longleftrightarrow> 97 \<le> c \<and> c \<le> 122 \<or> 65 \<le> c \<and> c \<le> 90 \<or> 48 \<le> c \<and> c \<le> 57
     \<or> c \<in> set (map code ''_.:-'')"

definition chart_identifier :: "string \<Rightarrow> bool" where
  "chart_identifier s =
     (if length s < 1 \<or> length s > 128 then False
      else list_all (\<lambda>(c, n). chart_ident_rune c) (runes s))"

definition text_ok :: "string \<Rightarrow> int \<Rightarrow> bool" where
  "text_ok s mx =
     (if int (length s) > mx \<or> \<not> ValidString s then False
      else list_all (\<lambda>(c, n). \<not> (c < 32 \<and> c \<noteq> 10 \<and> c \<noteq> 9 \<or> c = 127)) (runes s))"

definition oneOf :: "string \<Rightarrow> string list \<Rightarrow> bool" where
  "oneOf s choices \<longleftrightarrow> s \<in> set choices"

definition validateColumn :: "column \<Rightarrow> charts_error + unit" where
  "validateColumn c =
     (let f = colFormat c; p = colProvenance c in
      if \<not> chart_identifier (colID c) \<or> colName c = [] \<or> \<not> text_ok (colName c) 1024 \<or>
         \<not> text_ok (DisplayLabel c) 256 \<or>
         \<not> oneOf (colType c) [''integer'', ''decimal'', ''number'', ''text'', ''temporal'', ''boolean'', ''binary'', ''structured''] \<or>
         \<not> oneOf (colRole c) [''unknown'', ''identifier'', ''dimension'', ''time'', ''measure'', ''kpi''] \<or>
         \<not> oneOf (colGrain c) [[], ''second'', ''minute'', ''hour'', ''day'', ''week'', ''month'', ''quarter'', ''year''] \<or>
         \<not> oneOf (colAggregation c) [[], ''sum'', ''count'', ''average'', ''minimum'', ''maximum'', ''distinct_count''] \<or>
         \<not> text_ok (Unit f) 64 \<or> \<not> text_ok (CurrencySymbol f) 8 \<or> \<not> localeTag (Locale f) \<or>
         \<not> oneOf (DatePattern f) [[], ''date_short'', ''date_medium'', ''date_long'', ''datetime_short'', ''year_month''] \<or>
         \<not> oneOf (Percent f) [[], ''fraction'', ''whole''] \<or> FractionDigits f < 0 \<or> FractionDigits f > 20
      then Inl ErrInvalid
      else if Currency f \<noteq> [] \<and> (length (Currency f) \<noteq> 3 \<or> Percent f \<noteq> [] \<or>
                \<not> list_all (\<lambda>(r, n). upper_rune r) (runes (Currency f)))
      then Inl ErrInvalid
      else if CurrencySymbol f \<noteq> [] \<and> Currency f = [] then Inl ErrInvalid
      else if DatePattern f \<noteq> [] \<and> colType c \<noteq> ''temporal'' then Inl ErrInvalid
      else if \<not> numeric (colType c) \<and>
                (colRole c = ''measure'' \<or> colRole c = ''kpi'' \<or> colAggregation c \<noteq> [] \<or> Currency f \<noteq> [] \<or>
                 Percent f \<noteq> [] \<or> FractionDigits f \<noteq> 0) \<or>
              colRole c = ''time'' \<and> colType c \<noteq> ''temporal'' \<or>
              colGrain c \<noteq> [] \<and> colType c \<noteq> ''temporal''
      then Inl ErrInvalid
      else if provVersion p \<noteq> Version \<or> Source p = [] \<and> SourceRevision p \<noteq> 0 \<or>
              Source p \<noteq> [] \<and> (\<not> chart_identifier (Source p) \<or> SourceRevision p < 1) \<or>
              Topic p = [] \<and> (TopicVersion p \<noteq> [] \<or> SemanticID p \<noteq> []) \<or>
              Topic p \<noteq> [] \<and> (\<not> chart_identifier (Topic p) \<or> \<not> chart_identifier (TopicVersion p) \<or> \<not> chart_identifier (SemanticID p))
      then Inl ErrInvalid
      else Inr ())"

definition hex_rune :: "int \<Rightarrow> bool" where
  "hex_rune v \<longleftrightarrow> \<not> ((v < 48 \<or> v > 57) \<and> (v < 97 \<or> v > 102) \<and> (v < 65 \<or> v > 70))"

definition typed_cell :: "golib \<Rightarrow> string \<Rightarrow> string \<Rightarrow> charts_error + unit" where
  "typed_cell g typ v =
     (if typ = ''integer'' then
        (if ContainsAny v ''.eE'' then Inl ErrInvalid
         else case decimal v of Inl _ \<Rightarrow> Inl ErrInvalid | Inr _ \<Rightarrow> Inr ())
      else if typ = ''decimal'' \<or> typ = ''number'' then
        (case decimal v of Inl _ \<Rightarrow> Inl ErrInvalid | Inr _ \<Rightarrow> Inr ())
      else if typ = ''binary'' then
        (if length v mod 2 \<noteq> 0 then Inl ErrInvalid
         else if \<not> list_all (\<lambda>(r, n). hex_rune r) (runes v) then Inl ErrInvalid else Inr ())
      else if typ = ''structured'' then (if \<not> json_Valid g v then Inl ErrInvalid else Inr ())
      else if typ = ''boolean'' then
        (if v \<noteq> ''true'' \<and> v \<noteq> ''false'' then Inl ErrInvalid else Inr ())
      else Inr ())"

definition validate_cell :: "golib \<Rightarrow> limits \<Rightarrow> column \<times> cell \<Rightarrow> charts_error + unit" where
  "validate_cell g l cc =
     (case cc of (col, cell) \<Rightarrow>
        if int (length (cellValue cell)) > MaxCellBytes l then Inl ErrLimit
        else if \<not> text_ok (cellValue cell) (MaxCellBytes l) \<or> cellNull cell \<and> cellValue cell \<noteq> []
        then Inl ErrInvalid
        else if cellNull cell then Inr ()
        else typed_cell g (colType col) (cellValue cell))"

definition column_step :: "column \<Rightarrow> string set \<Rightarrow> charts_error + string set" where
  "column_step c seen =
     (if colID c \<in> seen \<or> \<not> is_ok (validateColumn c) then Inl ErrInvalid
      else Inr (insert (colID c) seen))"

text \<open>The row loop carries the byte count; \<open>i > 0\<close> is that a row came before.\<close>

definition row_step ::
  "golib \<Rightarrow> limits \<Rightarrow> column list \<Rightarrow> cell list \<Rightarrow> bool \<times> int \<Rightarrow> charts_error + bool \<times> int" where
  "row_step g l cols row st =
     (case st of (later, bytes) \<Rightarrow>
        if length row \<noteq> length cols then Inl ErrInvalid
        else case each (validate_cell g l) (zip cols row) of
               Inl err \<Rightarrow> Inl err
             | Inr _ \<Rightarrow>
                 let bytes = bytes + json_len g (row_json row) + (if later then 1 else 0)
                 in if bytes > MaxBytes l then Inl ErrLimit else Inr (True, bytes))"

definition meta_json :: "data \<Rightarrow> json" where
  "meta_json d = JObj [(''version'', JInt (dataVersion d)),
     (''columns'', JArr (map column_json (dataColumns d))),
     (''completeness'', completeness_json (dataCompleteness d))]"

definition ValidateData :: "golib \<Rightarrow> data \<Rightarrow> limits \<Rightarrow> charts_error + unit" where
  "ValidateData g d l =
     (let st = comStatus (dataCompleteness d); re = comReason (dataCompleteness d) in
      if \<not> is_ok (Limits_Validate l) \<or> dataVersion d \<noteq> Version \<or> dataColumns d = [] \<or>
         \<not> oneOf st [''complete_result'', ''truncated''] \<or>
         st = ''complete_result'' \<and> re \<noteq> [] \<or>
         st = ''truncated'' \<and> \<not> oneOf re [''rows'', ''bytes'', ''source_limit'', ''unknown'']
      then Inl ErrInvalid
      else if int (length (dataColumns d)) > MaxColumns l \<or> int (length (dataRows d)) > MaxRows l
      then Inl ErrLimit
      else case fold_res column_step (dataColumns d) {} of
             Inl err \<Rightarrow> Inl err
           | Inr _ \<Rightarrow>
               let bytes = json_len g (meta_json d) + 10
               in if bytes > MaxBytes l then Inl ErrLimit
                  else case fold_res (row_step g l (dataColumns d)) (dataRows d) (False, bytes) of
                         Inl err \<Rightarrow> Inl err
                       | Inr _ \<Rightarrow> Inr ())"

definition optionText :: "golib \<Rightarrow> string \<Rightarrow> bool" where
  "optionText g s =
     (let lower = ToLower g s in
      text_ok s 512 \<and> \<not> ContainsAny s [CHR ''<'', CHR ''>'', byte_of 10, byte_of 9] \<and>
      \<not> contains lower ''javascript:'' \<and> \<not> contains lower ''data:'' \<and>
      \<not> contains lower ''://'' \<and> \<not> has_prefix (TrimLeft g lower) ''//'' \<and>
      \<not> contains lower ''file:'' \<and> \<not> contains lower ''blob:'')"

definition validateOptions :: "golib \<Rightarrow> options \<Rightarrow> limits \<Rightarrow> charts_error + unit" where
  "validateOptions g x l =
     (if \<not> optionText g (optTitle x) \<or>
         \<not> oneOf (legPosition (optLegend x)) [''top'', ''bottom'', ''left'', ''right''] \<or>
         LabelMaxRunes x < 1 \<or> LabelMaxRunes x > 1024
      then Inl ErrInvalid
      else if json_len g (options_json x) > MaxOptionsBytes l \<or> MaxOptionsDepth l < 2 then Inl ErrLimit
      else Inr ())"

text \<open>\<open>columnIndex\<close> is \<open>- 1\<close> when the column is absent; indexing with it is a run-time panic,
  the unspecified value of \<open>index\<close>.\<close>

definition index :: "'a list \<Rightarrow> int \<Rightarrow> 'a" where
  "index xs i = (if 0 \<le> i \<and> i < int (length xs) then xs ! nat i else undefined)"

fun columnIndex :: "column list \<Rightarrow> string \<Rightarrow> int" where
  "columnIndex [] x = - 1"
| "columnIndex (c # cs) x =
     (if colID c = x then 0
      else let i = columnIndex cs x in if i < 0 then - 1 else i + 1)"

definition temporal_layouts :: "string list" where
  "temporal_layouts = [''2006-01-02T15:04:05.999999999Z07:00'', ''2006-01-02 15:04:05.999999999Z07:00'',
     ''2006-01-02 15:04:05.999999999'', ''2006-01-02'', ''2006-01'', ''2006'']"

fun first_parse :: "golib \<Rightarrow> string list \<Rightarrow> string \<Rightarrow> go_time option" where
  "first_parse g [] s = None"
| "first_parse g (f # fs) s =
     (case time_Parse g f s of Some t \<Rightarrow> Some t | None \<Rightarrow> first_parse g fs s)"

definition temporal :: "golib \<Rightarrow> string \<Rightarrow> go_time option" where
  "temporal g s = first_parse g temporal_layouts s"

definition category :: "column \<Rightarrow> bool" where
  "category c \<longleftrightarrow> colType c = ''text'' \<or> colType c = ''temporal'' \<or> colType c = ''boolean'' \<or>
     numeric (colType c) \<and> (colRole c = ''dimension'' \<or> colRole c = ''identifier'')"

definition measure_col :: "column \<Rightarrow> bool" where
  "measure_col c \<longleftrightarrow> numeric (colType c) \<and> colRole c \<noteq> ''identifier'' \<and> colRole c \<noteq> ''dimension''"

definition data_json :: "data \<Rightarrow> json" where
  "data_json d = JObj [(''version'', JInt (dataVersion d)),
     (''columns'', JArr (map column_json (dataColumns d))),
     (''rows'', JArr (map row_json (dataRows d))),
     (''completeness'', completeness_json (dataCompleteness d))]"

subsection \<open>Column lookup\<close>

lemma columnIndex_range: "- 1 \<le> columnIndex cs x \<and> columnIndex cs x < int (length cs)"
  by (induction cs) (auto simp: Let_def)

lemma columnIndex_nonneg_iff: "0 \<le> columnIndex cs x \<longleftrightarrow> x \<in> colID ` set cs"
  by (induction cs) (auto simp: Let_def)

lemma columnIndex_neg_iff: "columnIndex cs x < 0 \<longleftrightarrow> x \<notin> colID ` set cs"
  using columnIndex_nonneg_iff [of cs x] by linarith

lemma columnIndex_nth:
  "x \<in> colID ` set cs \<Longrightarrow> colID (cs ! nat (columnIndex cs x)) = x"
proof (induction cs)
  case (Cons c cs)
  show ?case
  proof (cases "colID c = x")
    case False
    with Cons have "0 \<le> columnIndex cs x" by (simp add: columnIndex_nonneg_iff)
    with False Cons show ?thesis by (auto simp: Let_def nat_add_distrib)
  qed simp
qed simp

lemma columnIndex_distinct:
  assumes "distinct (map colID cs)" "i < length cs"
  shows "columnIndex cs (colID (cs ! i)) = int i"
  using assms
proof (induction cs arbitrary: i)
  case (Cons c cs)
  show ?case
  proof (cases i)
    case (Suc j)
    with Cons.prems have "colID c \<noteq> colID (cs ! j)" using nth_mem [of j cs] Cons.prems(2) by auto
    with Suc Cons show ?thesis by (simp add: Let_def)
  qed simp
qed simp

lemma index_nat [simp]: "i < length xs \<Longrightarrow> index xs (int i) = xs ! i"
  by (simp add: index_def)

lemma index_columnIndex:
  "x \<in> colID ` set cs \<Longrightarrow> index cs (columnIndex cs x) = cs ! nat (columnIndex cs x)"
  using columnIndex_range [of cs x] columnIndex_nonneg_iff [of cs x] by (simp add: index_def)

lemma index_in_set:
  assumes "x \<in> colID ` set cs"
  shows "index cs (columnIndex cs x) \<in> set cs" and "colID (index cs (columnIndex cs x)) = x"
  using assms columnIndex_range [of cs x] columnIndex_nonneg_iff [of cs x] columnIndex_nth [of x cs]
  by (simp_all add: index_columnIndex nth_mem nat_less_iff)

subsection \<open>What validated data guarantees\<close>

text \<open>A cell as the typed columns promise it.\<close>

definition cell_ok :: "string \<Rightarrow> cell \<Rightarrow> bool" where
  "cell_ok typ c \<longleftrightarrow>
     (cellNull c \<longrightarrow> cellValue c = []) \<and>
     (\<not> cellNull c \<and> numeric typ \<longrightarrow> is_ok (decimal (cellValue c))) \<and>
     (\<not> cellNull c \<and> typ = ''boolean'' \<longrightarrow> cellValue c \<in> {''true'', ''false''})"

definition data_ok :: "data \<Rightarrow> bool" where
  "data_ok d \<longleftrightarrow> dataColumns d \<noteq> [] \<and> distinct (map colID (dataColumns d)) \<and>
     (\<forall>c \<in> set (dataColumns d). validateColumn c = Inr ()) \<and>
     (\<forall>row \<in> set (dataRows d). list_all2 (\<lambda>c v. cell_ok (colType c) v) (dataColumns d) row)"

lemma column_fold:
  assumes "fold_res column_step cs seen = Inr t"
  shows "distinct (map colID cs) \<and> seen \<inter> colID ` set cs = {} \<and> (\<forall>c \<in> set cs. validateColumn c = Inr ())"
  using assms
proof (induction cs arbitrary: seen)
  case (Cons c cs)
  from Cons.prems have s: "colID c \<notin> seen" "is_ok (validateColumn c)"
    and r: "fold_res column_step cs (insert (colID c) seen) = Inr t"
    by (auto simp: column_step_def [of c seen])
  from s(2) have "validateColumn c = Inr ()" by (cases "validateColumn c") auto
  with Cons.IH [OF r] s(1) show ?case by auto
qed simp

lemma validate_cell_ok: "validate_cell g l (c, v) = Inr () \<Longrightarrow> cell_ok (colType c) v"
  by (auto simp: validate_cell_def typed_cell_def cell_ok_def numeric_def is_ok_iff split: if_splits)

lemma row_fold_all:
  assumes "fold_res (row_step g l cols) rows (later, b0) = Inr (later', b)"
  shows "b = b0 + (\<Sum>r\<leftarrow>rows. json_len g (row_json r))
             + (if later then int (length rows) else int (length rows - 1))
    \<and> (b0 \<le> MaxBytes l \<longrightarrow> b \<le> MaxBytes l)
    \<and> (\<forall>row \<in> set rows. length row = length cols \<and> (\<forall>cv \<in> set (zip cols row). validate_cell g l cv = Inr ()))"
  using assms
proof (induction rows arbitrary: later b0)
  case (Cons r rs)
  define b1 where "b1 = b0 + json_len g (row_json r) + (if later then 1 else 0)"
  from Cons.prems have r: "length r = length cols" "\<forall>cv \<in> set (zip cols r). validate_cell g l cv = Inr ()"
    and b1: "b1 \<le> MaxBytes l" and rest: "fold_res (row_step g l cols) rs (True, b1) = Inr (later', b)"
    by (auto simp: row_step_def [of g l cols r "(later, b0)"] b1_def Let_def)
  note ih = Cons.IH [OF rest]
  have "b = b1 + (\<Sum>r\<leftarrow>rs. json_len g (row_json r)) + int (length rs)" using ih by simp
  then have "b = b0 + (\<Sum>r\<leftarrow>r # rs. json_len g (row_json r))
      + (if later then int (length (r # rs)) else int (length (r # rs) - 1))"
    by (simp add: b1_def)
  with ih r b1 show ?case by auto
qed simp

lemmas row_fold = row_fold_all [THEN conjunct1] row_fold_all [THEN conjunct2, THEN conjunct1]
  row_fold_all [THEN conjunct2, THEN conjunct2]

lemma ValidateData_ok:
  assumes "ValidateData g d l = Inr u"
  shows "data_ok d"
proof -
  from assms obtain seen later b where
    cols: "fold_res column_step (dataColumns d) {} = Inr seen" and "dataColumns d \<noteq> []"
    and rows: "fold_res (row_step g l (dataColumns d)) (dataRows d) (False, json_len g (meta_json d) + 10) = Inr (later, b)"
    by (auto simp: ValidateData_def Let_def)
  moreover have "list_all2 (\<lambda>c v. cell_ok (colType c) v) (dataColumns d) row" if "row \<in> set (dataRows d)" for row
    using row_fold(3) [OF rows] that validate_cell_ok [of g l] by (fastforce simp: list_all2_iff)
  ultimately show ?thesis
    using column_fold [OF cols] by (simp add: data_ok_def)
qed

lemma ValidateData_limits:
  assumes "ValidateData g d l = Inr u"
  shows "Limits_Validate l = Inr ()" and "int (length (dataColumns d)) \<le> MaxColumns l"
    and "int (length (dataRows d)) \<le> MaxRows l"
  using assms by (auto simp: ValidateData_def Let_def is_ok_iff)

lemma json_len_arr: "json_len g (JArr xs) = 2 + (\<Sum>x\<leftarrow>xs. json_len g x) + int (length xs - 1)"
  by (simp add: length_join_commas o_def flip: sum_list_of_nat)


definition plain_format :: format where
  "plain_format = \<lparr>Unit = [], Currency = [], CurrencySymbol = [], Percent = [], FractionDigits = 0, Locale = [],
     DatePattern = []\<rparr>"

definition sample_column :: "string \<Rightarrow> string \<Rightarrow> string \<Rightarrow> string \<Rightarrow> column" where
  "sample_column x typ role agg =
     \<lparr>colID = x, colName = x, DisplayLabel = [], colType = typ, colRole = role, colGrain = [],
      colAggregation = agg, colFormat = plain_format,
      colProvenance = \<lparr>provVersion = 1, Source = [], SourceRevision = 0, Topic = ''t'', TopicVersion = ''v'',
        SemanticID = x\<rparr>\<rparr>"

definition sample_cell :: "string \<Rightarrow> cell" where
  "sample_cell s = \<lparr>cellNull = (s = []), cellValue = s\<rparr>"

definition sample_rows :: "string list list \<Rightarrow> cell list list" where
  "sample_rows rows = map (map sample_cell) rows"

definition sample_data :: "column list \<Rightarrow> string list list \<Rightarrow> data" where
  "sample_data cols rows =
     \<lparr>dataVersion = 1, dataColumns = cols, dataRows = sample_rows rows,
      dataCompleteness = \<lparr>comStatus = ''complete_result'', comReason = []\<rparr>\<rparr>"

definition sales_columns :: "column list" where
  "sales_columns = [sample_column ''R'' ''text'' ''dimension'' [], sample_column ''A'' ''decimal'' ''measure'' ''sum'']"

definition sales :: data where
  "sales = sample_data sales_columns [[''N'', ''1.5''], [''S'', ''0.25''], [''W'', []]]"


end
