(* ===== verification/ChartMapping.thy ===== *)
theory ChartMapping
  imports ChartModel "HOL-Library.AList"
begin

text \<open>
  Saved chart definitions: the catalog and its binding variants, the slot grammar, the shape
  checks over the rows, binding and rebinding (\<^verbatim>\<open>internal/charts/mapping.go\<close> and
  \<^verbatim>\<open>rich_contract.go\<close>).
\<close>

subsection \<open>Catalog\<close>

definition MaxTransformedPoints :: int where "MaxTransformedPoints = 10000"
definition MaxHierarchyDepth :: int where "MaxHierarchyDepth = 8"

definition richBindings :: "kind \<Rightarrow> bindings \<Rightarrow> bool" where
  "richBindings kind b \<longleftrightarrow> length (bValues b) \<noteq> 0 \<or> length (bHierarchy b) \<noteq> 0 \<or> bSize b \<noteq> [] \<or>
     bSeries b \<noteq> [] \<and> (kind = Line \<or> kind = Area \<or> kind = Bar \<or> kind = ColumnChart)"

definition variantID :: "kind \<Rightarrow> bindings \<Rightarrow> string" where
  "variantID kind b =
     (if length (bHierarchy b) > 0 then ''ordered_hierarchy''
      else if bSize b \<noteq> [] then ''bubble''
      else if length (bValues b) > 0 \<and> bSeries b \<noteq> [] then ''multi_measure_series''
      else if length (bValues b) > 0 then ''multi_measure''
      else if bSeries b \<noteq> [] then ''series_breakdown''
      else if kind = Treemap \<and> bParent b \<noteq> [] then ''parent_category''
      else ''scalar'')"

definition variant :: "string \<Rightarrow> int \<Rightarrow> string list \<Rightarrow> string list \<Rightarrow> binding_variant" where
  "variant v ver req opt = \<lparr>bvID = v, bvVersion = ver, bvRequiredSlots = req, bvOptionalSlots = opt\<rparr>"

definition bindingVariants :: "catalog_entry \<Rightarrow> binding_variant list" where
  "bindingVariants e =
     (let k = ceKind e; req = RequiredSlots e; opt = OptionalSlots e in
      (if k \<in> {GroupedBar, StackedBar, StackedColumn} then [variant ''series_breakdown'' Version req opt]
       else if k = Scatter then
         [variant ''scalar'' Version req [], variant ''series_breakdown'' Version [''x'', ''y'', ''series''] []]
       else if k = Treemap then
         [variant ''scalar'' Version req [], variant ''parent_category'' Version [''category'', ''value'', ''parent''] []]
       else [variant ''scalar'' Version req opt]) @
      (if k \<in> {Line, Area, Bar, ColumnChart, GroupedBar} then
         [variant ''multi_measure'' RichVersion [''category'', ''values''] [],
          variant ''multi_measure_series'' RichVersion [''category'', ''values'', ''series''] []] @
         (if k \<noteq> GroupedBar
          then [variant ''series_breakdown'' RichVersion [''category'', ''value'', ''series''] []] else [])
       else if k = Scatter then [variant ''bubble'' RichVersion [''x'', ''y'', ''size''] [''series'']]
       else if k = Treemap then [variant ''ordered_hierarchy'' RichVersion [''hierarchy'', ''value''] []]
       else []))"

definition catalog_row :: "kind \<Rightarrow> string list \<Rightarrow> string list \<Rightarrow> string \<Rightarrow> string \<Rightarrow> catalog_entry" where
  "catalog_row k req opt neg nulls =
     (let e = \<lparr>ceKind = k, RequiredSlots = req, OptionalSlots = opt, Negative = neg, Nulls = nulls, Variants = []\<rparr>
      in e\<lparr>Variants := bindingVariants e\<rparr>)"

definition Catalog :: "catalog_entry list" where
  "Catalog =
     [catalog_row Area [''category'', ''value''] [] ''allowed'' ''gap'',
      catalog_row Bar [''category'', ''value''] [] ''allowed'' ''omit'',
      catalog_row ColumnChart [''category'', ''value''] [] ''allowed'' ''omit'',
      catalog_row Donut [''category'', ''value''] [] ''rejected'' ''omit'',
      catalog_row GroupedBar [''category'', ''value'', ''series''] [] ''allowed'' ''omit'',
      catalog_row Heatmap [''x'', ''y'', ''value''] [] ''allowed'' ''omit'',
      catalog_row KPI [''value''] [] ''allowed'' ''empty'',
      catalog_row Line [''category'', ''value''] [] ''allowed'' ''gap'',
      catalog_row Pie [''category'', ''value''] [] ''rejected'' ''omit'',
      catalog_row Scatter [''x'', ''y''] [''series''] ''allowed'' ''omit'',
      catalog_row StackedBar [''category'', ''value'', ''series''] [] ''allowed'' ''omit'',
      catalog_row StackedColumn [''category'', ''value'', ''series''] [] ''allowed'' ''omit'',
      catalog_row Table [''columns''] [] ''allowed'' ''preserve'',
      catalog_row Treemap [''category'', ''value''] [''parent''] ''rejected'' ''omit'']"

definition catalog_find :: "kind \<Rightarrow> catalog_entry option" where
  "catalog_find k = find (\<lambda>item. ceKind item = k) Catalog"

definition slot :: "bindings \<Rightarrow> string \<Rightarrow> string" where
  "slot b name =
     (if name = ''category'' then bCategory b
      else if name = ''value'' then bValue b
      else if name = ''series'' then bSeries b
      else if name = ''x'' then bX b
      else if name = ''y'' then bY b
      else if name = ''parent'' then bParent b
      else if name = ''columns'' then (case bColumns b of [] \<Rightarrow> [] | c # _ \<Rightarrow> c)
      else [])"

definition bound :: "bindings \<Rightarrow> string list" where
  "bound b =
     filter (\<lambda>s. s \<noteq> []) [bCategory b, bValue b, bSeries b, bX b, bY b, bParent b, bSize b, bComparison b, bTarget b]
     @ bValues b @ bHierarchy b @ bColumns b"

text \<open>The clone copies every slice; in a language of values it is the mapping itself.\<close>

definition cloneMapping :: "mapping \<Rightarrow> mapping" where
  "cloneMapping m =
     m\<lparr>mColumns := mColumns m, mBindings := mBindings m, mOrder := mOrder m, mKPI := mKPI m, mTable := mTable m\<rparr>"

subsection \<open>Slots\<close>

definition scalar_slots :: "mapping \<Rightarrow> catalog_entry \<Rightarrow> charts_error + unit" where
  "scalar_slots m e =
     (let b = mBindings m in
      if mVersion m \<noteq> Version then Inl ErrInvalid
      else if \<exists>required \<in> set (RequiredSlots e). slot b required = [] then Inl ErrUnsuitable
      else if \<exists>name \<in> set [''category'', ''value'', ''series'', ''x'', ''y'', ''parent'', ''columns''].
                slot b name \<noteq> [] \<and> \<not> oneOf name (RequiredSlots e) \<and> \<not> oneOf name (OptionalSlots e)
      then Inl ErrInvalid else Inr ())"

definition rich_slots :: "mapping \<Rightarrow> charts_error + unit" where
  "rich_slots m =
     (let b = mBindings m in
      if mVersion m \<noteq> RichVersion then Inl ErrInvalid
      else if mKind m \<in> {Line, Area, Bar, ColumnChart, GroupedBar} then
        (if bX b \<noteq> [] \<or> bY b \<noteq> [] \<or> bSize b \<noteq> [] \<or> bParent b \<noteq> [] \<or> bColumns b \<noteq> [] \<or> bHierarchy b \<noteq> []
         then Inl ErrInvalid
         else if bCategory b = [] \<or> bValue b = [] \<and> bValues b = [] then Inl ErrUnsuitable
         else if bValue b \<noteq> [] \<and> bValues b \<noteq> [] then Inl ErrInvalid
         else if mKind m = GroupedBar \<and> bSeries b = [] \<and> length (bValues b) < 2 then Inl ErrUnsuitable
         else Inr ())
      else if mKind m = Scatter then
        (if bCategory b \<noteq> [] \<or> bValue b \<noteq> [] \<or> bParent b \<noteq> [] \<or> bValues b \<noteq> [] \<or> bColumns b \<noteq> [] \<or> bHierarchy b \<noteq> []
         then Inl ErrInvalid
         else if bX b = [] \<or> bY b = [] \<or> bSize b = [] then Inl ErrUnsuitable
         else Inr ())
      else if mKind m = Treemap then
        (if bCategory b \<noteq> [] \<or> bParent b \<noteq> [] \<or> bSeries b \<noteq> [] \<or> bX b \<noteq> [] \<or> bY b \<noteq> [] \<or> bSize b \<noteq> [] \<or>
            bValues b \<noteq> [] \<or> bColumns b \<noteq> []
         then Inl ErrInvalid
         else if bValue b = [] \<or> bHierarchy b = [] then Inl ErrUnsuitable
         else Inr ())
      else Inl ErrInvalid)"

definition display_slots :: "mapping \<Rightarrow> charts_error + unit" where
  "display_slots m =
     (let b = mBindings m in
      if mKind m = KPI then
        (if bValue b = [] \<or> bSeries b \<noteq> [] \<or> bX b \<noteq> [] \<or> bY b \<noteq> [] \<or> bParent b \<noteq> [] \<or> bSize b \<noteq> [] \<or>
            bColumns b \<noteq> [] \<or> bValues b \<noteq> [] \<or> bHierarchy b \<noteq> []
         then Inl ErrInvalid else Inr ())
      else if mKind m = Table then
        (if bColumns b = [] \<or> bCategory b \<noteq> [] \<or> bValue b \<noteq> [] \<or> bSeries b \<noteq> [] \<or> bX b \<noteq> [] \<or> bY b \<noteq> [] \<or>
            bParent b \<noteq> [] \<or> bSize b \<noteq> [] \<or> bComparison b \<noteq> [] \<or> bTarget b \<noteq> [] \<or> bValues b \<noteq> [] \<or> bHierarchy b \<noteq> []
         then Inl ErrInvalid else Inr ())
      else Inl ErrInvalid)"

definition validateSlots :: "mapping \<Rightarrow> catalog_entry \<Rightarrow> charts_error + unit" where
  "validateSlots m e =
     (if mVersion m = DisplayVersion then display_slots m
      else if \<not> richBindings (mKind m) (mBindings m) then scalar_slots m e
      else rich_slots m)"

definition valueIDs :: "bindings \<Rightarrow> string list" where
  "valueIDs b = (if bValues b \<noteq> [] then bValues b else if bValue b \<noteq> [] then [bValue b] else [])"

subsection \<open>Display policy\<close>

definition threshold_ok :: "golib \<Rightarrow> kpi_threshold \<Rightarrow> charts_error + unit" where
  "threshold_ok g t =
     (if \<not> oneOf (thOperator t) [''lt'', ''lte'', ''gt'', ''gte''] \<or> \<not> chart_identifier (thState t) \<or>
         \<not> optionText g (thLabel t)
      then Inl ErrInvalid
      else case decimal (thValue t) of Inl _ \<Rightarrow> Inl ErrInvalid | Inr _ \<Rightarrow> Inr ())"

definition intent_step ::
  "string \<times> table_intent \<Rightarrow> string set \<times> nat \<Rightarrow> charts_error + string set \<times> nat" where
  "intent_step x st =
     (case x of (id', column) \<Rightarrow> case st of (seen, visible) \<Rightarrow>
        if tiColumn column \<noteq> id' \<or> tiColumn column \<in> seen then Inl ErrInvalid
        else Inr (insert (tiColumn column) seen, if tiVisible column then visible + 1 else visible))"

definition validateDisplay :: "golib \<Rightarrow> mapping \<Rightarrow> charts_error + unit" where
  "validateDisplay g m =
     (let b = mBindings m in
      if mVersion m < DisplayVersion then
        (if mKPI m \<noteq> None \<or> mTable m \<noteq> None \<or> bComparison b \<noteq> [] \<or> bTarget b \<noteq> [] then Inl ErrInvalid
         else Inr ())
      else if mKind m = KPI then
        (case mKPI m of
           None \<Rightarrow> Inl ErrInvalid
         | Some x \<Rightarrow>
             if mTable m \<noteq> None then Inl ErrInvalid
             else if \<not> oneOf (ValueRow x) [''first'', ''last''] \<or>
                \<not> oneOf (ComparisonMode x) [''none'', ''previous_row'', ''comparison_column''] \<or>
                length (Thresholds x) > 16 \<or>
                ComparisonMode x = ''comparison_column'' \<and> bComparison b = [] \<or>
                ComparisonMode x \<noteq> ''comparison_column'' \<and> bComparison b \<noteq> [] \<or>
                ShowTargetDifference x \<noteq> (bTarget b \<noteq> []) \<or> kpiSparkline x \<and> bCategory b = []
             then Inl ErrInvalid
             else each (threshold_ok g) (Thresholds x))
      else if mKind m = Table then
        (case mTable m of
           None \<Rightarrow> Inl ErrInvalid
         | Some t \<Rightarrow>
             if mKPI m \<noteq> None \<or> bComparison b \<noteq> [] \<or> bTarget b \<noteq> [] \<or> PageSize t < 1 \<or> PageSize t > 1000 \<or>
                length (tabColumns t) \<noteq> length (bColumns b)
             then Inl ErrInvalid
             else case fold_res intent_step (zip (bColumns b) (tabColumns t)) ({}, 0) of
                    Inl err \<Rightarrow> Inl err
                  | Inr (seen, visible) \<Rightarrow> if visible = 0 then Inl ErrInvalid else Inr ())
      else if mKPI m \<noteq> None \<or> mTable m \<noteq> None \<or> bComparison b \<noteq> [] \<or> bTarget b \<noteq> [] then Inl ErrInvalid
      else Inr ())"

subsection \<open>Reading rows\<close>

definition null_cell :: cell where
  "null_cell = \<lparr>cellNull = True, cellValue = []\<rparr>"

definition at_cell :: "data \<Rightarrow> cell list \<Rightarrow> string \<Rightarrow> cell" where
  "at_cell d row x = (if x = [] then null_cell else index row (columnIndex (dataColumns d) x))"

definition column_of :: "data \<Rightarrow> string \<Rightarrow> column" where
  "column_of d x = index (dataColumns d) (columnIndex (dataColumns d) x)"

definition decimal_rat :: "string \<Rightarrow> rat" where
  "decimal_rat s = (case decimal s of Inr (r, _) \<Rightarrow> r | Inl _ \<Rightarrow> undefined)"

definition stableID :: "golib \<Rightarrow> string \<Rightarrow> string" where
  "stableID g key = ''s-'' @ sha256_hex g key"

definition canonical_cell :: "golib \<Rightarrow> string \<Rightarrow> cell \<Rightarrow> cell" where
  "canonical_cell g typ v =
     (if cellNull v then v
      else let v = (if numeric typ then v\<lparr>cellValue := RatString (decimal_rat (cellValue v))\<rparr> else v)
           in if typ = ''temporal''
              then (case temporal g (cellValue v) of
                      Some instant \<Rightarrow> v\<lparr>cellValue := RFC3339Nano_text g instant\<rparr>
                    | None \<Rightarrow> v)
              else v)"

definition identity_part :: "golib \<Rightarrow> data \<Rightarrow> cell list \<Rightarrow> string \<Rightarrow> json" where
  "identity_part g d row x =
     (let c = column_of d x
      in JObj [(''Column'', JStr x), (''Type'', JStr (colType c)),
               (''Cell'', cell_json (canonical_cell g (colType c) (at_cell d row x)))])"

definition identityKey :: "golib \<Rightarrow> data \<Rightarrow> cell list \<Rightarrow> string list \<Rightarrow> string" where
  "identityKey g d row ids =
     stableID g (json_text g (JArr (map (identity_part g d row) (filter (\<lambda>x. x \<noteq> []) ids))))"

definition coordinateMissing :: "data \<Rightarrow> cell list \<Rightarrow> string list \<Rightarrow> bool" where
  "coordinateMissing d row ids \<longleftrightarrow> (\<exists>x \<in> set ids. x \<noteq> [] \<and> cellNull (at_cell d row x))"

definition richCoordinates :: "mapping \<Rightarrow> string list" where
  "richCoordinates m =
     (let b = mBindings m in
      if bHierarchy b \<noteq> [] then bHierarchy b
      else if mKind m = Scatter then [bX b, bY b, bSeries b, bSize b]
      else [bCategory b, bSeries b])"

definition omitted :: "data \<Rightarrow> cell list \<Rightarrow> mapping \<Rightarrow> bool" where
  "omitted d row m =
     (let b = mBindings m in
      if mKind m = Table \<or> mKind m = KPI then False
      else if mKind m = Line \<or> mKind m = Area then cellNull (at_cell d row (bCategory b))
      else if mKind m = Scatter then
        cellNull (at_cell d row (bX b)) \<or> cellNull (at_cell d row (bY b)) \<or>
        bSeries b \<noteq> [] \<and> cellNull (at_cell d row (bSeries b))
      else if mKind m = Heatmap then
        cellNull (at_cell d row (bX b)) \<or> cellNull (at_cell d row (bY b)) \<or> cellNull (at_cell d row (bValue b))
      else
        cellNull (at_cell d row (bCategory b)) \<or> cellNull (at_cell d row (bValue b)) \<or>
        bSeries b \<noteq> [] \<and> cellNull (at_cell d row (bSeries b)) \<or>
        bParent b \<noteq> [] \<and> cellNull (at_cell d row (bParent b)))"

subsection \<open>Shape of scalar charts\<close>

definition shape_number :: "data \<Rightarrow> catalog_entry \<Rightarrow> cell list \<Rightarrow> string \<Rightarrow> charts_error + unit" where
  "shape_number d e row x =
     (if x = [] \<or> \<not> numeric (colType (column_of d x)) then Inr ()
      else let cell = at_cell d row x in
           case numberValue cell of
             Inl err \<Rightarrow> Inl err
           | Inr _ \<Rightarrow>
               if \<not> cellNull cell \<and> Negative e = ''rejected'' \<and> decimal_rat (cellValue cell) < 0
               then Inl ErrUnsuitable else Inr ())"

record shape_state =
  ssCategories :: "string set"
  ssSeries :: "string set"
  ssKeys :: "string set"

definition shape_ids :: "mapping \<Rightarrow> string list" where
  "shape_ids m =
     (let b = mBindings m in if mKind m = Heatmap then [bX b, bY b] else [bCategory b, bSeries b, bParent b])"

definition shape_key ::
  "golib \<Rightarrow> data \<Rightarrow> mapping \<Rightarrow> cell list \<Rightarrow> shape_state \<Rightarrow> charts_error + shape_state" where
  "shape_key g d m row s =
     (if mKind m \<noteq> Scatter \<and> mKind m \<noteq> KPI \<and> \<not> coordinateMissing d row (shape_ids m) then
        (let key = identityKey g d row (shape_ids m)
         in if key \<in> ssKeys s then Inl ErrUnsuitable else Inr (s\<lparr>ssKeys := insert key (ssKeys s)\<rparr>))
      else Inr s)"

text \<open>The counting half of the row body, after the \<open>continue\<close> statements.\<close>

definition shape_count :: "data \<Rightarrow> mapping \<Rightarrow> limits \<Rightarrow> cell list \<Rightarrow> shape_state \<Rightarrow> charts_error + shape_state" where
  "shape_count d m l row s =
     (let b = mBindings m;
          cat = (\<lambda>x. cellValue (at_cell d row x));
          c1 = (if bCategory b \<noteq> [] then insert (cat (bCategory b)) (ssCategories s) else ssCategories s);
          c2 = (if mKind m = Heatmap then insert (''y:'' @ cat (bY b)) (insert (''x:'' @ cat (bX b)) c1) else c1)
      in if bParent b \<noteq> [] \<and> cat (bParent b) = cat (bCategory b) then Inl ErrUnsuitable
         else let s1 = (if bParent b \<noteq> [] then insert (cat (bParent b)) (ssSeries s) else ssSeries s);
                  s2 = (if bSeries b \<noteq> [] then insert (cat (bSeries b)) s1 else s1)
              in if int (card c2) > MaxCategories l \<or> int (card s2) > MaxSeries l then Inl ErrUnsuitable
                 else Inr (s\<lparr>ssCategories := c2, ssSeries := s2\<rparr>))"

definition shape_row ::
  "golib \<Rightarrow> data \<Rightarrow> mapping \<Rightarrow> limits \<Rightarrow> catalog_entry \<Rightarrow> cell list \<Rightarrow> shape_state \<Rightarrow> charts_error + shape_state" where
  "shape_row g d m l e row s =
     (let b = mBindings m in
      case each (shape_number d e row) [bValue b, bX b, bY b] of
        Inl err \<Rightarrow> Inl err
      | Inr _ \<Rightarrow>
          (case shape_key g d m row s of
             Inl err \<Rightarrow> Inl err
           | Inr s1 \<Rightarrow>
               if omitted d row m then Inr s1
               else if (mKind m = Line \<or> mKind m = Area) \<and>
                       temporal g (cellValue (at_cell d row (bCategory b))) = None
               then Inl ErrUnsuitable
               else if mKind m = KPI then Inr s1
               else shape_count d m l row s1))"

definition no_shapes :: shape_state where
  "no_shapes = \<lparr>ssCategories = {}, ssSeries = {}, ssKeys = {}\<rparr>"

definition validateShape ::
  "golib \<Rightarrow> data \<Rightarrow> mapping \<Rightarrow> limits \<Rightarrow> catalog_entry \<Rightarrow> charts_error + unit" where
  "validateShape g d m l e =
     (if mKind m = Table then Inr ()
      else case fold_res (shape_row g d m l e) (dataRows d) no_shapes of
             Inl err \<Rightarrow> Inl err | Inr _ \<Rightarrow> Inr ())"

subsection \<open>Shape of rich charts\<close>

definition rich_number :: "data \<Rightarrow> bindings \<Rightarrow> cell list \<Rightarrow> string \<Rightarrow> charts_error + unit" where
  "rich_number d b row x =
     (if x = [] then Inr ()
      else let cell = at_cell d row x in
           case numberValue cell of
             Inl err \<Rightarrow> Inl err
           | Inr _ \<Rightarrow>
               if \<not> cellNull cell \<and> (bHierarchy b \<noteq> [] \<or> x = bSize b) \<and> decimal_rat (cellValue cell) < 0
               then Inl ErrUnsuitable else Inr ())"

record rich_state =
  rsKeys :: "string set"
  rsCategories :: "string set"
  rsBreakdowns :: "string set"
  rsSums :: "(string \<times> rat) list"

definition add_sum :: "rat option \<Rightarrow> string \<Rightarrow> (string \<times> rat) list \<Rightarrow> (string \<times> rat) list" where
  "add_sum r prefix acc =
     AList.update prefix
       ((case map_of acc prefix of None \<Rightarrow> 0 | Some x \<Rightarrow> x) + (case r of None \<Rightarrow> 0 | Some x \<Rightarrow> x)) acc"

definition rich_prefixes :: "golib \<Rightarrow> data \<Rightarrow> cell list \<Rightarrow> string list \<Rightarrow> string list" where
  "rich_prefixes g d row h = map (\<lambda>level. identityKey g d row (take (level + 1) h)) [0 ..< length h]"

definition rich_row ::
  "golib \<Rightarrow> data \<Rightarrow> mapping \<Rightarrow> limits \<Rightarrow> cell list \<Rightarrow> rich_state \<Rightarrow> charts_error + rich_state" where
  "rich_row g d m l row s =
     (let b = mBindings m in
      case each (rich_number d b row) (valueIDs b @ [bX b, bY b, bSize b]) of
        Inl err \<Rightarrow> Inl err
      | Inr _ \<Rightarrow>
          if coordinateMissing d row (richCoordinates m) then Inr s
          else if (mKind m = Line \<or> mKind m = Area) \<and>
                  temporal g (cellValue (at_cell d row (bCategory b))) = None
          then Inl ErrUnsuitable
          else
            let cats = (if bCategory b \<noteq> [] then insert (identityKey g d row [bCategory b]) (rsCategories s)
                        else rsCategories s);
                brs = (if bSeries b \<noteq> [] then insert (identityKey g d row [bSeries b]) (rsBreakdowns s)
                       else rsBreakdowns s);
                s1 = s\<lparr>rsCategories := cats, rsBreakdowns := brs\<rparr>;
                key = identityKey g d row (richCoordinates m)
            in if int (card cats) > MaxCategories l \<or> int (card brs) > MaxSeries l then Inl ErrUnsuitable
               else if mKind m = Scatter then Inr s1
               else if key \<in> rsKeys s then Inl ErrUnsuitable
               else let s2 = s1\<lparr>rsKeys := insert key (rsKeys s)\<rparr> in
                    if bHierarchy b \<noteq> [] then
                      let cell = at_cell d row (bValue b);
                          r = (if cellNull cell then None else Some (decimal_rat (cellValue cell)));
                          acc = fold (add_sum r) (rich_prefixes g d row (bHierarchy b)) (rsSums s)
                      in if int (length acc) > MaxCategories l then Inl ErrUnsuitable
                         else Inr (s2\<lparr>rsSums := acc\<rparr>)
                    else Inr s2)"

definition no_rich :: rich_state where
  "no_rich = \<lparr>rsKeys = {}, rsCategories = {}, rsBreakdowns = {}, rsSums = []\<rparr>"

text \<open>A custom sort may stop at a hierarchy prefix, but not skip or reorder its levels.\<close>

definition hierarchy_order :: "mapping \<Rightarrow> bool" where
  "hierarchy_order m \<longleftrightarrow>
     list_all2 (\<lambda>x h. ordColumn x = h) (take (length (bHierarchy (mBindings m))) (mOrder m))
       (take (length (mOrder m)) (bHierarchy (mBindings m)))"

definition validateRichShape :: "golib \<Rightarrow> data \<Rightarrow> mapping \<Rightarrow> limits \<Rightarrow> charts_error + unit" where
  "validateRichShape g d m l =
     (let b = mBindings m; values = valueIDs b; rows = int (length (dataRows d));
          nv = int (length values); line = (mKind m = Line \<or> mKind m = Area) in
      if rows > MaxTransformedPoints \<or> nv > 0 \<and> rows > MaxTransformedPoints div nv then Inl ErrLimit
      else if bSize b \<noteq> [] \<and>
              (\<not> measure_col (column_of d (bSize b)) \<or> Percent (colFormat (column_of d (bSize b))) \<noteq> [])
      then Inl ErrUnsuitable
      else if bHierarchy b \<noteq> [] \<and>
              (\<not> oneOf (colAggregation (column_of d (bValue b))) [''sum'', ''count''] \<or>
               Percent (colFormat (column_of d (bValue b))) \<noteq> [] \<or> \<not> hierarchy_order m)
      then Inl ErrUnsuitable
      else if line \<and> (case mOrder m of [] \<Rightarrow> True | x # _ \<Rightarrow> ordColumn x \<noteq> bCategory b)
      then Inl ErrUnsuitable
      else case fold_res (rich_row g d m l) (dataRows d) no_rich of
             Inl err \<Rightarrow> Inl err
           | Inr s \<Rightarrow>
               let seriesCount = (if bSeries b = [] then 1 else int (card (rsBreakdowns s)))
               in if nv > 0 \<and> seriesCount > MaxSeries l div nv then Inl ErrUnsuitable
                  else if line \<and> int (card (rsCategories s)) * seriesCount * nv > MaxTransformedPoints
                  then Inl ErrLimit
                  else if \<exists>(k, total_sum) \<in> set (rsSums s). fst (float64 total_sum) = None then Inl ErrUnsuitable
                  else Inr ())"

subsection \<open>Mappings\<close>

definition pin_step ::
  "data \<Rightarrow> mapping \<Rightarrow> nat \<times> string \<Rightarrow> string set \<Rightarrow> charts_error + string set" where
  "pin_step d m oid seen =
     (case oid of (ordinal, x) \<Rightarrow>
        if colID (index (mColumns m) (int ordinal)) \<noteq> x then Inl ErrInvalid
        else if \<not> chart_identifier x \<or> x \<in> seen then Inl ErrInvalid
        else let i = columnIndex (dataColumns d) x; j = columnIndex (mColumns m) x in
             if j < 0 \<or> \<not> is_ok (validateColumn (index (mColumns m) j)) then Inl ErrInvalid
             else if i < 0 \<or> index (dataColumns d) i \<noteq> index (mColumns m) j then Inl ErrMappingChanged
             else Inr (insert x seen))"

definition order_step :: "string set \<Rightarrow> order \<Rightarrow> string set \<Rightarrow> charts_error + string set" where
  "order_step seen x ordered =
     (if ordColumn x \<notin> seen \<or> ordColumn x \<in> ordered \<or> \<not> oneOf (Direction x) [''asc'', ''desc'']
      then Inl ErrInvalid else Inr (insert (ordColumn x) ordered))"

definition roles_ok :: "data \<Rightarrow> mapping \<Rightarrow> charts_error + unit" where
  "roles_ok d m =
     (let b = mBindings m in
      if \<exists>x \<in> set ([bCategory b, bSeries b, bParent b] @ bHierarchy b). x \<noteq> [] \<and> \<not> category (column_of d x)
      then Inl ErrUnsuitable
      else if \<exists>x \<in> set ([bValue b, bSize b, bComparison b, bTarget b] @ bValues b).
                x \<noteq> [] \<and> \<not> numeric (colType (column_of d x))
      then Inl ErrUnsuitable
      else if (mKind m = Line \<or> mKind m = Area) \<and> colType (column_of d (bCategory b)) \<noteq> ''temporal''
      then Inl ErrUnsuitable
      else if (mKind m = Heatmap \<or> mKind m = Scatter) \<and>
              (\<exists>x \<in> set [bX b, bY b]. mKind m = Scatter \<and> \<not> numeric (colType (column_of d x)) \<or>
                                      mKind m = Heatmap \<and> \<not> category (column_of d x))
      then Inl ErrUnsuitable
      else if mKind m = KPI \<and> mVersion m < DisplayVersion \<and> length (dataRows d) > 1 then Inl ErrUnsuitable
      else Inr ())"

definition validateMapping :: "golib \<Rightarrow> data \<Rightarrow> mapping \<Rightarrow> limits \<Rightarrow> charts_error + unit" where
  "validateMapping g d m l =
     (let b = mBindings m; ids = bound b in
      if int (length (bColumns b)) > MaxColumns l \<or> int (length (bValues b)) > MaxSeries l \<or>
         int (length (bHierarchy b)) > MaxHierarchyDepth \<or> int (length ids) > MaxColumns l
      then Inl ErrLimit
      else case catalog_find (mKind m) of
        None \<Rightarrow> Inl ErrInvalid
      | Some e \<Rightarrow>
          if mVersion m \<noteq> Version \<and> mVersion m \<noteq> RichVersion \<and> mVersion m \<noteq> DisplayVersion \<or>
             mColumns m = [] \<or> int (length (mColumns m)) > MaxColumns l \<or> length (mOrder m) > length (mColumns m)
          then Inl ErrInvalid
          else case validateOptions g (mOptions m) l of Inl err \<Rightarrow> Inl err | Inr _ \<Rightarrow>
          (case validateSlots m e of Inl err \<Rightarrow> Inl err | Inr _ \<Rightarrow>
          (case validateDisplay g m of Inl err \<Rightarrow> Inl err | Inr _ \<Rightarrow>
            if length ids \<noteq> length (mColumns m) then Inl ErrInvalid
            else case fold_res (pin_step d m) (List.enumerate 0 ids) {} of Inl err \<Rightarrow> Inl err | Inr seen \<Rightarrow>
            (case fold_res (order_step seen) (mOrder m) {} of Inl err \<Rightarrow> Inl err | Inr _ \<Rightarrow>
            (case roles_ok d m of Inl err \<Rightarrow> Inl err | Inr _ \<Rightarrow>
              if richBindings (mKind m) b then validateRichShape g d m l
              else validateShape g d m l e)))))"

definition ValidateMapping :: "golib \<Rightarrow> data \<Rightarrow> mapping \<Rightarrow> limits \<Rightarrow> charts_error + unit" where
  "ValidateMapping g d m l =
     (case ValidateData g d l of Inl err \<Rightarrow> Inl err | Inr _ \<Rightarrow> validateMapping g d m l)"

subsection \<open>Binding\<close>

definition pins :: "data \<Rightarrow> string list \<Rightarrow> charts_error + column list" where
  "pins d ids =
     fold_res (\<lambda>x cols. if columnIndex (dataColumns d) x < 0 then Inl ErrInvalid
                        else Inr (cols @ [column_of d x])) ids []"

definition default_order :: "kind \<Rightarrow> bindings \<Rightarrow> order list \<Rightarrow> order list" where
  "default_order kind b order =
     (let o1 = (if order = [] \<and> (kind = Line \<or> kind = Area)
                then [\<lparr>ordColumn = bCategory b, Direction = ''asc''\<rparr>] else order)
      in if o1 = [] \<and> bHierarchy b \<noteq> []
         then map (\<lambda>x. \<lparr>ordColumn = x, Direction = ''asc''\<rparr>) (bHierarchy b) else o1)"

definition bindValidated ::
  "golib \<Rightarrow> data \<Rightarrow> kind \<Rightarrow> bindings \<Rightarrow> order list \<Rightarrow> options \<Rightarrow> limits \<Rightarrow> charts_error + mapping" where
  "bindValidated g d kind b order options l =
     (if int (length (bColumns b)) > MaxColumns l \<or> int (length (bValues b)) > MaxSeries l \<or>
         int (length (bHierarchy b)) > MaxHierarchyDepth \<or> int (length (bound b)) > MaxColumns l \<or>
         int (length order) > MaxColumns l
      then Inl ErrLimit
      else let rich = richBindings kind b;
               version = (if rich then RichVersion else Version);
               order' = (if rich then default_order kind b order else order)
           in case pins d (bound b) of
                Inl err \<Rightarrow> Inl err
              | Inr cols \<Rightarrow>
                  let m = \<lparr>mVersion = version, mKind = kind, mColumns = cols, mBindings = b, mOrder = order',
                           mOptions = options, mKPI = None, mTable = None\<rparr>
                  in case validateMapping g d m l of Inl err \<Rightarrow> Inl err | Inr _ \<Rightarrow> Inr (cloneMapping m))"

definition Bind ::
  "golib \<Rightarrow> data \<Rightarrow> kind \<Rightarrow> bindings \<Rightarrow> order list \<Rightarrow> options \<Rightarrow> limits \<Rightarrow> charts_error + mapping" where
  "Bind g d kind b order options l =
     (case ValidateData g d l of Inl err \<Rightarrow> Inl err | Inr _ \<Rightarrow> bindValidated g d kind b order options l)"

definition BindDisplay ::
  "golib \<Rightarrow> data \<Rightarrow> kind \<Rightarrow> bindings \<Rightarrow> order list \<Rightarrow> options \<Rightarrow> kpi_options option \<Rightarrow> table_options option
   \<Rightarrow> limits \<Rightarrow> charts_error + mapping" where
  "BindDisplay g d kind b order options kpi tab l =
     (case ValidateData g d l of Inl err \<Rightarrow> Inl err | Inr _ \<Rightarrow>
        if int (length (bound b)) > MaxColumns l \<or> int (length order) > MaxColumns l then Inl ErrLimit
        else case pins d (bound b) of
               Inl err \<Rightarrow> Inl err
             | Inr cols \<Rightarrow>
                 let m = \<lparr>mVersion = DisplayVersion, mKind = kind, mColumns = cols, mBindings = b, mOrder = order,
                          mOptions = options, mKPI = kpi, mTable = tab\<rparr>
                 in case validateMapping g d m l of Inl err \<Rightarrow> Inl err | Inr _ \<Rightarrow> Inr (cloneMapping m))"

subsection \<open>Rebinding\<close>

definition sameMeaning :: "column \<Rightarrow> column \<Rightarrow> bool" where
  "sameMeaning old current \<longleftrightarrow>
     colType old = colType current \<and> colRole old = colRole current \<and> colGrain old = colGrain current \<and>
     colAggregation old = colAggregation current \<and> colFormat old = colFormat current \<and>
     Source (colProvenance old) = Source (colProvenance current) \<and>
     Topic (colProvenance old) \<noteq> [] \<and>
     Topic (colProvenance old) = Topic (colProvenance current) \<and>
     SemanticID (colProvenance old) = SemanticID (colProvenance current)"

definition rebind_step ::
  "data \<Rightarrow> column \<Rightarrow> (string \<times> string) list \<times> change list
   \<Rightarrow> charts_error + (string \<times> string) list \<times> change list" where
  "rebind_step d old st =
     (case st of (replacements, changes) \<Rightarrow>
        let i = columnIndex (dataColumns d) (colID old) in
        if 0 \<le> i \<and> index (dataColumns d) i = old
        then Inr (AList.update (colID old) (colID old) replacements, changes)
        else case filter (sameMeaning old) (dataColumns d) of
               [match] \<Rightarrow> Inr (AList.update (colID old) (colID match) replacements,
                              changes @ [\<lparr>From = colID old, To = colID match\<rparr>])
             | _ \<Rightarrow> Inl ErrMappingChanged)"

text \<open>Reading a Go map at an absent key gives the zero value, here the empty text.\<close>

definition replaced :: "(string \<times> string) list \<Rightarrow> string \<Rightarrow> string" where
  "replaced rs x = (case map_of rs x of None \<Rightarrow> [] | Some y \<Rightarrow> y)"

definition replace_slot :: "(string \<times> string) list \<Rightarrow> string \<Rightarrow> string" where
  "replace_slot rs x = (if x = [] then [] else replaced rs x)"

definition rebind_bindings :: "(string \<times> string) list \<Rightarrow> bindings \<Rightarrow> bindings" where
  "rebind_bindings rs b =
     \<lparr>bCategory = replace_slot rs (bCategory b), bValue = replace_slot rs (bValue b),
      bSeries = replace_slot rs (bSeries b), bX = replace_slot rs (bX b), bY = replace_slot rs (bY b),
      bParent = replace_slot rs (bParent b), bColumns = map (replaced rs) (bColumns b),
      bValues = map (replaced rs) (bValues b), bHierarchy = map (replaced rs) (bHierarchy b),
      bSize = replace_slot rs (bSize b), bComparison = replace_slot rs (bComparison b),
      bTarget = replace_slot rs (bTarget b)\<rparr>"

definition rebind_mapping :: "data \<Rightarrow> (string \<times> string) list \<Rightarrow> mapping \<Rightarrow> mapping" where
  "rebind_mapping d rs m =
     (let b = rebind_bindings rs (mBindings m)
      in m\<lparr>mBindings := b,
           mOrder := map (\<lambda>x. x\<lparr>ordColumn := replaced rs (ordColumn x)\<rparr>) (mOrder m),
           mTable := map_option (\<lambda>t. t\<lparr>tabColumns :=
                        map (\<lambda>c. c\<lparr>tiColumn := replaced rs (tiColumn c)\<rparr>) (tabColumns t)\<rparr>) (mTable m),
           mColumns := map (column_of d) (bound b)\<rparr>)"

definition Rebind :: "golib \<Rightarrow> data \<Rightarrow> mapping \<Rightarrow> limits \<Rightarrow> charts_error + proposal" where
  "Rebind g d original l =
     (case ValidateData g d l of Inl err \<Rightarrow> Inl err | Inr _ \<Rightarrow>
      let oldData = \<lparr>dataVersion = Version, dataColumns = mColumns original, dataRows = [],
                     dataCompleteness = \<lparr>comStatus = ''complete_result'', comReason = []\<rparr>\<rparr> in
      case ValidateMapping g oldData original l of Inl err \<Rightarrow> Inl err | Inr _ \<Rightarrow>
      (case fold_res (rebind_step d) (mColumns original) ([], []) of
         Inl err \<Rightarrow> Inl err
       | Inr (replacements, changes) \<Rightarrow>
           let m = rebind_mapping d replacements (cloneMapping original) in
           case validateMapping g d m l of
             Inl err \<Rightarrow> Inl err
           | Inr _ \<Rightarrow> Inr \<lparr>propStatus = ''review_required'', propMapping = m, propChanges = changes\<rparr>))"

subsection \<open>Catalog facts\<close>

lemma catalog_find_Some:
  assumes "catalog_find k = Some e"
  shows "e \<in> set Catalog" and "ceKind e = k"
  using assms by (auto simp: catalog_find_def find_Some_iff)

lemma catalog_kinds: "map ceKind Catalog =
    [Area, Bar, ColumnChart, Donut, GroupedBar, Heatmap, KPI, Line, Pie, Scatter, StackedBar, StackedColumn, Table, Treemap]"
  by (simp add: Catalog_def catalog_row_def Let_def)

lemma catalog_required:
  assumes "catalog_find k = Some e"
  shows "k \<in> {Line, Area, Bar, ColumnChart, Donut, Pie, Treemap} \<Longrightarrow> RequiredSlots e = [''category'', ''value'']"
    and "k \<in> {GroupedBar, StackedBar, StackedColumn} \<Longrightarrow> RequiredSlots e = [''category'', ''value'', ''series'']"
    and "k = Heatmap \<Longrightarrow> RequiredSlots e = [''x'', ''y'', ''value'']"
    and "k = Scatter \<Longrightarrow> RequiredSlots e = [''x'', ''y'']"
    and "k = KPI \<Longrightarrow> RequiredSlots e = [''value'']"
    and "k = Table \<Longrightarrow> RequiredSlots e = [''columns'']"
  using assms by (auto simp: catalog_find_def Catalog_def catalog_row_def Let_def split: if_splits)

lemma cloneMapping_id [simp]: "cloneMapping m = m"
  by (simp add: cloneMapping_def)

subsection \<open>Pins\<close>

lemma column_of_facts:
  assumes "x \<in> colID ` set (dataColumns d)"
  shows "column_of d x \<in> set (dataColumns d)" and "colID (column_of d x) = x"
  using index_in_set [OF assms] by (simp_all add: column_of_def)

lemma pin_fold:
  assumes "fold_res (pin_step d m) (List.enumerate k ids) seen = Inr t"
    and "k + length ids = length (mColumns m)"
  shows "distinct ids \<and> seen \<inter> set ids = {} \<and> t = seen \<union> set ids
    \<and> set ids \<subseteq> colID ` set (dataColumns d) \<and> map colID (drop k (mColumns m)) = ids
    \<and> (\<forall>x \<in> set ids. chart_identifier x \<and> column_of d x = index (mColumns m) (columnIndex (mColumns m) x))"
  using assms
proof (induction ids arbitrary: k seen)
  case (Cons x ids)
  from Cons.prems(1) have x: "colID (index (mColumns m) (int k)) = x" "chart_identifier x" "x \<notin> seen"
      "0 \<le> columnIndex (dataColumns d) x" "column_of d x = index (mColumns m) (columnIndex (mColumns m) x)"
    and rest: "fold_res (pin_step d m) (List.enumerate (Suc k) ids) (insert x seen) = Inr t"
    by (auto simp: pin_step_def [of d m "(k, x)"] Let_def column_of_def not_less)
  have k: "k < length (mColumns m)" using Cons.prems(2) by simp
  have ih: "distinct ids \<and> insert x seen \<inter> set ids = {} \<and> t = insert x seen \<union> set ids
    \<and> set ids \<subseteq> colID ` set (dataColumns d) \<and> map colID (drop (Suc k) (mColumns m)) = ids
    \<and> (\<forall>y \<in> set ids. chart_identifier y \<and> column_of d y = index (mColumns m) (columnIndex (mColumns m) y))"
    using Cons.IH [OF rest] Cons.prems(2) by simp
  have "map colID (drop k (mColumns m)) = x # ids"
    using ih x(1) k by (simp flip: Cons_nth_drop_Suc)
  with ih x show ?case by (auto simp: columnIndex_nonneg_iff)
qed simp

lemma order_fold:
  assumes "fold_res (order_step seen) xs ordered = Inr t"
  shows "distinct (map ordColumn xs) \<and> ordered \<inter> ordColumn ` set xs = {} \<and> ordColumn ` set xs \<subseteq> seen
    \<and> (\<forall>x \<in> set xs. Direction x \<in> {''asc'', ''desc''})"
  using assms
proof (induction xs arbitrary: ordered)
  case (Cons x xs)
  from Cons.prems have "ordColumn x \<in> seen" "ordColumn x \<notin> ordered" "Direction x \<in> {''asc'', ''desc''}"
    and "fold_res (order_step seen) xs (insert (ordColumn x) ordered) = Inr t"
    by (auto simp: order_step_def [of seen x] oneOf_def)
  with Cons.IH [of "insert (ordColumn x) ordered"] show ?case by auto
qed simp

text \<open>The facts a successful validation leaves behind, component by component.\<close>

lemma validateMapping_Inr:
  assumes "validateMapping g d m l = Inr u"
  obtains e seen where "catalog_find (mKind m) = Some e"
    "validateOptions g (mOptions m) l = Inr ()" "validateSlots m e = Inr ()" "validateDisplay g m = Inr ()"
    "length (bound (mBindings m)) = length (mColumns m)" "mColumns m \<noteq> []"
    "fold_res (pin_step d m) (List.enumerate 0 (bound (mBindings m))) {} = Inr seen"
    "\<exists>t. fold_res (order_step seen) (mOrder m) {} = Inr t" "roles_ok d m = Inr ()"
    "richBindings (mKind m) (mBindings m) \<Longrightarrow> validateRichShape g d m l = Inr ()"
    "\<not> richBindings (mKind m) (mBindings m) \<Longrightarrow> validateShape g d m l e = Inr ()"
  using assms
  by (cases "catalog_find (mKind m)") (auto simp: validateMapping_def Let_def split: if_splits)

text \<open>The pin invariant of a saved definition against a dataset.\<close>

definition pinned :: "data \<Rightarrow> mapping \<Rightarrow> bool" where
  "pinned d m \<longleftrightarrow> mColumns m = map (column_of d) (bound (mBindings m)) \<and> distinct (bound (mBindings m))
     \<and> set (bound (mBindings m)) \<subseteq> colID ` set (dataColumns d)
     \<and> distinct (map ordColumn (mOrder m)) \<and> ordColumn ` set (mOrder m) \<subseteq> set (bound (mBindings m))"

lemma validateMapping_pinned:
  assumes "validateMapping g d m l = Inr u"
  shows "pinned d m"
  using assms
proof (rule validateMapping_Inr)
  fix e seen
  let ?ids = "bound (mBindings m)"
  assume len: "length ?ids = length (mColumns m)"
    and pins: "fold_res (pin_step d m) (List.enumerate 0 ?ids) {} = Inr seen"
    and order: "\<exists>t. fold_res (order_step seen) (mOrder m) {} = Inr t"
  from len have "0 + length ?ids = length (mColumns m)" by simp
  note P = pin_fold [OF pins this, simplified]
  from P have ids: "map colID (mColumns m) = ?ids" and dist: "distinct (map colID (mColumns m))" by auto
  have "map (column_of d) ?ids = mColumns m"
  proof (rule nth_equalityI)
    fix i assume "i < length (map (column_of d) ?ids)"
    then have i: "i < length (mColumns m)" using len by simp
    have "?ids ! i = colID (mColumns m ! i)" using ids i by (metis nth_map)
    then have "column_of d (?ids ! i) = mColumns m ! i"
      using P columnIndex_distinct [OF dist i] i len by (metis index_nat nth_mem)
    then show "map (column_of d) ?ids ! i = mColumns m ! i" using i len by simp
  qed (use len in simp)
  moreover obtain t where "fold_res (order_step seen) (mOrder m) {} = Inr t" using order by blast
  ultimately show ?thesis using P order_fold by (fastforce simp: pinned_def)
qed

lemma ValidateMapping_Inr:
  assumes "ValidateMapping g d m l = Inr u"
  shows "ValidateData g d l = Inr ()" and "validateMapping g d m l = Inr ()"
  using assms by (auto simp: ValidateMapping_def)

subsection \<open>Typed coordinates\<close>

text \<open>
  Two rows agree in a column when the numbers, the instants or the texts are equal.
\<close>

definition same_coordinate :: "golib \<Rightarrow> data \<Rightarrow> cell list \<Rightarrow> cell list \<Rightarrow> string \<Rightarrow> bool" where
  "same_coordinate g d ra rb x \<longleftrightarrow>
     (let typ = colType (column_of d x); a = at_cell d ra x; b = at_cell d rb x in
      cellNull a = cellNull b \<and>
      (cellValue a = cellValue b \<or> \<not> cellNull a \<and>
        (if numeric typ then decimal_rat (cellValue a) = decimal_rat (cellValue b)
         else typ = ''temporal'' \<and> temporal g (cellValue a) \<noteq> None \<and>
              temporal g (cellValue a) = temporal g (cellValue b))))"

lemma numeric_not_temporal [simp]: "numeric typ \<Longrightarrow> typ \<noteq> ''temporal''"
  by (auto simp: numeric_def)

lemma same_coordinate_canonical:
  assumes "same_coordinate g d ra rb x"
  shows "canonical_cell g (colType (column_of d x)) (at_cell d ra x) =
    canonical_cell g (colType (column_of d x)) (at_cell d rb x)"
proof -
  obtain na a nb b where "at_cell d ra x = \<lparr>cellNull = na, cellValue = a\<rparr>"
    "at_cell d rb x = \<lparr>cellNull = nb, cellValue = b\<rparr>"
    by (cases "at_cell d ra x", cases "at_cell d rb x") blast
  with assms show ?thesis
    by (auto simp: same_coordinate_def canonical_cell_def Let_def split: if_splits option.splits)
qed

lemma identityKey_cong:
  assumes "\<And>x. x \<in> set ids \<Longrightarrow> x \<noteq> [] \<Longrightarrow> same_coordinate g d ra rb x"
  shows "identityKey g d ra ids = identityKey g d rb ids"
proof -
  have "identity_part g d ra x = identity_part g d rb x" if "x \<in> set ids" "x \<noteq> []" for x
    using same_coordinate_canonical [OF assms [OF that]] by (simp add: identity_part_def Let_def)
  then have "map (identity_part g d ra) (filter (\<lambda>x. x \<noteq> []) ids) = map (identity_part g d rb) (filter (\<lambda>x. x \<noteq> []) ids)"
    by simp
  then show ?thesis by (simp only: identityKey_def)
qed

subsection \<open>Shape invariants\<close>

text \<open>No key occurs twice among the rows whose coordinates are complete.\<close>

definition unique_keys :: "golib \<Rightarrow> data \<Rightarrow> string list \<Rightarrow> cell list list \<Rightarrow> bool" where
  "unique_keys g d ids rows \<longleftrightarrow>
     distinct (map (\<lambda>row. identityKey g d row ids) (filter (\<lambda>row. \<not> coordinateMissing d row ids) rows))"

lemma unique_keys_nth:
  assumes "unique_keys g d ids rows" "i < j" "j < length rows"
    and "\<not> coordinateMissing d (rows ! i) ids" "\<not> coordinateMissing d (rows ! j) ids"
  shows "identityKey g d (rows ! i) ids \<noteq> identityKey g d (rows ! j) ids"
proof -
  let ?key = "\<lambda>row. identityKey g d row ids" and ?P = "\<lambda>row. \<not> coordinateMissing d row ids"
  have split: "take j rows @ rows ! j # drop (Suc j) rows = rows"
    using assms(3) by (rule id_take_nth_drop [symmetric])
  have "distinct (map ?key (filter ?P (take j rows @ rows ! j # drop (Suc j) rows)))"
    using assms(1) unfolding split unique_keys_def .
  then have "?key (rows ! j) \<notin> ?key ` set (filter ?P (take j rows))"
    using assms(5) by (simp del: append_take_drop_id)
  moreover have "rows ! i \<in> set (take j rows)"
    using assms(2,3) by (auto simp: in_set_conv_nth intro!: exI [of _ i])
  ultimately show ?thesis using assms(4) by (force simp: image_iff)
qed

lemma shape_row_Inr:
  assumes "shape_row g d m l e row s = Inr t"
  obtains s1 where "shape_key g d m row s = Inr s1" "ssKeys t = ssKeys s1"
  using assms that
  by (auto simp: shape_row_def shape_count_def Let_def split: if_splits)

lemma shape_fold:
  assumes "fold_res (shape_row g d m l e) rows s = Inr t" "mKind m \<noteq> Scatter" "mKind m \<noteq> KPI"
  shows "unique_keys g d (shape_ids m) rows \<and>
    (\<forall>row \<in> set rows. \<not> coordinateMissing d row (shape_ids m) \<longrightarrow> identityKey g d row (shape_ids m) \<notin> ssKeys s)"
  using assms(1)
proof (induction rows arbitrary: s)
  case Nil
  then show ?case by (simp add: unique_keys_def)
next
  case (Cons row rows)
  from Cons.prems obtain s2 where row: "shape_row g d m l e row s = Inr s2"
    and rest: "fold_res (shape_row g d m l e) rows s2 = Inr t" by auto
  from row obtain s1 where key: "shape_key g d m row s = Inr s1" and ks: "ssKeys s2 = ssKeys s1"
    by (rule shape_row_Inr)
  note ih = Cons.IH [OF rest]
  show ?case
  proof (cases "coordinateMissing d row (shape_ids m)")
    case True
    with key have "s1 = s" by (simp add: shape_key_def)
    with ih ks True show ?thesis by (simp add: unique_keys_def)
  next
    case False
    with key assms(2,3) have "identityKey g d row (shape_ids m) \<notin> ssKeys s"
      and "ssKeys s1 = insert (identityKey g d row (shape_ids m)) (ssKeys s)"
      by (auto simp: shape_key_def Let_def)
    with ih ks False show ?thesis by (auto simp: unique_keys_def)
  qed
qed

lemma rich_row_Inr:
  assumes "rich_row g d m l row s = Inr t" "mKind m \<noteq> Scatter"
  shows "coordinateMissing d row (richCoordinates m) \<Longrightarrow> t = s"
    and "\<not> coordinateMissing d row (richCoordinates m) \<Longrightarrow>
      identityKey g d row (richCoordinates m) \<notin> rsKeys s \<and>
      rsKeys t = insert (identityKey g d row (richCoordinates m)) (rsKeys s)"
  using assms by (auto simp: rich_row_def Let_def split: if_splits)

lemma rich_fold:
  assumes "fold_res (rich_row g d m l) rows s = Inr t" "mKind m \<noteq> Scatter"
  shows "unique_keys g d (richCoordinates m) rows \<and>
    (\<forall>row \<in> set rows. \<not> coordinateMissing d row (richCoordinates m) \<longrightarrow>
       identityKey g d row (richCoordinates m) \<notin> rsKeys s)"
  using assms(1)
proof (induction rows arbitrary: s)
  case Nil
  then show ?case by (simp add: unique_keys_def)
next
  case (Cons row rows)
  from Cons.prems obtain s2 where row: "rich_row g d m l row s = Inr s2"
    and rest: "fold_res (rich_row g d m l) rows s2 = Inr t" by auto
  note ih = Cons.IH [OF rest] and step = rich_row_Inr [OF row assms(2)]
  show ?case
    using ih step by (cases "coordinateMissing d row (richCoordinates m)") (auto simp: unique_keys_def)
qed

lemma validateRichShape_Inr:
  assumes "validateRichShape g d m l = Inr u"
  obtains s where "fold_res (rich_row g d m l) (dataRows d) no_rich = Inr s"
    "valueIDs (mBindings m) \<noteq> [] \<Longrightarrow>
      (if bSeries (mBindings m) = [] then 1 else int (card (rsBreakdowns s)))
        \<le> MaxSeries l div int (length (valueIDs (mBindings m)))"
    "mKind m = Line \<or> mKind m = Area \<Longrightarrow>
      int (card (rsCategories s)) * (if bSeries (mBindings m) = [] then 1 else int (card (rsBreakdowns s)))
        * int (length (valueIDs (mBindings m))) \<le> MaxTransformedPoints"
    "mKind m = Line \<or> mKind m = Area \<Longrightarrow> mOrder m \<noteq> []"
    "\<forall>(k, x) \<in> set (rsSums s). fst (float64 x) \<noteq> None"
proof -
  from assms obtain s where s: "fold_res (rich_row g d m l) (dataRows d) no_rich = Inr s"
    and r: "validateRichShape g d m l = Inr ()"
    by (auto simp: validateRichShape_def Let_def)
  have "validateRichShape g d m l = Inr () \<Longrightarrow> mKind m = Line \<or> mKind m = Area \<Longrightarrow> mOrder m \<noteq> []"
    by (cases "mOrder m") (auto simp: validateRichShape_def Let_def)
  then show thesis
    using r s by (intro that [OF s]) (auto simp: validateRichShape_def Let_def not_less split_beta)
qed

text \<open>The coordinates a chart may not repeat.\<close>

definition coordinates :: "mapping \<Rightarrow> string list" where
  "coordinates m = (if richBindings (mKind m) (mBindings m) then richCoordinates m else shape_ids m)"

lemma validated_unique_keys:
  assumes "validateMapping g d m l = Inr u" and "mKind m \<notin> {Scatter, KPI, Table}"
  shows "unique_keys g d (coordinates m) (dataRows d)"
  using assms(1)
proof (rule validateMapping_Inr)
  fix e seen
  assume rich: "richBindings (mKind m) (mBindings m) \<Longrightarrow> validateRichShape g d m l = Inr ()"
    and scalar: "\<not> richBindings (mKind m) (mBindings m) \<Longrightarrow> validateShape g d m l e = Inr ()"
  show ?thesis
  proof (cases "richBindings (mKind m) (mBindings m)")
    case True
    from validateRichShape_Inr [OF rich [OF True]] obtain s
      where "fold_res (rich_row g d m l) (dataRows d) no_rich = Inr s" by metis
    from rich_fold [OF this] True assms(2) show ?thesis by (simp add: coordinates_def)
  next
    case False
    then obtain t where "fold_res (shape_row g d m l e) (dataRows d) no_shapes = Inr t"
      using scalar assms(2) by (auto simp: validateShape_def)
    from shape_fold [OF this] False assms(2) show ?thesis by (simp add: coordinates_def)
  qed
qed

subsection \<open>Properties of saved definitions\<close>

text \<open>
  C7. A definition that validates is pinned exactly: its saved columns are, in order, the
  dataset's own columns at the bound identifiers, each identifier is bound once and present in the
  data, every sort column is bound and sorted once, and the bound identifiers are within the
  column limit. Hence every index computed by a later lookup is in range.
\<close>

theorem mapping_pinned:
  assumes "ValidateMapping g d m l = Inr ()"
  shows "mColumns m = map (column_of d) (bound (mBindings m)) \<and> distinct (bound (mBindings m))
    \<and> (\<forall>x \<in> set (bound (mBindings m)). 0 \<le> columnIndex (dataColumns d) x
         \<and> columnIndex (dataColumns d) x < int (length (dataColumns d)) \<and> colID (column_of d x) = x)
    \<and> distinct (map ordColumn (mOrder m)) \<and> ordColumn ` set (mOrder m) \<subseteq> set (bound (mBindings m))
    \<and> int (length (bound (mBindings m))) \<le> MaxColumns l"
proof -
  note v = ValidateMapping_Inr(2) [OF assms]
  have "pinned d m" using v by (rule validateMapping_pinned)
  moreover have "int (length (bound (mBindings m))) \<le> MaxColumns l"
    using v by (auto simp: validateMapping_def Let_def)
  ultimately show ?thesis
    using columnIndex_range column_of_facts(2) by (auto simp: pinned_def columnIndex_nonneg_iff)
qed


lemma pins_spec:
  assumes "set ids \<subseteq> colID ` set (dataColumns d)"
  shows "pins d ids = Inr (map (column_of d) ids)"
proof -
  have "fold_res (\<lambda>x cols. if columnIndex (dataColumns d) x < 0 then Inl ErrInvalid
          else Inr (cols @ [column_of d x])) ids acc = Inr (acc @ map (column_of d) ids)" for acc
    using assms
  proof (induction ids arbitrary: acc)
    case (Cons x xs)
    then have "\<not> columnIndex (dataColumns d) x < 0" by (simp add: columnIndex_neg_iff)
    with Cons show ?case by simp
  qed simp
  then show ?thesis by (simp add: pins_def)
qed

lemma bindValidated_Inr:
  assumes "bindValidated g d kind b ord opts l = Inr m"
  shows "validateMapping g d m l = Inr ()" and "mKind m = kind" and "mBindings m = b" and "mOptions m = opts"
    and "ord \<noteq> [] \<Longrightarrow> mOrder m = ord"
    and "mVersion m = (if richBindings kind b then RichVersion else Version)"
  using assms by (auto simp: bindValidated_def Let_def default_order_def split: if_splits)


subsection \<open>Rebinding\<close>

text \<open>The column a saved column stands for in new data: itself, or its only namesake in meaning.\<close>

definition resolve :: "data \<Rightarrow> column \<Rightarrow> column option" where
  "resolve d old =
     (if old \<in> set (dataColumns d) then Some old
      else case filter (sameMeaning old) (dataColumns d) of [cur] \<Rightarrow> Some cur | _ \<Rightarrow> None)"

lemma filter_single:
  assumes "filter P xs = [c]"
  shows "c \<in> set xs \<and> P c \<and> (\<forall>x \<in> set xs. P x \<longrightarrow> x = c)"
proof -
  have "{x \<in> set xs. P x} = {c}" using arg_cong [OF assms, of set] by simp
  then show ?thesis by blast
qed

lemma resolve_Some:
  assumes "resolve d old = Some cur"
  shows "cur \<in> set (dataColumns d)" and "cur = old \<or> old \<notin> set (dataColumns d) \<and> sameMeaning old cur
    \<and> (\<forall>c \<in> set (dataColumns d). sameMeaning old c \<longrightarrow> c = cur)"
proof -
  have "filter (sameMeaning old) (dataColumns d) = [cur]" if "old \<notin> set (dataColumns d)"
    using assms that by (auto simp: resolve_def split: list.splits)
  from filter_single [OF this] assms
  show "cur \<in> set (dataColumns d)" and "cur = old \<or> old \<notin> set (dataColumns d) \<and> sameMeaning old cur
    \<and> (\<forall>c \<in> set (dataColumns d). sameMeaning old c \<longrightarrow> c = cur)"
    by (auto simp: resolve_def split: if_splits)
qed

lemma column_of_member:
  assumes "distinct (map colID (dataColumns d))" "c \<in> set (dataColumns d)"
  shows "column_of d (colID c) = c"
proof -
  have "colID c \<in> colID ` set (dataColumns d)" using assms(2) by simp
  from column_of_facts [OF this] show ?thesis
    using assms by (meson distinct_map inj_onD)
qed

lemma rebind_step_resolve:
  assumes "distinct (map colID (dataColumns d))" "rebind_step d old (rs, ch) = Inr (rs', ch')"
  shows "\<exists>cur. resolve d old = Some cur \<and> rs' = AList.update (colID old) (colID cur) rs
    \<and> ch' = ch @ (if cur = old then [] else [\<lparr>From = colID old, To = colID cur\<rparr>])"
proof -
  have "0 \<le> columnIndex (dataColumns d) (colID old) \<and>
      index (dataColumns d) (columnIndex (dataColumns d) (colID old)) = old \<longleftrightarrow> old \<in> set (dataColumns d)"
    using column_of_member [OF assms(1), of old] index_in_set(1) [of "colID old" "dataColumns d"]
    by (auto simp: columnIndex_nonneg_iff column_of_def)
  moreover have "cur \<noteq> old" if "filter (sameMeaning old) (dataColumns d) = [cur]" "old \<notin> set (dataColumns d)" for cur
    using filter_single [OF that(1)] that(2) by auto
  ultimately show ?thesis
    using assms(2) by (auto simp: rebind_step_def resolve_def Let_def split: if_splits list.splits)
qed

definition change_of :: "column \<times> column \<Rightarrow> change" where
  "change_of oc = \<lparr>From = colID (fst oc), To = colID (snd oc)\<rparr>"

lemma rebind_fold:
  assumes "distinct (map colID (dataColumns d))" "distinct (map colID olds)"
    and "fold_res (rebind_step d) olds (rs, ch) = Inr (rs', ch')"
  shows "\<exists>news. list_all2 (\<lambda>old cur. resolve d old = Some cur) olds news
    \<and> (\<forall>(old, cur) \<in> set (zip olds news). map_of rs' (colID old) = Some (colID cur))
    \<and> (\<forall>x. x \<notin> colID ` set olds \<longrightarrow> map_of rs' x = map_of rs x)
    \<and> ch' = ch @ map change_of (filter (\<lambda>(old, cur). cur \<noteq> old) (zip olds news))"
  using assms(2,3)
proof (induction olds arbitrary: rs ch)
  case (Cons old olds)
  from Cons.prems obtain rs1 ch1 where s: "rebind_step d old (rs, ch) = Inr (rs1, ch1)"
    and r: "fold_res (rebind_step d) olds (rs1, ch1) = Inr (rs', ch')" by auto
  from rebind_step_resolve [OF assms(1) s] obtain cur where cur: "resolve d old = Some cur"
    "rs1 = AList.update (colID old) (colID cur) rs"
    "ch1 = ch @ (if cur = old then [] else [\<lparr>From = colID old, To = colID cur\<rparr>])" by blast
  have "distinct (map colID olds)" using Cons.prems by simp
  from Cons.IH [OF this r] obtain news where n: "list_all2 (\<lambda>old cur. resolve d old = Some cur) olds news"
    "\<forall>(old, cur) \<in> set (zip olds news). map_of rs' (colID old) = Some (colID cur)"
    "\<forall>x. x \<notin> colID ` set olds \<longrightarrow> map_of rs' x = map_of rs1 x"
    "ch' = ch1 @ map change_of (filter (\<lambda>(old, cur). cur \<noteq> old) (zip olds news))" by blast
  have "map_of rs' (colID old) = Some (colID cur)"
    using n(3) cur(2) Cons.prems(1) by (simp add: update_conv')
  with n cur show ?case
    by (intro exI [of _ "cur # news"]) (auto simp: change_of_def update_conv')
qed simp

lemma bound_rebind:
  assumes "\<And>x. x \<in> set (bound b) \<Longrightarrow> replaced rs x \<noteq> []"
  shows "bound (rebind_bindings rs b) = map (replaced rs) (bound b)"
proof -
  have "filter (\<lambda>s. s \<noteq> []) (map (replace_slot rs) xs) = map (replaced rs) (filter (\<lambda>s. s \<noteq> []) xs)"
    if "\<forall>x \<in> set xs. x \<noteq> [] \<longrightarrow> replaced rs x \<noteq> []" for xs
    using that by (induction xs) (auto simp: replace_slot_def)
  from this [of "[bCategory b, bValue b, bSeries b, bX b, bY b, bParent b, bSize b, bComparison b, bTarget b]"] assms
  show ?thesis by (simp add: bound_def rebind_bindings_def)
qed

lemma valid_column_id: "validateColumn c = Inr () \<Longrightarrow> colID c \<noteq> []"
  by (auto simp: validateColumn_def chart_identifier_def Let_def split: if_splits)

lemma pinned_ids:
  assumes "pinned d m"
  shows "map colID (mColumns m) = bound (mBindings m)"
  using assms column_of_facts(2) by (auto simp: pinned_def map_idI subset_iff)

lemma Rebind_Inr:
  assumes "Rebind g d m l = Inr p"
  obtains news where "data_ok d" "ValidateMapping g d (propMapping p) l = Inr ()" "propStatus p = ''review_required''"
    "list_all2 (\<lambda>old cur. resolve d old = Some cur) (mColumns m) news" "mColumns (propMapping p) = news"
    "propChanges p = map change_of (filter (\<lambda>(old, cur). cur \<noteq> old) (zip (mColumns m) news))"
    "mKind (propMapping p) = mKind m \<and> mVersion (propMapping p) = mVersion m
     \<and> mOptions (propMapping p) = mOptions m \<and> mKPI (propMapping p) = mKPI m"
proof -
  let ?old = "\<lparr>dataVersion = Version, dataColumns = mColumns m, dataRows = [],
    dataCompleteness = \<lparr>comStatus = ''complete_result'', comReason = []\<rparr>\<rparr>"
  from assms obtain rs ch where data: "ValidateData g d l = Inr ()" and old: "ValidateMapping g ?old m l = Inr ()"
    and fold: "fold_res (rebind_step d) (mColumns m) ([], []) = Inr (rs, ch)"
    and val: "validateMapping g d (rebind_mapping d rs m) l = Inr ()"
    and p: "p = \<lparr>propStatus = ''review_required'', propMapping = rebind_mapping d rs m, propChanges = ch\<rparr>"
    by (auto simp: Rebind_def Let_def)
  have ok: "data_ok d" using data by (rule ValidateData_ok)
  have "pinned ?old m" using ValidateMapping_Inr(2) [OF old] by (rule validateMapping_pinned)
  then have ids: "map colID (mColumns m) = bound (mBindings m)" and dist: "distinct (map colID (mColumns m))"
    using pinned_ids [of ?old m] by (simp_all add: pinned_def)
  have dd: "distinct (map colID (dataColumns d))" using ok by (simp add: data_ok_def)
  from rebind_fold [OF dd dist fold] obtain news where
    n: "list_all2 (\<lambda>old cur. resolve d old = Some cur) (mColumns m) news"
      "\<forall>(old, cur) \<in> set (zip (mColumns m) news). map_of rs (colID old) = Some (colID cur)"
      "ch = map change_of (filter (\<lambda>(old, cur). cur \<noteq> old) (zip (mColumns m) news))" by auto
  have len: "length news = length (mColumns m)" using n(1) by (simp add: list_all2_lengthD)
  have nth: "replaced rs (bound (mBindings m) ! i) = colID (news ! i) \<and> news ! i \<in> set (dataColumns d)"
    if "i < length news" for i
  proof -
    have "(mColumns m ! i, news ! i) \<in> set (zip (mColumns m) news)"
      using that len by (metis in_set_zip fst_conv snd_conv)
    moreover have "bound (mBindings m) ! i = colID (mColumns m ! i)"
      using ids that len by (metis nth_map)
    moreover have "news ! i \<in> set (dataColumns d)"
      by (rule resolve_Some(1) [OF list_all2_nthD2 [OF n(1) that]])
    ultimately show ?thesis using n(2) by (auto simp: replaced_def)
  qed
  have lb: "length (bound (mBindings m)) = length news" using ids len by (metis length_map)
  have ne: "replaced rs x \<noteq> []" if x: "x \<in> set (bound (mBindings m))" for x
  proof -
    obtain i where i: "i < length news" "x = bound (mBindings m) ! i" using x lb by (metis in_set_conv_nth)
    have "validateColumn (news ! i) = Inr ()" using nth [OF i(1)] ok by (simp add: data_ok_def)
    then show ?thesis using nth [OF i(1)] valid_column_id i(2) by metis
  qed
  have "map (replaced rs) (bound (mBindings m)) = map colID news"
    using nth lb by (intro nth_equalityI) simp_all
  moreover have "\<forall>c \<in> set news. c \<in> set (dataColumns d)" using nth by (metis in_set_conv_nth)
  ultimately have "bound (rebind_bindings rs (mBindings m)) = map colID news"
    using bound_rebind [OF ne] by simp
  then have "mColumns (rebind_mapping d rs m) = news"
    using \<open>\<forall>c \<in> set news. c \<in> set (dataColumns d)\<close> column_of_member [OF dd]
    by (simp add: rebind_mapping_def Let_def map_idI)
  moreover have "mKind (rebind_mapping d rs m) = mKind m \<and> mVersion (rebind_mapping d rs m) = mVersion m
     \<and> mOptions (rebind_mapping d rs m) = mOptions m \<and> mKPI (rebind_mapping d rs m) = mKPI m"
    by (simp add: rebind_mapping_def Let_def)
  moreover have "ValidateMapping g d (rebind_mapping d rs m) l = Inr ()"
    using data val by (simp add: ValidateMapping_def)
  ultimately show thesis
    using that [of news] ok p n by simp
qed

text \<open>
  C10. A rebind proposal is safe to review: it validates against the new data, keeps kind,
  version, options and KPI policy, every saved column is kept when the data still has exactly
  that column, otherwise replaced by the only column with the same meaning, and the change list
  names exactly the replaced columns.
\<close>

theorem rebind_sound:
  assumes "Rebind g d m l = Inr p"
  shows "ValidateMapping g d (propMapping p) l = Inr () \<and> propStatus p = ''review_required''
    \<and> mKind (propMapping p) = mKind m \<and> mVersion (propMapping p) = mVersion m \<and> mOptions (propMapping p) = mOptions m
    \<and> list_all2 (\<lambda>old cur. if old \<in> set (dataColumns d) then cur = old
                            else sameMeaning old cur \<and> cur \<in> set (dataColumns d)
                              \<and> (\<forall>c \<in> set (dataColumns d). sameMeaning old c \<longrightarrow> c = cur))
        (mColumns m) (mColumns (propMapping p))
    \<and> propChanges p = map (\<lambda>(old, cur). \<lparr>From = colID old, To = colID cur\<rparr>)
        (filter (\<lambda>(old, cur). cur \<noteq> old) (zip (mColumns m) (mColumns (propMapping p))))"
  using assms
proof (rule Rebind_Inr)
  fix news
  assume a: "list_all2 (\<lambda>old cur. resolve d old = Some cur) (mColumns m) news" "mColumns (propMapping p) = news"
    "ValidateMapping g d (propMapping p) l = Inr ()" "propStatus p = ''review_required''"
    "propChanges p = map change_of (filter (\<lambda>(old, cur). cur \<noteq> old) (zip (mColumns m) news))"
    "mKind (propMapping p) = mKind m \<and> mVersion (propMapping p) = mVersion m
     \<and> mOptions (propMapping p) = mOptions m \<and> mKPI (propMapping p) = mKPI m"
  have "list_all2 (\<lambda>old cur. if old \<in> set (dataColumns d) then cur = old
      else sameMeaning old cur \<and> cur \<in> set (dataColumns d)
        \<and> (\<forall>c \<in> set (dataColumns d). sameMeaning old c \<longrightarrow> c = cur)) (mColumns m) news"
    using a(1)
  proof (rule list_all2_mono)
    fix old cur
    assume r: "resolve d old = Some cur"
    show "if old \<in> set (dataColumns d) then cur = old
      else sameMeaning old cur \<and> cur \<in> set (dataColumns d)
        \<and> (\<forall>c \<in> set (dataColumns d). sameMeaning old c \<longrightarrow> c = cur)"
      using resolve_Some [OF r] r by (auto simp: resolve_def)
  qed
  moreover have "change_of = (\<lambda>(old, cur). \<lparr>From = colID old, To = colID cur\<rparr>)"
    by (auto simp: change_of_def fun_eq_iff)
  ultimately show ?thesis using a by simp
qed

subsection \<open>Concrete definitions\<close>

definition sample_mapping :: "int \<Rightarrow> kind \<Rightarrow> data \<Rightarrow> bindings \<Rightarrow> order list \<Rightarrow> mapping" where
  "sample_mapping v k d b ord =
     \<lparr>mVersion = v, mKind = k, mColumns = map (column_of d) (bound b), mBindings = b, mOrder = ord,
      mOptions = DefaultOptions, mKPI = None, mTable = None\<rparr>"

definition sales_bar :: mapping where
  "sales_bar = sample_mapping 1 Bar sales (no_bindings\<lparr>bCategory := ''R'', bValue := ''A''\<rparr>)
     [\<lparr>ordColumn = ''A'', Direction = ''desc''\<rparr>]"

text \<open>The same data under a renamed measure column.\<close>

definition renamed_sales :: data where
  "renamed_sales = sample_data [sample_column ''R'' ''text'' ''dimension'' [],
     (sample_column ''A'' ''decimal'' ''measure'' ''sum'')\<lparr>colID := ''B''\<rparr>] [[''N'', ''2'']]"

definition sales_proposal :: proposal where
  "sales_proposal = projr (Rebind sample_lib renamed_sales sales_bar Defaults)"

lemma sales_bar_valid: "ValidateMapping sample_lib sales sales_bar Defaults = Inr ()"
  by code_simp

theorem mapping_pinned_witness:
  "ValidateMapping sample_lib sales sales_bar Defaults = Inr ()
   \<and> mColumns sales_bar = map (column_of sales) (bound (mBindings sales_bar))"
  using mapping_pinned [OF sales_bar_valid] sales_bar_valid by blast



theorem rebind_sound_witness:
  "Rebind sample_lib renamed_sales sales_bar Defaults = Inr sales_proposal
   \<and> propChanges sales_proposal = [\<lparr>From = ''A'', To = ''B''\<rparr>]
   \<and> ValidateMapping sample_lib renamed_sales (propMapping sales_proposal) Defaults = Inr ()"
proof -
  have r: "Rebind sample_lib renamed_sales sales_bar Defaults = Inr sales_proposal"
    and c: "propChanges sales_proposal = [\<lparr>From = ''A'', To = ''B''\<rparr>]"
    unfolding sales_proposal_def by code_simp+
  from rebind_sound [OF r] r c show ?thesis by blast
qed

end
