(* ===== verification/ChartBuild.thy ===== *)
theory ChartBuild
  imports ChartMapping
begin

text \<open>
  Building a chart output from data and a saved mapping: \<^verbatim>\<open>internal/charts/build.go\<close>,
  \<^verbatim>\<open>rich_build.go\<close>, \<^verbatim>\<open>display_build.go\<close> and \<^verbatim>\<open>source_rows.go\<close>. Every coordinate that reaches
  the encoder is a finite double, so the error branch of \<^verbatim>\<open>json.Marshal\<close> has no counterpart.
\<close>

subsection \<open>Stable order\<close>

text \<open>
  \<^verbatim>\<open>sort.SliceStable\<close> as the insertion sort Go runs on a block: an element moves left while it is
  less than its neighbour. For a strict weak order every stable sort gives this list.
\<close>

fun ins_rev :: "('a \<Rightarrow> 'a \<Rightarrow> bool) \<Rightarrow> 'a \<Rightarrow> 'a list \<Rightarrow> 'a list" where
  "ins_rev lt x [] = [x]"
| "ins_rev lt x (y # ys) = (if lt x y then y # ins_rev lt x ys else x # y # ys)"

definition SliceStable :: "('a \<Rightarrow> 'a \<Rightarrow> bool) \<Rightarrow> 'a list \<Rightarrow> 'a list" where
  "SliceStable lt xs = rev (fold (ins_rev lt) xs [])"

definition sign_cmp :: "'a::linorder \<Rightarrow> 'a \<Rightarrow> int" where
  "sign_cmp a b = (if a < b then - 1 else if a = b then 0 else 1)"

definition compare_text :: "golib \<Rightarrow> string \<Rightarrow> string \<Rightarrow> string \<Rightarrow> int" where
  "compare_text g a b typ =
     (if numeric typ then sign_cmp (decimal_rat a) (decimal_rat b)
      else case (if typ = ''temporal'' then (temporal g a, temporal g b) else (None, None)) of
             (Some x, Some y) \<Rightarrow> sign_cmp x y
           | _ \<Rightarrow> sign_cmp a b)"

fun row_less :: "golib \<Rightarrow> data \<Rightarrow> order list \<Rightarrow> cell list \<Rightarrow> cell list \<Rightarrow> bool" where
  "row_less g d [] ra rb = False"
| "row_less g d (x # xs) ra rb =
     (let col = columnIndex (dataColumns d) (ordColumn x); a = index ra col; b = index rb col in
      if cellNull a \<noteq> cellNull b then \<not> cellNull a
      else if cellNull a then row_less g d xs ra rb
      else let cmp = compare_text g (cellValue a) (cellValue b) (colType (index (dataColumns d) col)) in
           if cmp = 0 then row_less g d xs ra rb
           else if Direction x = ''desc'' then cmp > 0 else cmp < 0)"

definition orderedRows :: "golib \<Rightarrow> data \<Rightarrow> mapping \<Rightarrow> int list" where
  "orderedRows g d m =
     (let indexes = map int [0 ..< length (dataRows d)] in
      if mOrder m = [] then indexes
      else SliceStable (\<lambda>i j. row_less g d (mOrder m) (index (dataRows d) i) (index (dataRows d) j)) indexes)"

subsection \<open>Totals\<close>

definition resultScope :: "data \<Rightarrow> string" where
  "resultScope d = (if comStatus (dataCompleteness d) = ''truncated'' then ''returned_rows'' else ''complete_result'')"

definition total_step :: "data \<Rightarrow> string \<Rightarrow> cell list \<Rightarrow> rat \<times> nat \<times> nat \<Rightarrow> charts_error + rat \<times> nat \<times> nat" where
  "total_step d x row st =
     (case st of (s, scale, n) \<Rightarrow>
        let v = at_cell d row x in
        if cellNull v then Inr (s, scale, n)
        else case decimal (cellValue v) of
               Inl err \<Rightarrow> Inl err
             | Inr (r, sc) \<Rightarrow> Inr (s + r, if sc > scale then sc else scale, n + 1))"

definition column_total :: "data \<Rightarrow> column \<Rightarrow> charts_error + total_row" where
  "column_total d c =
     (case fold_res (total_step d (colID c)) (dataRows d) (0, 0, 0) of
        Inl err \<Rightarrow> Inl err
      | Inr (s, scale, n) \<Rightarrow>
          Inr \<lparr>totColumn = colID c,
               totValue = \<lparr>cellNull = (n = 0), cellValue = (if n > 0 then FloatString s scale else [])\<rparr>,
               totScope = resultScope d\<rparr>)"

definition additive :: "column \<Rightarrow> bool" where
  "additive c \<longleftrightarrow> numeric (colType c) \<and> Percent (colFormat c) = [] \<and> oneOf (colAggregation c) [''sum'', ''n'']"

definition totals :: "data \<Rightarrow> column list \<Rightarrow> charts_error + total_row list" where
  "totals d columns =
     fold_res (\<lambda>c acc. if \<not> additive c then Inr acc
                       else case column_total d c of Inl err \<Rightarrow> Inl err | Inr t \<Rightarrow> Inr (acc @ [t]))
       columns []"

subsection \<open>Scalar charts and tables\<close>

definition empty_output :: "int \<Rightarrow> data \<Rightarrow> mapping \<Rightarrow> column list \<Rightarrow> chart_output" where
  "empty_output version d m columns =
     \<lparr>oVersion = version, oKind = mKind m, oMapping = cloneMapping m, oColumns = columns, oRows = [], oPoints = [],
      oTotals = [], oState = ''empty'', oInputRows = int (length (dataRows d)), oOmittedRows = 0,
      oCompleteness = dataCompleteness d,
      oWarnings = (if comStatus (dataCompleteness d) = ''truncated'' then [''truncated_result_not_full_source''] else []),
      oSeries = [], oHierarchy = [], oRowIndices = [], oTransformation = None, oKPIResult = None,
      oTablePageSize = 0, oShowTotals = False\<rparr>"

definition plot_value :: "data \<Rightarrow> cell list \<Rightarrow> string \<Rightarrow> charts_error + val" where
  "plot_value d row x =
     (if x = [] then Inr null_val
      else let cell = at_cell d row x in
           if numeric (colType (column_of d x)) then numberValue cell
           else Inr \<lparr>valNull = cellNull cell, valExact = cellValue cell, valCoordinate = None, valApproximate = False\<rparr>)"

definition positive_val :: "val \<Rightarrow> bool" where
  "positive_val v = (case valCoordinate v of None \<Rightarrow> False | Some f \<Rightarrow> f > 0)"

record build_flags =
  fNonNull :: bool
  fPositive :: bool
  fApproximate :: bool

definition flag_value :: "data \<Rightarrow> cell list \<Rightarrow> string \<times> val \<Rightarrow> build_flags \<Rightarrow> build_flags" where
  "flag_value d row xv f =
     (case xv of (x, v) \<Rightarrow>
        if x = [] then f
        else f\<lparr>fApproximate := fApproximate f \<or> valApproximate v,
               fNonNull := fNonNull f \<or> \<not> cellNull (at_cell d row x),
               fPositive := fPositive f \<or> \<not> cellNull (at_cell d row x) \<and> positive_val v\<rparr>)"

definition scalar_point :: "data \<Rightarrow> mapping \<Rightarrow> int \<Rightarrow> val \<Rightarrow> val \<Rightarrow> val \<Rightarrow> point" where
  "scalar_point d m i v x y =
     (let row = index (dataRows d) i; b = mBindings m
      in \<lparr>pRow = i, pCategory = at_cell d row (bCategory b), pSeries = at_cell d row (bSeries b),
          pParent = at_cell d row (bParent b), pX = x, pY = y, pValue = v, pMeasure = [], pSeriesID = [],
          pCategoryKey = [], pSize = None, pPath = []\<rparr>)"

definition build_step ::
  "data \<Rightarrow> mapping \<Rightarrow> int \<Rightarrow> chart_output \<times> build_flags \<Rightarrow> charts_error + chart_output \<times> build_flags" where
  "build_step d m i st =
     (case st of (out, f) \<Rightarrow>
        let row = index (dataRows d) i; b = mBindings m in
        if omitted d row m then Inr (out\<lparr>oOmittedRows := oOmittedRows out + 1\<rparr>, f)
        else if mKind m = Table
        then Inr (out\<lparr>oRows := oRows out @ [map (at_cell d row) (bColumns b)]\<rparr>, f\<lparr>fNonNull := True\<rparr>)
        else case plot_value d row (bValue b) of Inl err \<Rightarrow> Inl err | Inr v \<Rightarrow>
             (case plot_value d row (bX b) of Inl err \<Rightarrow> Inl err | Inr x \<Rightarrow>
             (case plot_value d row (bY b) of Inl err \<Rightarrow> Inl err | Inr y \<Rightarrow>
                Inr (out\<lparr>oPoints := oPoints out @ [scalar_point d m i v x y]\<rparr>,
                     fold (flag_value d row) [(bValue b, v), (bX b, x), (bY b, y)] f))))"

definition build_state :: "data \<Rightarrow> mapping \<Rightarrow> build_flags \<Rightarrow> string" where
  "build_state d m f =
     (if dataRows d \<noteq> [] \<and> \<not> fPositive f \<and> (mKind m = Pie \<or> mKind m = Donut \<or> mKind m = Treemap) \<and> fNonNull f
      then ''no_positive_values''
      else if dataRows d \<noteq> [] \<and> \<not> fNonNull f then ''no_values''
      else if fNonNull f then ''ready'' else ''empty'')"

definition sealed :: "golib \<Rightarrow> limits \<Rightarrow> chart_output \<Rightarrow> charts_error + chart_output" where
  "sealed g l out = (if json_len g (output_json out) > MaxBytes l * 4 then Inl ErrLimit else Inr out)"

definition buildScalar :: "golib \<Rightarrow> data \<Rightarrow> mapping \<Rightarrow> limits \<Rightarrow> charts_error + chart_output" where
  "buildScalar g d m l =
     (case fold_res (build_step d m) (orderedRows g d m)
             (empty_output (mVersion m) d m (mColumns m),
              \<lparr>fNonNull = False, fPositive = False, fApproximate = False\<rparr>) of
        Inl err \<Rightarrow> Inl err
      | Inr (out, f) \<Rightarrow>
          let out = out\<lparr>oState := build_state d m f,
                        oWarnings := oWarnings out
                          @ (if oOmittedRows out > 0 then [''null_coordinates_omitted''] else [])
                          @ (if fApproximate f then [''geometry_approximate_labels_exact''] else [])\<rparr>
          in case totals d (mColumns m) of
               Inl err \<Rightarrow> Inl err
             | Inr ts \<Rightarrow> sealed g l (out\<lparr>oTotals := ts\<rparr>))"

subsection \<open>Display tables and KPIs\<close>

definition table_visible :: "table_options \<Rightarrow> string \<Rightarrow> bool" where
  "table_visible t x = (case map_of (rev (map (\<lambda>c. (tiColumn c, tiVisible c)) (tabColumns t))) x of
     None \<Rightarrow> False | Some v \<Rightarrow> v)"

definition buildDisplayTable ::
  "golib \<Rightarrow> data \<Rightarrow> mapping \<Rightarrow> table_options \<Rightarrow> chart_output \<Rightarrow> charts_error + chart_output" where
  "buildDisplayTable g d m t out =
     (let cols = filter (\<lambda>c. table_visible t (colID c)) (mColumns m);
          rows = map (\<lambda>i. map (at_cell d (index (dataRows d) i)) (filter (table_visible t) (bColumns (mBindings m))))
                   (orderedRows g d m);
          out = out\<lparr>oColumns := cols, oRows := rows, oTablePageSize := PageSize t, oShowTotals := tabShowTotals t\<rparr>
      in case (if tabShowTotals t then totals d cols else Inr []) of
           Inl err \<Rightarrow> Inl err
         | Inr ts \<Rightarrow> Inr (out\<lparr>oTotals := ts, oState := (if rows \<noteq> [] then ''ready'' else oState out)\<rparr>))"

definition value_at :: "data \<Rightarrow> int \<Rightarrow> string \<Rightarrow> charts_error + val" where
  "value_at d i x = numberValue (at_cell d (index (dataRows d) i) x)"

fun values_at :: "data \<Rightarrow> int list \<Rightarrow> string \<Rightarrow> charts_error + val list" where
  "values_at d [] x = Inr []"
| "values_at d (i # iss) x =
     (case value_at d i x of Inl err \<Rightarrow> Inl err
      | Inr v \<Rightarrow> (case values_at d iss x of Inl err \<Rightarrow> Inl err | Inr vs \<Rightarrow> Inr (v # vs)))"

definition optional_res :: "('e + 'a) option \<Rightarrow> 'e + 'a option" where
  "optional_res x = (case x of None \<Rightarrow> Inr None | Some (Inl err) \<Rightarrow> Inl err | Some (Inr v) \<Rightarrow> Inr (Some v))"

definition kpi_comparison :: "data \<Rightarrow> mapping \<Rightarrow> kpi_options \<Rightarrow> int list \<Rightarrow> int \<Rightarrow> charts_error + val option" where
  "kpi_comparison d m k indexes selected =
     optional_res
       (if ComparisonMode k = ''comparison_column''
        then Some (value_at d (index indexes selected) (bComparison (mBindings m)))
        else if ComparisonMode k = ''previous_row'' \<and> 0 \<le> selected - 1 \<and> selected - 1 < int (length indexes)
        then Some (value_at d (index indexes (selected - 1)) (bValue (mBindings m)))
        else None)"

text \<open>The delta and its percentage: the delta is computed, and may fail, even when it is not shown.\<close>

definition kpi_delta ::
  "mapping \<Rightarrow> kpi_options \<Rightarrow> val \<Rightarrow> val option \<Rightarrow> charts_error + val option \<times> val option" where
  "kpi_delta m k v comparison =
     (case comparison of
        None \<Rightarrow> Inr (None, None)
      | Some c \<Rightarrow>
          if valNull v \<or> valNull c then Inr (None, None)
          else case exactDifference (valExact v) (valExact c) of
                 Inl err \<Rightarrow> Inl err
               | Inr delta \<Rightarrow>
                   (case (if ShowPercentDelta k
                          then exactPercent (valExact delta) (valExact c)
                                 (FractionDigits (colFormat (index (mColumns m)
                                    (columnIndex (mColumns m) (bValue (mBindings m))))))
                          else Inr None) of
                      Inl err \<Rightarrow> Inl err
                    | Inr p \<Rightarrow> Inr (if ShowDelta k then Some delta else None, p)))"

definition kpi_target :: "data \<Rightarrow> mapping \<Rightarrow> int \<Rightarrow> val \<Rightarrow> charts_error + val option \<times> val option" where
  "kpi_target d m i v =
     (if bTarget (mBindings m) = [] then Inr (None, None)
      else case value_at d i (bTarget (mBindings m)) of
             Inl err \<Rightarrow> Inl err
           | Inr target \<Rightarrow>
               if valNull v \<or> valNull target then Inr (Some target, None)
               else case exactDifference (valExact v) (valExact target) of
                      Inl err \<Rightarrow> Inl err
                    | Inr difference \<Rightarrow> Inr (Some target, Some difference))"

definition threshold_matched :: "rat \<Rightarrow> kpi_threshold \<Rightarrow> bool" where
  "threshold_matched v t =
     (let cmp = sign_cmp v (decimal_rat (thValue t)) in
      thOperator t = ''lt'' \<and> cmp < 0 \<or> thOperator t = ''lte'' \<and> cmp \<le> 0 \<or>
      thOperator t = ''gt'' \<and> cmp > 0 \<or> thOperator t = ''gte'' \<and> cmp \<ge> 0)"

definition kpi_threshold_for :: "kpi_options \<Rightarrow> val \<Rightarrow> string \<times> string" where
  "kpi_threshold_for k v =
     (if valNull v then ([], [])
      else case find (threshold_matched (decimal_rat (valExact v))) (Thresholds k) of
             None \<Rightarrow> ([], []) | Some t \<Rightarrow> (thState t, thLabel t))"

text \<open>The one point of a KPI is a struct literal: its other fields are zero values.\<close>

definition kpi_point :: "int \<Rightarrow> val \<Rightarrow> point" where
  "kpi_point i v =
     (let c = \<lparr>cellNull = False, cellValue = []\<rparr>;
          z = \<lparr>valNull = False, valExact = [], valCoordinate = None, valApproximate = False\<rparr>
      in \<lparr>pRow = i, pCategory = c, pSeries = c, pParent = c, pX = z, pY = z, pValue = v, pMeasure = [],
          pSeriesID = [], pCategoryKey = [], pSize = None, pPath = []\<rparr>)"

definition buildDisplayKPI ::
  "golib \<Rightarrow> data \<Rightarrow> mapping \<Rightarrow> kpi_options \<Rightarrow> chart_output \<Rightarrow> charts_error + chart_output" where
  "buildDisplayKPI g d m k out =
     (let out = out\<lparr>oColumns := mColumns m\<rparr>; indexes = orderedRows g d m;
          selected = (if ValueRow k = ''last'' then int (length indexes) - 1 else 0);
          i = index indexes selected; x = bValue (mBindings m) in
      if dataRows d = [] then Inr out
      else case value_at d i x of Inl err \<Rightarrow> Inl err | Inr v \<Rightarrow>
      (case (if kpiSparkline k then values_at d indexes x else Inr []) of Inl err \<Rightarrow> Inl err | Inr spark \<Rightarrow>
      (case kpi_comparison d m k indexes selected of Inl err \<Rightarrow> Inl err | Inr comparison \<Rightarrow>
      (case kpi_delta m k v comparison of Inl err \<Rightarrow> Inl err | Inr (delta, percent) \<Rightarrow>
      (case kpi_target d m i v of Inl err \<Rightarrow> Inl err | Inr (target, difference) \<Rightarrow>
         let (state, label) = kpi_threshold_for k v;
             result = \<lparr>krValue = v, krComparison = comparison, krDelta = delta, krPercentDelta = percent,
                       krTarget = target, krTargetDifference = difference, krThresholdState = state,
                       krThresholdLabel = label, krSparkline = spark\<rparr>
         in Inr (out\<lparr>oKPIResult := Some result, oPoints := [kpi_point i v],
                     oState := (if valNull v then ''no_values'' else ''ready'')\<rparr>))))))"

definition buildDisplay :: "golib \<Rightarrow> data \<Rightarrow> mapping \<Rightarrow> limits \<Rightarrow> charts_error + chart_output" where
  "buildDisplay g d m l =
     (let out = empty_output DisplayVersion d m [] in
      case (if mKind m = Table then buildDisplayTable g d m (the (mTable m)) out
            else buildDisplayKPI g d m (the (mKPI m)) out) of
        Inl err \<Rightarrow> Inl err
      | Inr out \<Rightarrow> sealed g l out)"

subsection \<open>Rich charts\<close>

text \<open>The running state of a rich build: the output so far and the bytes its budget used.\<close>

record rich_build =
  rbOut :: chart_output
  rbUsed :: int

definition budget_take :: "golib \<Rightarrow> limits \<Rightarrow> json \<Rightarrow> rich_build \<Rightarrow> charts_error + rich_build" where
  "budget_take g l j s =
     (if json_len g j + 1 > MaxBytes l * 4 - rbUsed s then Inl ErrLimit
      else Inr (s\<lparr>rbUsed := rbUsed s + json_len g j + 1\<rparr>))"

definition emptyPoint :: "int \<Rightarrow> point" where
  "emptyPoint i =
     \<lparr>pRow = i, pCategory = null_cell, pSeries = null_cell, pParent = null_cell, pX = null_val, pY = null_val,
      pValue = null_val, pMeasure = [], pSeriesID = [], pCategoryKey = [], pSize = None, pPath = []\<rparr>"

definition seriesID :: "golib \<Rightarrow> data \<Rightarrow> cell list \<Rightarrow> string \<Rightarrow> string \<Rightarrow> string" where
  "seriesID g d row msr series =
     stableID g (json_text g (JArr [JStr msr, JStr (identityKey g d row [series])]))"

text \<open>The em dash between measure and breakdown is three bytes of UTF-8.\<close>

definition dash :: string where
  "dash = [CHR '' '', byte_of 226, byte_of 128, byte_of 148, CHR '' '']"

definition makeSeries :: "golib \<Rightarrow> data \<Rightarrow> cell list \<Rightarrow> string \<Rightarrow> string \<Rightarrow> series_definition" where
  "makeSeries g d row msr series =
     (let c = column_of d msr; breakdown = at_cell d row series
      in \<lparr>serID = seriesID g d row msr series, serMeasure = msr,
          serName = (if series \<noteq> [] then colName c @ dash @ cellValue breakdown else colName c),
          serBreakdown = breakdown, serFormat = colFormat c\<rparr>)"

definition row_at :: "data \<Rightarrow> int \<Rightarrow> cell list" where
  "row_at d i = index (dataRows d) i"

text \<open>First rows of each breakdown among the rows with complete coordinates.\<close>

definition breakdown_step :: "golib \<Rightarrow> data \<Rightarrow> mapping \<Rightarrow> int \<Rightarrow> int list \<times> string set \<Rightarrow> int list \<times> string set" where
  "breakdown_step g d m i st =
     (case st of (brs, seen) \<Rightarrow>
        if coordinateMissing d (row_at d i) (richCoordinates m) then (brs, seen)
        else let key = identityKey g d (row_at d i) [bSeries (mBindings m)]
             in if key \<in> seen then (brs, seen) else (brs @ [i], insert key seen))"

definition add_series :: "golib \<Rightarrow> limits \<Rightarrow> series_definition \<Rightarrow> rich_build \<Rightarrow> charts_error + rich_build" where
  "add_series g l s st =
     (case budget_take g l (series_json s) st of
        Inl err \<Rightarrow> Inl err
      | Inr st \<Rightarrow> Inr (st\<lparr>rbOut := (rbOut st)\<lparr>oSeries := oSeries (rbOut st) @ [s]\<rparr>\<rparr>))"

definition upd_trans :: "(transformation \<Rightarrow> transformation) \<Rightarrow> chart_output \<Rightarrow> chart_output" where
  "upd_trans f out = out\<lparr>oTransformation := map_option f (oTransformation out)\<rparr>"

definition omit_row :: "chart_output \<Rightarrow> chart_output" where
  "omit_row out = out\<lparr>oOmittedRows := oOmittedRows out + 1\<rparr>"

definition add_point :: "point \<Rightarrow> chart_output \<Rightarrow> chart_output" where
  "add_point p out = out\<lparr>oPoints := oPoints out @ [p]\<rparr>"

record measure_build =
  mbBuild :: rich_build
  mbCategories :: "(string \<times> cell) list"
  mbObservations :: "((string \<times> string) \<times> point) list"

definition is_line :: "mapping \<Rightarrow> bool" where
  "is_line m \<longleftrightarrow> mKind m = Line \<or> mKind m = Area"

definition measure_point :: "golib \<Rightarrow> data \<Rightarrow> mapping \<Rightarrow> int \<Rightarrow> string \<Rightarrow> val \<Rightarrow> point" where
  "measure_point g d m i msr v =
     (let b = mBindings m; row = row_at d i
      in (emptyPoint i)\<lparr>pCategory := at_cell d row (bCategory b), pSeries := at_cell d row (bSeries b),
           pMeasure := msr, pSeriesID := seriesID g d row msr (bSeries b),
           pCategoryKey := identityKey g d row [bCategory b], pValue := v\<rparr>)"

definition observe ::
  "golib \<Rightarrow> data \<Rightarrow> mapping \<Rightarrow> limits \<Rightarrow> int \<Rightarrow> string \<Rightarrow> measure_build \<Rightarrow> charts_error + measure_build" where
  "observe g d m l i msr st =
     (case numberValue (at_cell d (row_at d i) msr) of
        Inl err \<Rightarrow> Inl err
      | Inr v \<Rightarrow>
          let p = measure_point g d m i msr v;
              rb = mbBuild st;
              rb = (if valNull v
                    then rb\<lparr>rbOut := upd_trans (\<lambda>t. t\<lparr>trMissingPoints := trMissingPoints t + 1\<rparr>) (rbOut rb)\<rparr>
                    else rb)
          in case budget_take g l (point_json p) rb of
               Inl err \<Rightarrow> Inl err
             | Inr rb \<Rightarrow>
                 Inr (if is_line m
                      then st\<lparr>mbBuild := rb,
                              mbObservations := AList.update (pCategoryKey p, pSeriesID p) p (mbObservations st)\<rparr>
                      else st\<lparr>mbBuild := rb\<lparr>rbOut := add_point p (rbOut rb)\<rparr>\<rparr>))"

definition measure_row ::
  "golib \<Rightarrow> data \<Rightarrow> mapping \<Rightarrow> limits \<Rightarrow> int \<Rightarrow> measure_build \<Rightarrow> charts_error + measure_build" where
  "measure_row g d m l i st =
     (let row = row_at d i; b = mBindings m in
      if coordinateMissing d row (richCoordinates m)
      then Inr (st\<lparr>mbBuild := (mbBuild st)\<lparr>rbOut := omit_row (rbOut (mbBuild st))\<rparr>\<rparr>)
      else let key = identityKey g d row [bCategory b];
               cats = (if key \<in> fst ` set (mbCategories st) then mbCategories st
                       else mbCategories st @ [(key, at_cell d row (bCategory b))])
           in fold_res (observe g d m l i) (valueIDs b) (st\<lparr>mbCategories := cats\<rparr>))"

definition gap_point :: "series_definition \<Rightarrow> string \<times> cell \<Rightarrow> point" where
  "gap_point s c =
     (emptyPoint (- 1))\<lparr>pCategory := snd c, pCategoryKey := fst c, pSeries := serBreakdown s,
        pMeasure := serMeasure s, pSeriesID := serID s\<rparr>"

definition line_point ::
  "golib \<Rightarrow> limits \<Rightarrow> ((string \<times> string) \<times> point) list \<Rightarrow> series_definition \<times> string \<times> cell
   \<Rightarrow> rich_build \<Rightarrow> charts_error + rich_build" where
  "line_point g l obs sc st =
     (case sc of (s, c) \<Rightarrow>
        case map_of obs (fst c, serID s) of
          Some p \<Rightarrow> Inr (st\<lparr>rbOut := add_point p (rbOut st)\<rparr>)
        | None \<Rightarrow>
            let p = gap_point s c;
                st = st\<lparr>rbOut := upd_trans (\<lambda>t. t\<lparr>trGapPoints := trGapPoints t + 1\<rparr>) (rbOut st)\<rparr>
            in case budget_take g l (point_json p) st of
                 Inl err \<Rightarrow> Inl err
               | Inr st \<Rightarrow> Inr (st\<lparr>rbOut := add_point p (rbOut st)\<rparr>))"

definition buildMeasures ::
  "golib \<Rightarrow> data \<Rightarrow> mapping \<Rightarrow> limits \<Rightarrow> int list \<Rightarrow> rich_build \<Rightarrow> charts_error + rich_build" where
  "buildMeasures g d m l indexes st =
     (let b = mBindings m; values = valueIDs b;
          breakdowns = fst (fold (breakdown_step g d m) indexes ([], {}));
          defs = concat (map (\<lambda>msr. map (\<lambda>i. makeSeries g d (row_at d i) msr (bSeries b)) breakdowns) values)
      in case fold_res (add_series g l) defs st of
           Inl err \<Rightarrow> Inl err
         | Inr st \<Rightarrow>
             (case fold_res (measure_row g d m l) indexes
                     \<lparr>mbBuild = st, mbCategories = [], mbObservations = []\<rparr> of
                Inl err \<Rightarrow> Inl err
              | Inr mb \<Rightarrow>
                  if is_line m
                  then fold_res (line_point g l (mbObservations mb))
                         (concat (map (\<lambda>s. map (\<lambda>c. (s, c)) (mbCategories mb)) (oSeries (rbOut (mbBuild mb)))))
                         (mbBuild mb)
                  else Inr (mbBuild mb)))"

text \<open>Bubbles: the seen set is the identifiers of the series already added.\<close>

definition bubble_step ::
  "golib \<Rightarrow> data \<Rightarrow> mapping \<Rightarrow> limits \<Rightarrow> int \<Rightarrow> rich_build \<times> string set \<Rightarrow> charts_error + rich_build \<times> string set" where
  "bubble_step g d m l i ss =
     (case ss of (st, seen) \<Rightarrow>
      let row = row_at d i; b = mBindings m in
      if coordinateMissing d row (richCoordinates m) then Inr (st\<lparr>rbOut := omit_row (rbOut st)\<rparr>, seen)
      else case numberValue (at_cell d row (bSize b)) of Inl err \<Rightarrow> Inl err | Inr sz \<Rightarrow>
        if valCoordinate sz = Some 0
        then Inr (st\<lparr>rbOut := upd_trans (\<lambda>t. t\<lparr>trZeroSizePoints := trZeroSizePoints t + 1\<rparr>) (omit_row (rbOut st))\<rparr>, seen)
        else case numberValue (at_cell d row (bX b)) of Inl err \<Rightarrow> Inl err | Inr x \<Rightarrow>
        (case numberValue (at_cell d row (bY b)) of Inl err \<Rightarrow> Inl err | Inr y \<Rightarrow>
         let s = makeSeries g d row (bY b) (bSeries b);
             p = (emptyPoint i)\<lparr>pSeries := at_cell d row (bSeries b), pSize := Some sz, pX := x, pY := y,
                    pSeriesID := serID s\<rparr>
         in case (if serID s \<in> seen then Inr st else add_series g l s st) of
              Inl err \<Rightarrow> Inl err
            | Inr st \<Rightarrow>
                (case budget_take g l (point_json p) st of
                   Inl err \<Rightarrow> Inl err
                 | Inr st \<Rightarrow> Inr (st\<lparr>rbOut := add_point p (rbOut st)\<rparr>, insert (serID s) seen))))"

definition buildBubbles ::
  "golib \<Rightarrow> data \<Rightarrow> mapping \<Rightarrow> limits \<Rightarrow> int list \<Rightarrow> rich_build \<Rightarrow> charts_error + rich_build" where
  "buildBubbles g d m l indexes st =
     (let st = st\<lparr>rbOut := upd_trans (\<lambda>t. t\<lparr>trMethod := ''retained_bubbles'',
                  trDuplicatePolicy := ''preserve_observations'', trSizeEncoding := ''area'',
                  trNullPolicy := ''omit_missing_coordinates_or_size''\<rparr>) (rbOut st)\<rparr>
      in case fold_res (bubble_step g d m l) indexes (st, {}) of Inl err \<Rightarrow> Inl err | Inr (st, _) \<Rightarrow> Inr st)"

text \<open>
  Hierarchies: the map from keys to accumulators and the ordered list of the same pointers
  are one list in order of first appearance, searched by key.
\<close>

record accumulated =
  acNode :: hierarchy_node
  acSum :: rat
  acScale :: nat
  acLeaf :: cell

fun upsert :: "string \<Rightarrow> accumulated \<Rightarrow> (accumulated \<Rightarrow> accumulated) \<Rightarrow> accumulated list \<Rightarrow> accumulated list" where
  "upsert key new f [] = [f new]"
| "upsert key new f (a # as) = (if hnID (acNode a) = key then f a # as else a # upsert key new f as)"

definition new_node :: "string \<Rightarrow> string \<Rightarrow> nat \<Rightarrow> cell list \<Rightarrow> accumulated" where
  "new_node key parent level path =
     \<lparr>acNode = \<lparr>hnID = key, hnParent = parent, hnDepth = int level, hnPath = path,
                 hnValue = \<lparr>valNull = False, valExact = [], valCoordinate = None, valApproximate = False\<rparr>,
                 hnRows = [], hnAggregation = ''sum'', hnScope = ''returned_complete_paths''\<rparr>,
      acSum = 0, acScale = 0, acLeaf = \<lparr>cellNull = False, cellValue = []\<rparr>\<rparr>"

definition accumulate :: "int \<Rightarrow> rat \<Rightarrow> nat \<Rightarrow> cell option \<Rightarrow> accumulated \<Rightarrow> accumulated" where
  "accumulate i r scale leaf a =
     (let a = a\<lparr>acSum := acSum a + r, acScale := (if scale > acScale a then scale else acScale a),
                acNode := (acNode a)\<lparr>hnRows := hnRows (acNode a) @ [i]\<rparr>\<rparr>
      in case leaf of None \<Rightarrow> a
         | Some cell \<Rightarrow> a\<lparr>acNode := (acNode a)\<lparr>hnAggregation := ''identity''\<rparr>, acLeaf := cell\<rparr>)"

record path_state =
  psNodes :: "accumulated list"
  psPath :: "cell list"
  psParent :: string

definition level_step ::
  "golib \<Rightarrow> data \<Rightarrow> mapping \<Rightarrow> int \<Rightarrow> cell \<Rightarrow> rat \<Rightarrow> nat \<Rightarrow> nat \<times> string \<Rightarrow> path_state \<Rightarrow> path_state" where
  "level_step g d m i cell r scale lx st =
     (case lx of (level, x) \<Rightarrow>
        let h = bHierarchy (mBindings m); row = row_at d i;
            path = psPath st @ [at_cell d row x];
            key = identityKey g d row (take (level + 1) h);
            leaf = (if level = length h - 1 then Some cell else None);
            nodes = upsert key (new_node key (psParent st) level path) (accumulate i r scale leaf) (psNodes st);
            label = (case find (\<lambda>a. hnID (acNode a) = key) nodes of
                       Some a \<Rightarrow> hnPath (acNode a) ! level | None \<Rightarrow> undefined)
        in \<lparr>psNodes = nodes, psPath = psPath st @ [label], psParent = key\<rparr>)"

definition path_point :: "mapping \<Rightarrow> int \<Rightarrow> path_state \<Rightarrow> val \<Rightarrow> point" where
  "path_point m i ps v =
     (let path = psPath ps; n = length path
      in (emptyPoint i)\<lparr>pPath := path, pCategoryKey := psParent ps, pCategory := path ! (n - 1),
           pMeasure := bValue (mBindings m),
           pParent := (if n > 1 then path ! (n - 2) else null_cell), pValue := v\<rparr>)"

definition hierarchy_step ::
  "golib \<Rightarrow> data \<Rightarrow> mapping \<Rightarrow> limits \<Rightarrow> int \<Rightarrow> rich_build \<times> accumulated list
   \<Rightarrow> charts_error + rich_build \<times> accumulated list" where
  "hierarchy_step g d m l i sn =
     (case sn of (st, nodes) \<Rightarrow>
        let row = row_at d i; b = mBindings m; cell = at_cell d row (bValue b) in
        if coordinateMissing d row (bHierarchy b) \<or> cellNull cell
        then Inr (st\<lparr>rbOut := omit_row (rbOut st)\<rparr>, nodes)
        else case decimal (cellValue cell) of Inl err \<Rightarrow> Inl err | Inr (r, scale) \<Rightarrow>
          let ps = fold (level_step g d m i cell r scale) (List.enumerate 0 (bHierarchy b))
                     \<lparr>psNodes = nodes, psPath = [], psParent = []\<rparr>
          in case numberValue cell of Inl err \<Rightarrow> Inl err | Inr v \<Rightarrow>
             (let p = path_point m i ps v in
              case budget_take g l (point_json p) st of
                Inl err \<Rightarrow> Inl err
              | Inr st \<Rightarrow> Inr (st\<lparr>rbOut := add_point p (rbOut st)\<rparr>, psNodes ps)))"

definition node_step :: "golib \<Rightarrow> limits \<Rightarrow> accumulated \<Rightarrow> rich_build \<Rightarrow> charts_error + rich_build" where
  "node_step g l a st =
     (let cell = (if hnAggregation (acNode a) = ''sum''
                  then \<lparr>cellNull = False, cellValue = FloatString (acSum a) (acScale a)\<rparr> else acLeaf a)
      in case numberValue cell of
           Inl err \<Rightarrow> Inl err
         | Inr v \<Rightarrow>
             let node = (acNode a)\<lparr>hnValue := v\<rparr> in
             case budget_take g l (node_json node) st of
               Inl err \<Rightarrow> Inl err
             | Inr st \<Rightarrow> Inr (st\<lparr>rbOut := (rbOut st)\<lparr>oHierarchy := oHierarchy (rbOut st) @ [node]\<rparr>\<rparr>))"

definition buildHierarchy ::
  "golib \<Rightarrow> data \<Rightarrow> mapping \<Rightarrow> limits \<Rightarrow> int list \<Rightarrow> rich_build \<Rightarrow> charts_error + rich_build" where
  "buildHierarchy g d m l indexes st =
     (let st = st\<lparr>rbOut := upd_trans (\<lambda>t. t\<lparr>trMethod := ''ordered_hierarchy_sum'', trAggregation := ''sum'',
                  trNullPolicy := ''omit_incomplete_path_or_value''\<rparr>) (rbOut st)\<rparr>
      in case fold_res (hierarchy_step g d m l) indexes (st, []) of
           Inl err \<Rightarrow> Inl err
         | Inr (st, nodes) \<Rightarrow> fold_res (node_step g l) nodes st)"

definition rich_rows :: "golib \<Rightarrow> data \<Rightarrow> mapping \<Rightarrow> limits \<Rightarrow> int \<Rightarrow> rich_build \<Rightarrow> charts_error + rich_build" where
  "rich_rows g d m l i st =
     (let row = map (\<lambda>c. at_cell d (row_at d i) (colID c)) (mColumns m) in
      case budget_take g l (row_json row) st of Inl err \<Rightarrow> Inl err | Inr st \<Rightarrow>
      (case budget_take g l (JInt i) st of Inl err \<Rightarrow> Inl err | Inr st \<Rightarrow>
         Inr (st\<lparr>rbOut := (rbOut st)\<lparr>oRows := oRows (rbOut st) @ [row],
                                     oRowIndices := oRowIndices (rbOut st) @ [i]\<rparr>\<rparr>)))"

definition point_values :: "point \<Rightarrow> val list" where
  "point_values p = [pValue p, pX p, pY p] @ (case pSize p of None \<Rightarrow> [] | Some v \<Rightarrow> [v])"

definition rich_finish :: "data \<Rightarrow> mapping \<Rightarrow> chart_output \<Rightarrow> chart_output" where
  "rich_finish d m out =
     (let vs = concat (map point_values (oPoints out));
          nonNull = (\<exists>v \<in> set vs. \<not> valNull v);
          positive = (\<exists>v \<in> set vs. positive_val v);
          approximate = ((\<exists>v \<in> set vs. valApproximate v) \<or> (\<exists>n \<in> set (oHierarchy out). valApproximate (hnValue n)));
          zeroArea = (\<exists>n \<in> set (oHierarchy out). valCoordinate (hnValue n) = Some 0);
          t = the (oTransformation out);
          state = (if mKind m = Treemap \<and> nonNull \<and> \<not> positive then ''no_positive_values''
                   else if nonNull then ''ready'' else if dataRows d \<noteq> [] then ''no_values'' else oState out)
      in out\<lparr>oState := state,
             oWarnings := oWarnings out
               @ (if oOmittedRows out > trZeroSizePoints t then [''null_coordinates_omitted''] else [])
               @ (if trZeroSizePoints t > 0 then [''zero_size_not_drawn''] else [])
               @ (if trMissingPoints t > 0 then [''missing_values_preserved''] else [])
               @ (if trGapPoints t > 0 then [''missing_series_observations_are_gaps''] else [])
               @ (if zeroArea then [''zero_area_nodes_not_drawn''] else [])
               @ (if approximate then [''geometry_approximate_labels_exact''] else [])\<rparr>)"

definition rich_start :: "data \<Rightarrow> mapping \<Rightarrow> chart_output" where
  "rich_start d m =
     (empty_output RichVersion d m (mColumns m))\<lparr>oTransformation := Some
        \<lparr>trVersion = 1, trMethod = ''retained_wide_to_series'', trDuplicatePolicy = ''reject'',
         trNullPolicy = ''retain_values_omit_missing_coordinates'', trAggregation = [], trSizeEncoding = [],
         trScope = resultScope d, trMissingPoints = 0, trGapPoints = 0, trZeroSizePoints = 0\<rparr>\<rparr>"

definition buildRich :: "golib \<Rightarrow> data \<Rightarrow> mapping \<Rightarrow> limits \<Rightarrow> charts_error + chart_output" where
  "buildRich g d m l =
     (let out = rich_start d m; indexes = orderedRows g d m in
      case budget_take g l (output_json out) \<lparr>rbOut = out, rbUsed = 1024\<rparr> of Inl err \<Rightarrow> Inl err | Inr st \<Rightarrow>
      (case fold_res (rich_rows g d m l) indexes st of Inl err \<Rightarrow> Inl err | Inr st \<Rightarrow>
      (case (if bHierarchy (mBindings m) \<noteq> [] then buildHierarchy g d m l indexes st
             else if mKind m = Scatter then buildBubbles g d m l indexes st
             else buildMeasures g d m l indexes st) of Inl err \<Rightarrow> Inl err | Inr st \<Rightarrow>
      (case totals d (mColumns m) of
         Inl err \<Rightarrow> Inl err
       | Inr ts \<Rightarrow> sealed g l ((rich_finish d m (rbOut st))\<lparr>oTotals := ts\<rparr>)))))"

subsection \<open>Entry points\<close>

definition Build :: "golib \<Rightarrow> data \<Rightarrow> mapping \<Rightarrow> limits \<Rightarrow> charts_error + chart_output" where
  "Build g d m l =
     (case ValidateMapping g d m l of
        Inl err \<Rightarrow> Inl err
      | Inr _ \<Rightarrow>
          if mVersion m = DisplayVersion then buildDisplay g d m l
          else if richBindings (mKind m) (mBindings m) then buildRich g d m l
          else buildScalar g d m l)"

definition BuildWithSourceRows :: "golib \<Rightarrow> data \<Rightarrow> mapping \<Rightarrow> limits \<Rightarrow> charts_error + chart_output" where
  "BuildWithSourceRows g d m l =
     (case Build g d m l of
        Inl err \<Rightarrow> Inl err
      | Inr out \<Rightarrow>
          if mKind m \<noteq> Table then Inr out
          else let indices = orderedRows g d m in
               if length indices \<noteq> length (oRows out) then Inl ErrInvalid
               else sealed g l (out\<lparr>oRowIndices := indices\<rparr>))"

subsection \<open>The sort contract\<close>

lemma ins_rev_mset: "mset (ins_rev lt x ys) = add_mset x (mset ys)"
  by (induction ys) auto

lemma SliceStable_mset [simp]: "mset (SliceStable lt xs) = mset xs"
proof -
  have "mset (fold (ins_rev lt) xs acc) = mset xs + mset acc" for acc
    by (induction xs arbitrary: acc) (simp_all add: ins_rev_mset)
  then show ?thesis by (simp add: SliceStable_def)
qed

lemma SliceStable_set [simp]: "set (SliceStable lt xs) = set xs"
  by (metis SliceStable_mset set_mset_mset)

lemma SliceStable_length [simp]: "length (SliceStable lt xs) = length xs"
  by (metis SliceStable_mset size_mset)

text \<open>
  What \<^verbatim>\<open>sort.SliceStable\<close> asks of its comparison on the elements it sees, and what it then
  promises: a sorted, stable permutation.
\<close>

locale strict_weak =
  fixes S :: "'a set" and lt :: "'a \<Rightarrow> 'a \<Rightarrow> bool"
  assumes asym: "x \<in> S \<Longrightarrow> y \<in> S \<Longrightarrow> lt x y \<Longrightarrow> \<not> lt y x"
    and neg_trans: "x \<in> S \<Longrightarrow> y \<in> S \<Longrightarrow> z \<in> S \<Longrightarrow> lt x z \<Longrightarrow> lt x y \<or> lt y z"
begin

definition tied :: "'a \<Rightarrow> 'a \<Rightarrow> bool" where
  "tied z y \<longleftrightarrow> \<not> lt z y \<and> \<not> lt y z"

lemma ins_rev_set: "set (ins_rev lt x ys) = insert x (set ys)"
  by (induction ys) auto

lemma ins_rev_sorted:
  assumes "sorted_wrt (\<lambda>a b. \<not> lt a b) ys" "x \<in> S" "set ys \<subseteq> S"
  shows "sorted_wrt (\<lambda>a b. \<not> lt a b) (ins_rev lt x ys)"
  using assms
proof (induction ys)
  case (Cons y ys)
  then show ?case
    using asym [of x y] neg_trans [of x y] by (auto simp: ins_rev_set)
qed simp

lemma ins_rev_stable:
  assumes "x \<in> S" "set ys \<subseteq> S" "z \<in> S"
  shows "filter (tied z) (ins_rev lt x ys) = filter (tied z) (x # ys)"
  using assms
proof (induction ys)
  case (Cons y ys)
  have "\<not> (tied z x \<and> tied z y)" if "lt x y"
    using neg_trans [of x z y] that Cons.prems by (auto simp: tied_def)
  with Cons show ?case by auto
qed simp

lemma fold_ins:
  assumes "set xs \<subseteq> S" "set acc \<subseteq> S" "sorted_wrt (\<lambda>a b. \<not> lt a b) acc"
  shows "sorted_wrt (\<lambda>a b. \<not> lt a b) (fold (ins_rev lt) xs acc)
    \<and> (\<forall>z \<in> S. filter (tied z) (fold (ins_rev lt) xs acc) = rev (filter (tied z) xs) @ filter (tied z) acc)"
  using assms
proof (induction xs arbitrary: acc)
  case (Cons x xs)
  then have "sorted_wrt (\<lambda>a b. \<not> lt a b) (ins_rev lt x acc)" "set (ins_rev lt x acc) \<subseteq> S"
    by (auto simp: ins_rev_sorted ins_rev_set)
  with Cons.IH [of "ins_rev lt x acc"] Cons.prems ins_rev_stable [of x acc] show ?case by auto
qed simp

lemma stable_sorted:
  assumes "set xs \<subseteq> S"
  shows "sorted_wrt (\<lambda>a b. \<not> lt b a) (SliceStable lt xs)"
    and "z \<in> S \<Longrightarrow> filter (tied z) (SliceStable lt xs) = filter (tied z) xs"
  using fold_ins [of xs "[]"] assms
  by (auto simp: SliceStable_def sorted_wrt_rev rev_filter [symmetric])

text \<open>The least element comes first.\<close>

lemma head_least:
  assumes "set xs \<subseteq> S" "xs \<noteq> []" "x \<in> set (SliceStable lt xs)"
  shows "\<not> lt x (SliceStable lt xs ! 0)"
proof -
  obtain y ys where y: "SliceStable lt xs = y # ys"
    using assms(2) SliceStable_length [of lt xs] by (cases "SliceStable lt xs") auto
  have "y \<in> S" using assms(1) SliceStable_set [of lt xs] y by auto
  then have "\<not> lt y y" using asym by blast
  with stable_sorted(1) [OF assms(1)] assms(3) y show ?thesis by auto
qed

end

subsection \<open>Row order\<close>

definition row_indexes :: "data \<Rightarrow> int list" where
  "row_indexes d = map int [0 ..< length (dataRows d)]"

lemma orderedRows_mset: "mset (orderedRows g d m) = mset (row_indexes d)"
  by (simp add: orderedRows_def row_indexes_def Let_def)

lemma orderedRows_set: "set (orderedRows g d m) = {0 ..< int (length (dataRows d))}"
proof -
  have "set (orderedRows g d m) = set (row_indexes d)"
    using orderedRows_mset by (metis set_mset_mset)
  also have "\<dots> = {0 ..< int (length (dataRows d))}"
    by (simp add: row_indexes_def image_int_atLeastLessThan)
  finally show ?thesis .
qed

lemma orderedRows_length [simp]: "length (orderedRows g d m) = length (dataRows d)"
  by (metis orderedRows_mset size_mset length_map row_indexes_def length_upt diff_zero)

text \<open>
  The comparison of one sort column is comparison of keys when its texts are numbers, or are not
  times, or are all readable times.
\<close>

definition sortable :: "golib \<Rightarrow> data \<Rightarrow> order \<Rightarrow> bool" where
  "sortable g d x \<longleftrightarrow>
     (let col = columnIndex (dataColumns d) (ordColumn x) in
      colType (index (dataColumns d) col) = ''temporal'' \<longrightarrow>
      (\<forall>row \<in> set (dataRows d). cellNull (index row col) \<or> temporal g (cellValue (index row col)) \<noteq> None))"

definition lex_less :: "('a \<Rightarrow> 'a \<Rightarrow> bool) \<Rightarrow> ('a \<Rightarrow> 'a \<Rightarrow> bool) \<Rightarrow> 'a \<Rightarrow> 'a \<Rightarrow> bool" where
  "lex_less f h a b \<longleftrightarrow> f a b \<or> \<not> f b a \<and> h a b"

lemma strict_weak_lex:
  assumes "strict_weak S f" "strict_weak S h"
  shows "strict_weak S (lex_less f h)"
proof
  fix x y z assume x: "x \<in> S" and y: "y \<in> S"
  { assume "lex_less f h x y"
    then show "\<not> lex_less f h y x"
      using strict_weak.asym [OF assms(1) x y] strict_weak.asym [OF assms(2) x y] by (auto simp: lex_less_def) }
  { assume z: "z \<in> S" and "lex_less f h x z"
    then show "lex_less f h x y \<or> lex_less f h y z"
      using strict_weak.neg_trans [OF assms(1) x y z] strict_weak.neg_trans [OF assms(2) x y z]
        strict_weak.neg_trans [OF assms(1) y x z] strict_weak.neg_trans [OF assms(1) z x y]
        strict_weak.neg_trans [OF assms(1) z y x] strict_weak.neg_trans [OF assms(1) y z x]
        strict_weak.asym [OF assms(1) x y] strict_weak.asym [OF assms(1) y z] strict_weak.asym [OF assms(1) x z]
      by (auto simp: lex_less_def) }
qed

lemma sign_cmp_simps [simp]:
  "sign_cmp a b = 0 \<longleftrightarrow> a = b" "sign_cmp a b < 0 \<longleftrightarrow> a < b" "0 < sign_cmp a b \<longleftrightarrow> b < a"
  by (auto simp: sign_cmp_def)

lemma key_strict_weak:
  fixes key :: "'a \<Rightarrow> 'k::linorder"
  assumes "\<And>a b. a \<in> S \<Longrightarrow> b \<in> S \<Longrightarrow> \<not> null a \<Longrightarrow> \<not> null b \<Longrightarrow> cmp a b = sign_cmp (key a) (key b)"
  shows "strict_weak S (\<lambda>a b. if null a \<noteq> null b then \<not> null a
           else \<not> null a \<and> (if desc then cmp a b > (0::int) else cmp a b < 0))"
  by unfold_locales (auto simp: assms split: if_splits)

lemma strict_weak_cong:
  assumes "strict_weak S f" "\<And>x y. x \<in> S \<Longrightarrow> y \<in> S \<Longrightarrow> h x y = f x y"
  shows "strict_weak S h"
  using assms(1) by (simp add: strict_weak_def assms(2))

definition column_less ::
  "('a \<Rightarrow> bool) \<Rightarrow> ('a \<Rightarrow> 'a \<Rightarrow> int) \<Rightarrow> bool \<Rightarrow> ('a \<Rightarrow> 'a \<Rightarrow> bool) \<Rightarrow> 'a \<Rightarrow> 'a \<Rightarrow> bool" where
  "column_less null cmp desc rest a b =
     (if null a \<noteq> null b then \<not> null a
      else if null a then rest a b
      else if cmp a b = 0 then rest a b
      else if desc then cmp a b > 0 else cmp a b < 0)"

lemma column_less_strict_weak:
  fixes key :: "'a \<Rightarrow> 'k::linorder"
  assumes key: "\<And>a b. a \<in> S \<Longrightarrow> b \<in> S \<Longrightarrow> \<not> null a \<Longrightarrow> \<not> null b \<Longrightarrow> cmp a b = sign_cmp (key a) (key b)"
    and rest: "strict_weak S rest"
  shows "strict_weak S (column_less null cmp desc rest)"
proof (rule strict_weak_cong [OF strict_weak_lex [OF key_strict_weak [OF key, where desc = desc] rest]])
  fix x y assume "x \<in> S" "y \<in> S"
  then show "column_less null cmp desc rest x y =
    lex_less (\<lambda>a b. if null a \<noteq> null b then \<not> null a
           else \<not> null a \<and> (if desc then cmp a b > 0 else cmp a b < 0)) rest x y"
    by (auto simp: column_less_def lex_less_def key not_less)
qed

lemma row_less_strict_weak:
  assumes "\<forall>x \<in> set xs. sortable g d x"
  shows "strict_weak {0 ..< int (length (dataRows d))}
    (\<lambda>i j. row_less g d xs (index (dataRows d) i) (index (dataRows d) j))"
  using assms
proof (induction xs)
  case Nil
  then show ?case by (simp add: strict_weak_def)
next
  case (Cons x xs)
  let ?S = "{0 ..< int (length (dataRows d))}" and ?col = "columnIndex (dataColumns d) (ordColumn x)"
  let ?ty = "colType (index (dataColumns d) ?col)"
  let ?cell = "\<lambda>i. index (index (dataRows d) i) ?col"
  let ?null = "\<lambda>i. cellNull (?cell i)"
  let ?cmp = "\<lambda>i j. compare_text g (cellValue (?cell i)) (cellValue (?cell j)) ?ty"
  let ?rest = "\<lambda>i j. row_less g d xs (index (dataRows d) i) (index (dataRows d) j)"
  have rest: "strict_weak ?S ?rest" using Cons by simp
  have "strict_weak ?S (column_less ?null ?cmp (Direction x = ''desc'') ?rest)"
  proof (cases "numeric ?ty")
    case True
    then show ?thesis
      by (intro column_less_strict_weak [where key = "\<lambda>i. decimal_rat (cellValue (?cell i))"] rest)
         (simp add: compare_text_def)
  next
    case num: False
    show ?thesis
    proof (cases "?ty = ''temporal''")
      case True
      have t: "\<exists>y. temporal g (cellValue (?cell i)) = Some y" if "i \<in> ?S" "\<not> ?null i" for i
      proof -
        have "index (dataRows d) i \<in> set (dataRows d)" using that(1) by (simp add: index_def nat_less_iff)
        then show ?thesis using Cons.prems that(2) True by (auto simp: sortable_def Let_def)
      qed
      show ?thesis
      proof (intro column_less_strict_weak [where key = "\<lambda>i. the (temporal g (cellValue (?cell i)))"] rest)
        fix a b assume "a \<in> ?S" "b \<in> ?S" "\<not> ?null a" "\<not> ?null b"
        then obtain y z where "temporal g (cellValue (?cell a)) = Some y" "temporal g (cellValue (?cell b)) = Some z"
          using t by blast
        then show "?cmp a b = sign_cmp (the (temporal g (cellValue (?cell a)))) (the (temporal g (cellValue (?cell b))))"
          using num True by (simp add: compare_text_def)
      qed
    next
      case False
      with num show ?thesis
        by (intro column_less_strict_weak [where key = "\<lambda>i. cellValue (?cell i)"] rest) (simp add: compare_text_def)
    qed
  qed
  then show ?case
    by (rule strict_weak_cong) (simp add: column_less_def Let_def)
qed

lemma row_order_strict_weak:
  "strict_weak (if \<forall>x \<in> set xs. sortable g d x then {0 ..< int (length (dataRows d))} else {})
    (\<lambda>i j. row_less g d xs (index (dataRows d) i) (index (dataRows d) j))"
proof (cases "\<forall>x \<in> set xs. sortable g d x")
  case True
  from row_less_strict_weak [OF this] show ?thesis unfolding if_P [OF True] .
next
  case False
  show ?thesis unfolding if_not_P [OF False] by unfold_locales simp_all
qed

interpretation rows: strict_weak "if \<forall>x \<in> set xs. sortable g d x then {0 ..< int (length (dataRows d))} else {}"
    "\<lambda>i j. row_less g d xs (index (dataRows d) i) (index (dataRows d) j)" for g d xs
  by (rule row_order_strict_weak)


definition offset_lib :: golib where
  "offset_lib = sample_lib\<lparr>time_Parse := (\<lambda>layout s.
     if layout = temporal_layouts ! 0 \<and> s = ''2023-12-31T23:00:00-05:00'' then Some (1704081600 * second)
     else if layout = temporal_layouts ! 3 \<and> s = ''2024-01-01'' then Some (1704067200 * second) else None)\<rparr>"

text \<open>
  Without that condition the comparison is not an order: a text that is no time is compared
  as text with its neighbours, and three texts can follow each other in a circle.
\<close>

theorem temporal_order_cycle:
  "compare_text offset_lib ''2023-12-31T23:00:00-05:00'' ''2023-unknown'' ''temporal'' < 0
   \<and> compare_text offset_lib ''2023-unknown'' ''2024-01-01'' ''temporal'' < 0
   \<and> compare_text offset_lib ''2024-01-01'' ''2023-12-31T23:00:00-05:00'' ''temporal'' < 0"
  by code_simp

subsection \<open>Totals\<close>

definition present_cells :: "data \<Rightarrow> string \<Rightarrow> cell list list \<Rightarrow> cell list" where
  "present_cells d x rows = filter (\<lambda>c. \<not> cellNull c) (map (\<lambda>row. at_cell d row x) rows)"

definition decimal_scale :: "string \<Rightarrow> nat" where
  "decimal_scale s = (case decimal s of Inr (_, k) \<Rightarrow> k | Inl _ \<Rightarrow> 0)"

definition cells_sum :: "cell list \<Rightarrow> rat" where
  "cells_sum cs = (\<Sum>c\<leftarrow>cs. decimal_rat (cellValue c))"

definition cells_scale :: "cell list \<Rightarrow> nat" where
  "cells_scale cs = fold (\<lambda>c k. max k (decimal_scale (cellValue c))) cs 0"

lemma total_fold:
  assumes "fold_res (total_step d x) rows (s, k, n) = Inr (s', k', n')" "fraction_at k s"
  shows "s' = s + cells_sum (present_cells d x rows)
    \<and> k' = fold (\<lambda>c k. max k (decimal_scale (cellValue c))) (present_cells d x rows) k
    \<and> n' = n + length (present_cells d x rows) \<and> fraction_at k' s'"
  using assms
proof (induction rows arbitrary: s k n)
  case Nil
  then show ?case by (simp add: present_cells_def cells_sum_def)
next
  case (Cons row rows)
  let ?v = "at_cell d row x"
  show ?case
  proof (cases "cellNull ?v")
    case True
    with Cons show ?thesis by (auto simp: total_step_def [of d x row] Let_def present_cells_def)
  next
    case False
    from Cons.prems(1) False obtain r sc where d: "decimal (cellValue ?v) = Inr (r, sc)"
      and rest: "fold_res (total_step d x) rows (s + r, max k sc, n + 1) = Inr (s', k', n')"
      by (auto simp: total_step_def [of d x row] Let_def max_def split: if_splits)
    have "fraction_at (max k sc) (s + r)"
      using Cons.prems(2) decimal_fraction [OF d] by (auto intro!: fraction_at_add elim!: fraction_at_mono)
    note ih = Cons.IH [OF rest this]
    have "present_cells d x (row # rows) = ?v # present_cells d x rows" using False by (simp add: present_cells_def)
    moreover have "decimal_rat (cellValue ?v) = r" "decimal_scale (cellValue ?v) = sc"
      using d by (simp_all add: decimal_rat_def decimal_scale_def)
    ultimately show ?thesis using ih by (simp only: cells_sum_def) auto
  qed
qed

definition exact_total :: "data \<Rightarrow> column \<Rightarrow> total_row \<Rightarrow> bool" where
  "exact_total d c t \<longleftrightarrow>
     (let cs = present_cells d (colID c) (dataRows d) in
      totColumn t = colID c \<and> totScope t = resultScope d \<and> cellNull (totValue t) = (cs = [])
      \<and> (cs \<noteq> [] \<longrightarrow> decimal_body (cellValue (totValue t)) = Inr (cells_sum cs, cells_scale cs)))"

lemma column_total_exact:
  assumes "column_total d c = Inr t"
  shows "exact_total d c t"
proof -
  let ?cs = "present_cells d (colID c) (dataRows d)"
  from assms obtain s k n where f: "fold_res (total_step d (colID c)) (dataRows d) (0, 0, 0) = Inr (s, k, n)"
    and t: "t = \<lparr>totColumn = colID c,
      totValue = \<lparr>cellNull = (n = 0), cellValue = (if n > 0 then FloatString s k else [])\<rparr>, totScope = resultScope d\<rparr>"
    by (auto simp: column_total_def)
  have r: "s = cells_sum ?cs" "k = cells_scale ?cs" "n = length ?cs" "fraction_at k s"
    using total_fold [OF f fraction_at_0] unfolding cells_scale_def add_0 by blast+
  from r(4) have "decimal_body (FloatString s k) = Inr (s, k)"
    using FloatString_decimal by (auto simp: fraction_at_def)
  with r t show ?thesis by (simp add: exact_total_def Let_def)
qed

lemma totals_fold:
  assumes "totals d cols = Inr ts"
  shows "list_all2 (exact_total d) (filter additive cols) ts"
proof -
  have "fold_res (\<lambda>c acc. if \<not> additive c then Inr acc
      else case column_total d c of Inl err \<Rightarrow> Inl err | Inr t \<Rightarrow> Inr (acc @ [t])) cs acc = Inr ts \<Longrightarrow>
    list_all2 (exact_total d) as acc \<Longrightarrow> list_all2 (exact_total d) (as @ filter additive cs) ts" for as cs acc
  proof (induction cs arbitrary: as acc)
    case (Cons c cs)
    show ?case
    proof (cases "additive c")
      case True
      with Cons.prems obtain t where t: "column_total d c = Inr t" by auto
      with True Cons.prems column_total_exact [OF t] Cons.IH [of "acc @ [t]" "as @ [c]"] show ?thesis
        by (simp add: list_all2_appendI)
    qed (use Cons in simp)
  qed simp
  from this [of cols "[]" "[]"] assms show ?thesis by (simp add: totals_def)
qed


subsection \<open>Scalar charts\<close>

definition plotted :: "data \<Rightarrow> mapping \<Rightarrow> int \<Rightarrow> point \<Rightarrow> bool" where
  "plotted d m i p \<longleftrightarrow>
     (let row = index (dataRows d) i; b = mBindings m in
      pRow p = i \<and> pCategory p = at_cell d row (bCategory b) \<and> pSeries p = at_cell d row (bSeries b)
      \<and> pParent p = at_cell d row (bParent b) \<and> plot_value d row (bValue b) = Inr (pValue p)
      \<and> plot_value d row (bX b) = Inr (pX p) \<and> plot_value d row (bY b) = Inr (pY p))"

definition kept_rows :: "data \<Rightarrow> mapping \<Rightarrow> int list \<Rightarrow> int list" where
  "kept_rows d m is = filter (\<lambda>i. \<not> omitted d (index (dataRows d) i) m) is"

definition project_row :: "data \<Rightarrow> mapping \<Rightarrow> int \<Rightarrow> cell list" where
  "project_row d m i = map (at_cell d (index (dataRows d) i)) (bColumns (mBindings m))"

lemma build_fold:
  assumes "fold_res (build_step d m) is (out, f) = Inr (out', f')"
  shows "\<exists>ps. oPoints out' = oPoints out @ ps
      \<and> (mKind m \<noteq> Table \<longrightarrow> oRows out' = oRows out \<and> list_all2 (plotted d m) (kept_rows d m is) ps)
      \<and> (mKind m = Table \<longrightarrow> oRows out' = oRows out @ map (project_row d m) is)
      \<and> oOmittedRows out' + int (length (kept_rows d m is)) = oOmittedRows out + int (length is)
      \<and> oMapping out' = oMapping out \<and> oInputRows out' = oInputRows out"
  using assms
proof (induction "is" arbitrary: out f)
  case Nil
  then show ?case by (simp add: kept_rows_def)
next
  case (Cons i "is")
  from Cons.prems obtain out1 f1 where s: "build_step d m i (out, f) = Inr (out1, f1)"
    and rest: "fold_res (build_step d m) is (out1, f1) = Inr (out', f')" by auto
  from Cons.IH [OF rest] obtain ps where ps: "oPoints out' = oPoints out1 @ ps"
      "mKind m \<noteq> Table \<longrightarrow> oRows out' = oRows out1 \<and> list_all2 (plotted d m) (kept_rows d m is) ps"
      "mKind m = Table \<longrightarrow> oRows out' = oRows out1 @ map (project_row d m) is"
      "oOmittedRows out' + int (length (kept_rows d m is)) = oOmittedRows out1 + int (length is)"
      "oMapping out' = oMapping out1 \<and> oInputRows out' = oInputRows out1" by blast
  let ?row = "index (dataRows d) i"
  consider (omit) "omitted d ?row m" | (table) "\<not> omitted d ?row m" "mKind m = Table"
    | (plot) "\<not> omitted d ?row m" "mKind m \<noteq> Table" by blast
  then show ?case
  proof cases
    case omit
    then have "mKind m \<noteq> Table" by (auto simp: omitted_def Let_def)
    with omit s ps show ?thesis by (auto simp: build_step_def Let_def kept_rows_def)
  next
    case table
    with s ps show ?thesis by (auto simp: build_step_def Let_def kept_rows_def project_row_def)
  next
    case plot
    with s obtain v x y where "out1 = out\<lparr>oPoints := oPoints out @ [scalar_point d m i v x y]\<rparr>"
      "plotted d m i (scalar_point d m i v x y)"
      by (auto simp: build_step_def plotted_def scalar_point_def Let_def)
    with plot ps show ?thesis by (intro exI [of _ "scalar_point d m i v x y # ps"]) (auto simp: kept_rows_def)
  qed
qed

lemma sealed_Inr: "sealed g l out = Inr out' \<longleftrightarrow> out' = out \<and> json_len g (output_json out) \<le> MaxBytes l * 4"
  by (auto simp: sealed_def)

lemma Build_Inr:
  assumes "Build g d m l = Inr out"
  shows "ValidateMapping g d m l = Inr ()"
    and "mVersion m = Version \<Longrightarrow> \<not> richBindings (mKind m) (mBindings m) \<and> buildScalar g d m l = Inr out"
    and "mVersion m = RichVersion \<Longrightarrow> richBindings (mKind m) (mBindings m) \<and> buildRich g d m l = Inr out"
proof -
  have v: "ValidateMapping g d m l = Inr ()" and
    b: "(if mVersion m = DisplayVersion then buildDisplay g d m l
         else if richBindings (mKind m) (mBindings m) then buildRich g d m l else buildScalar g d m l) = Inr out"
    using assms by (auto simp: Build_def)
  from v show "ValidateMapping g d m l = Inr ()" .
  from ValidateMapping_Inr(2) [OF v] obtain e where "validateSlots m e = Inr ()" by (rule validateMapping_Inr)
  then have "mVersion m = Version \<Longrightarrow> \<not> richBindings (mKind m) (mBindings m)"
    and "mVersion m = RichVersion \<Longrightarrow> richBindings (mKind m) (mBindings m)"
    by (auto simp: validateSlots_def scalar_slots_def rich_slots_def Version_def RichVersion_def DisplayVersion_def Let_def
        split: if_splits)
  with b show "mVersion m = Version \<Longrightarrow> \<not> richBindings (mKind m) (mBindings m) \<and> buildScalar g d m l = Inr out"
    and "mVersion m = RichVersion \<Longrightarrow> richBindings (mKind m) (mBindings m) \<and> buildRich g d m l = Inr out"
    by (auto simp: Version_def RichVersion_def DisplayVersion_def)
qed


subsection \<open>Rich charts\<close>

lemma budget_take_out: "budget_take g l j s = Inr t \<Longrightarrow> rbOut t = rbOut s"
  by (auto simp: budget_take_def)

text \<open>The parts of the output that the point builders leave alone.\<close>

definition frame :: "chart_output \<Rightarrow> cell list list \<times> int list \<times> mapping \<times> int" where
  "frame out = (oRows out, oRowIndices out, oMapping out, oInputRows out)"

lemma frame_simps [simp]:
  "frame (add_point p out) = frame out" "frame (omit_row out) = frame out" "frame (upd_trans f out) = frame out"
  "oPoints (add_point p out) = oPoints out @ [p]" "oPoints (omit_row out) = oPoints out"
  "oPoints (upd_trans f out) = oPoints out" "oOmittedRows (add_point p out) = oOmittedRows out"
  "oOmittedRows (omit_row out) = oOmittedRows out + 1" "oOmittedRows (upd_trans f out) = oOmittedRows out"
  "oSeries (add_point p out) = oSeries out" "oSeries (omit_row out) = oSeries out" "oSeries (upd_trans f out) = oSeries out"
  "oHierarchy (add_point p out) = oHierarchy out" "oHierarchy (omit_row out) = oHierarchy out"
  "oHierarchy (upd_trans f out) = oHierarchy out"
  by (simp_all add: frame_def add_point_def omit_row_def upd_trans_def)

lemma add_series_Inr:
  assumes "add_series g l x s = Inr t"
  shows "frame (rbOut t) = frame (rbOut s) \<and> oSeries (rbOut t) = oSeries (rbOut s) @ [x]
    \<and> oPoints (rbOut t) = oPoints (rbOut s) \<and> oOmittedRows (rbOut t) = oOmittedRows (rbOut s)
    \<and> oHierarchy (rbOut t) = oHierarchy (rbOut s)"
  using assms by (auto simp: add_series_def frame_def dest!: budget_take_out)

lemma add_series_fold:
  assumes "fold_res (add_series g l) xs s = Inr t"
  shows "frame (rbOut t) = frame (rbOut s) \<and> oSeries (rbOut t) = oSeries (rbOut s) @ xs
    \<and> oPoints (rbOut t) = oPoints (rbOut s) \<and> oOmittedRows (rbOut t) = oOmittedRows (rbOut s)"
  using assms
proof (induction xs arbitrary: s)
  case (Cons x xs)
  then obtain u where "add_series g l x s = Inr u" "fold_res (add_series g l) xs u = Inr t" by auto
  with Cons.IH [of u] add_series_Inr [of g l x s u] show ?case by simp
qed simp

definition value_point :: "golib \<Rightarrow> data \<Rightarrow> mapping \<Rightarrow> int \<Rightarrow> string \<Rightarrow> point" where
  "value_point g d m i msr = measure_point g d m i msr (projr (numberValue (at_cell d (row_at d i) msr)))"

definition complete_rows :: "data \<Rightarrow> mapping \<Rightarrow> int list \<Rightarrow> int list" where
  "complete_rows d m is = filter (\<lambda>i. \<not> coordinateMissing d (row_at d i) (richCoordinates m)) is"

definition measure_points :: "golib \<Rightarrow> data \<Rightarrow> mapping \<Rightarrow> int list \<Rightarrow> point list" where
  "measure_points g d m is =
     concat (map (\<lambda>i. map (value_point g d m i) (valueIDs (mBindings m))) (complete_rows d m is))"

definition pkey :: "point \<Rightarrow> string \<times> string" where
  "pkey p = (pCategoryKey p, pSeriesID p)"

abbreviation mbOut :: "measure_build \<Rightarrow> chart_output" where
  "mbOut s \<equiv> rbOut (mbBuild s)"

text \<open>What consuming the points \<open>ps\<close> does to the state: bars draw them, lines remember them.\<close>

definition consumed :: "mapping \<Rightarrow> point list \<Rightarrow> measure_build \<Rightarrow> measure_build \<Rightarrow> bool" where
  "consumed m ps s t \<longleftrightarrow>
     frame (mbOut t) = frame (mbOut s) \<and> oSeries (mbOut t) = oSeries (mbOut s) \<and>
     (if is_line m
      then oPoints (mbOut t) = oPoints (mbOut s) \<and>
           mbObservations t = fold (\<lambda>p. AList.update (pkey p) p) ps (mbObservations s)
      else oPoints (mbOut t) = oPoints (mbOut s) @ ps)"

lemma consumed_trans: "consumed m ps s t \<Longrightarrow> consumed m qs t u \<Longrightarrow> consumed m (ps @ qs) s u"
  by (auto simp: consumed_def split: if_splits)

lemma observe_Inr:
  assumes "observe g d m l i msr s = Inr t"
  shows "consumed m [value_point g d m i msr] s t" and "oOmittedRows (mbOut t) = oOmittedRows (mbOut s)"
    and "mbCategories t = mbCategories s" and "is_ok (numberValue (at_cell d (row_at d i) msr))"
  using assms
  by (auto simp: observe_def consumed_def value_point_def pkey_def Let_def dest!: budget_take_out)

lemma observe_fold:
  assumes "fold_res (observe g d m l i) ms s = Inr t"
  shows "consumed m (map (value_point g d m i) ms) s t \<and> oOmittedRows (mbOut t) = oOmittedRows (mbOut s)
    \<and> mbCategories t = mbCategories s"
  using assms
proof (induction ms arbitrary: s)
  case Nil
  then show ?case by (simp add: consumed_def)
next
  case (Cons x ms)
  then obtain u where u: "observe g d m l i x s = Inr u" "fold_res (observe g d m l i) ms u = Inr t" by auto
  from Cons.IH [OF u(2)] observe_Inr [OF u(1)] consumed_trans [of m "[value_point g d m i x]" s u] show ?case by auto
qed

definition category_keys :: "golib \<Rightarrow> data \<Rightarrow> mapping \<Rightarrow> int list \<Rightarrow> string set" where
  "category_keys g d m is = (\<lambda>i. identityKey g d (row_at d i) [bCategory (mBindings m)]) ` set (complete_rows d m is)"

lemma measure_row_Inr:
  assumes "measure_row g d m l i s = Inr t"
  shows "consumed m (measure_points g d m [i]) s t
    \<and> oOmittedRows (mbOut t) + int (length (complete_rows d m [i])) = oOmittedRows (mbOut s) + 1
    \<and> fst ` set (mbCategories t) = fst ` set (mbCategories s) \<union> category_keys g d m [i]
    \<and> (distinct (map fst (mbCategories s)) \<longrightarrow> distinct (map fst (mbCategories t)))"
proof (cases "coordinateMissing d (row_at d i) (richCoordinates m)")
  case True
  with assms show ?thesis
    by (auto simp: measure_row_def consumed_def measure_points_def complete_rows_def category_keys_def Let_def)
next
  case False
  let ?key = "identityKey g d (row_at d i) [bCategory (mBindings m)]"
  define cats where "cats = (if ?key \<in> fst ` set (mbCategories s) then mbCategories s
    else mbCategories s @ [(?key, at_cell d (row_at d i) (bCategory (mBindings m)))])"
  from assms False have f: "fold_res (observe g d m l i) (valueIDs (mBindings m)) (s\<lparr>mbCategories := cats\<rparr>) = Inr t"
    by (simp add: measure_row_def cats_def Let_def)
  have c: "consumed m ps (s\<lparr>mbCategories := cats\<rparr>) t = consumed m ps s t" for ps
    by (simp add: consumed_def)
  have k: "fst ` set cats = fst ` set (mbCategories s) \<union> {?key}"
    "distinct (map fst (mbCategories s)) \<longrightarrow> distinct (map fst cats)"
    by (auto simp: cats_def)
  from observe_fold [OF f] c k False show ?thesis
    by (simp add: measure_points_def complete_rows_def category_keys_def)
qed

lemma measure_rows_fold:
  assumes "fold_res (measure_row g d m l) is s = Inr t"
  shows "consumed m (measure_points g d m is) s t
    \<and> oOmittedRows (mbOut t) + int (length (complete_rows d m is)) = oOmittedRows (mbOut s) + int (length is)
    \<and> fst ` set (mbCategories t) = fst ` set (mbCategories s) \<union> category_keys g d m is
    \<and> (distinct (map fst (mbCategories s)) \<longrightarrow> distinct (map fst (mbCategories t)))"
  using assms
proof (induction "is" arbitrary: s)
  case Nil
  then show ?case by (simp add: consumed_def measure_points_def complete_rows_def category_keys_def)
next
  case (Cons i "is")
  then obtain u where u: "measure_row g d m l i s = Inr u" "fold_res (measure_row g d m l) is u = Inr t" by auto
  have split: "measure_points g d m (i # is) = measure_points g d m [i] @ measure_points g d m is"
    "complete_rows d m (i # is) = complete_rows d m [i] @ complete_rows d m is"
    "category_keys g d m (i # is) = category_keys g d m [i] \<union> category_keys g d m is"
    by (auto simp: measure_points_def complete_rows_def category_keys_def)
  note a = measure_row_Inr [OF u(1)] and b = Cons.IH [OF u(2)]
  have "consumed m (measure_points g d m (i # is)) s t"
    unfolding split by (rule consumed_trans [OF conjunct1 [OF a] conjunct1 [OF b]])
  moreover have "oOmittedRows (mbOut t) + int (length (complete_rows d m (i # is)))
      = oOmittedRows (mbOut s) + int (length (i # is))"
    unfolding split using a b by simp
  moreover have "fst ` set (mbCategories t) = fst ` set (mbCategories s) \<union> category_keys g d m (i # is)"
    unfolding split using a b by (simp only: Un_assoc)
  ultimately show ?case using a b by blast
qed

definition drawn_point :: "((string \<times> string) \<times> point) list \<Rightarrow> series_definition \<times> string \<times> cell \<Rightarrow> point" where
  "drawn_point obs sc = (case map_of obs (fst (snd sc), serID (fst sc)) of Some p \<Rightarrow> p | None \<Rightarrow> gap_point (fst sc) (snd sc))"

lemma line_fold:
  assumes "fold_res (line_point g l obs) scs s = Inr t"
  shows "frame (rbOut t) = frame (rbOut s) \<and> oSeries (rbOut t) = oSeries (rbOut s)
    \<and> oOmittedRows (rbOut t) = oOmittedRows (rbOut s) \<and> oPoints (rbOut t) = oPoints (rbOut s) @ map (drawn_point obs) scs"
  using assms
proof (induction scs arbitrary: s)
  case (Cons x xs)
  then obtain u where u: "line_point g l obs x s = Inr u" "fold_res (line_point g l obs) xs u = Inr t" by auto
  from u(1) have "frame (rbOut u) = frame (rbOut s) \<and> oSeries (rbOut u) = oSeries (rbOut s)
    \<and> oOmittedRows (rbOut u) = oOmittedRows (rbOut s) \<and> oPoints (rbOut u) = oPoints (rbOut s) @ [drawn_point obs x]"
    by (cases x)
       (auto simp: line_point_def drawn_point_def Let_def split: option.splits dest!: budget_take_out)
  with Cons.IH [OF u(2)] show ?case by simp
qed simp

text \<open>The remembered observation of a key is the last of its points.\<close>

lemma observations_find:
  "map_of (fold (\<lambda>p. AList.update (pkey p) p) ps obs) k =
     (case find (\<lambda>p. pkey p = k) (rev ps) of Some p \<Rightarrow> Some p | None \<Rightarrow> map_of obs k)"
proof (induction ps arbitrary: obs)
  case (Cons p ps)
  show ?case
    using Cons [of "AList.update (pkey p) p obs"]
    by (auto simp: update_conv' find_append split: option.splits)
qed simp

lemma rich_rows_fold:
  assumes "fold_res (rich_rows g d m l) is s = Inr t"
  shows "oRows (rbOut t) = oRows (rbOut s) @ map (\<lambda>i. map (\<lambda>c. at_cell d (row_at d i) (colID c)) (mColumns m)) is
    \<and> oRowIndices (rbOut t) = oRowIndices (rbOut s) @ is \<and> oPoints (rbOut t) = oPoints (rbOut s)
    \<and> oSeries (rbOut t) = oSeries (rbOut s) \<and> oHierarchy (rbOut t) = oHierarchy (rbOut s)
    \<and> oOmittedRows (rbOut t) = oOmittedRows (rbOut s)
    \<and> oMapping (rbOut t) = oMapping (rbOut s)"
  using assms
proof (induction "is" arbitrary: s)
  case (Cons i "is")
  then obtain u where u: "rich_rows g d m l i s = Inr u" "fold_res (rich_rows g d m l) is u = Inr t" by auto
  from u(1) Cons.IH [OF u(2)] show ?case
    by (auto simp: rich_rows_def Let_def dest!: budget_take_out)
qed simp

text \<open>The three builders behind \<open>buildRich\<close>, on the state after the rows were copied.\<close>

definition rich_points ::
  "golib \<Rightarrow> data \<Rightarrow> mapping \<Rightarrow> limits \<Rightarrow> rich_build \<Rightarrow> charts_error + rich_build" where
  "rich_points g d m l st =
     (if bHierarchy (mBindings m) \<noteq> [] then buildHierarchy g d m l (orderedRows g d m) st
      else if mKind m = Scatter then buildBubbles g d m l (orderedRows g d m) st
      else buildMeasures g d m l (orderedRows g d m) st)"

lemma buildRich_Inr:
  assumes "buildRich g d m l = Inr out"
  obtains st st' where "oPoints (rbOut st) = []" "oSeries (rbOut st) = []" "oHierarchy (rbOut st) = []" "oOmittedRows (rbOut st) = 0"
    "oRows (rbOut st) = map (\<lambda>i. map (\<lambda>c. at_cell d (row_at d i) (colID c)) (mColumns m)) (orderedRows g d m)"
    "oRowIndices (rbOut st) = orderedRows g d m"
    "rich_points g d m l st = Inr st'"
    "oPoints out = oPoints (rbOut st')" "oSeries out = oSeries (rbOut st')" "oHierarchy out = oHierarchy (rbOut st')"
    "oOmittedRows out = oOmittedRows (rbOut st')" "oRows out = oRows (rbOut st')" "oRowIndices out = oRowIndices (rbOut st')"
    "totals d (mColumns m) = Inr (oTotals out)" "json_len g (output_json out) \<le> MaxBytes l * 4"
proof -
  from assms obtain st0 st st' ts where
    s0: "budget_take g l (output_json (rich_start d m)) \<lparr>rbOut = rich_start d m, rbUsed = 1024\<rparr> = Inr st0"
    and s: "fold_res (rich_rows g d m l) (orderedRows g d m) st0 = Inr st"
    and p: "rich_points g d m l st = Inr st'" and t: "totals d (mColumns m) = Inr ts"
    and o: "out = (rich_finish d m (rbOut st'))\<lparr>oTotals := ts\<rparr>" "json_len g (output_json out) \<le> MaxBytes l * 4"
    by (auto simp: buildRich_def rich_points_def Let_def sealed_Inr)
  have "rbOut st0 = rich_start d m" using budget_take_out [OF s0] by simp
  with rich_rows_fold [OF s] have "oPoints (rbOut st) = []" "oSeries (rbOut st) = []" "oHierarchy (rbOut st) = []"
    "oOmittedRows (rbOut st) = 0"
    "oRows (rbOut st) = map (\<lambda>i. map (\<lambda>c. at_cell d (row_at d i) (colID c)) (mColumns m)) (orderedRows g d m)"
    "oRowIndices (rbOut st) = orderedRows g d m"
    by (simp_all add: rich_start_def empty_output_def)
  with that [OF this p] o t show thesis by (simp add: rich_finish_def Let_def)
qed

lemma buildMeasures_Inr:
  assumes "buildMeasures g d m l is s = Inr t" "oPoints (rbOut s) = []"
  shows "frame (rbOut t) = frame (rbOut s)
    \<and> oOmittedRows (rbOut t) + int (length (complete_rows d m is)) = oOmittedRows (rbOut s) + int (length is)
    \<and> (\<not> is_line m \<longrightarrow> oPoints (rbOut t) = measure_points g d m is)
    \<and> (is_line m \<longrightarrow> (\<exists>cats. distinct (map fst cats) \<and> fst ` set cats = category_keys g d m is
         \<and> oPoints (rbOut t) = concat (map (\<lambda>x. map (\<lambda>c.
              case find (\<lambda>p. pkey p = (fst c, serID x)) (rev (measure_points g d m is)) of
                Some p \<Rightarrow> p | None \<Rightarrow> gap_point x c) cats) (oSeries (rbOut t)))))"
proof -
  from assms(1) obtain s1 mb where
    a: "fold_res (add_series g l) (concat (map (\<lambda>msr. map (\<lambda>i. makeSeries g d (row_at d i) msr (bSeries (mBindings m)))
          (fst (fold (breakdown_step g d m) is ([], {})))) (valueIDs (mBindings m)))) s = Inr s1"
    and b: "fold_res (measure_row g d m l) is \<lparr>mbBuild = s1, mbCategories = [], mbObservations = []\<rparr> = Inr mb"
    and c: "if is_line m
      then fold_res (line_point g l (mbObservations mb))
             (concat (map (\<lambda>x. map (\<lambda>c. (x, c)) (mbCategories mb)) (oSeries (mbOut mb)))) (mbBuild mb) = Inr t
      else t = mbBuild mb"
    by (auto simp: buildMeasures_def Let_def split: if_splits)
  note A = add_series_fold [OF a] and B = measure_rows_fold [OF b, simplified]
  show ?thesis
  proof (cases "is_line m")
    case False
    with A B c assms(2) show ?thesis by (simp add: consumed_def)
  next
    case True
    note C = line_fold [OF c [unfolded if_P [OF True]]]
    have "map_of (mbObservations mb) k = find (\<lambda>p. pkey p = k) (rev (measure_points g d m is))" for k
      using B True by (simp add: consumed_def observations_find split: option.splits)
    then have "map (drawn_point (mbObservations mb)) (concat (map (\<lambda>x. map (\<lambda>c. (x, c)) (mbCategories mb)) (oSeries (mbOut mb)))) =
      concat (map (\<lambda>x. map (\<lambda>c. case find (\<lambda>p. pkey p = (fst c, serID x)) (rev (measure_points g d m is)) of
                Some p \<Rightarrow> p | None \<Rightarrow> gap_point x c) (mbCategories mb)) (oSeries (mbOut mb)))"
      by (simp add: map_concat o_def drawn_point_def cong: option.case_cong)
    with A B C True assms(2) show ?thesis by (auto simp: consumed_def)
  qed
qed



subsection \<open>Hierarchies\<close>

definition row_value :: "data \<Rightarrow> mapping \<Rightarrow> int \<Rightarrow> rat" where
  "row_value d m i = decimal_rat (cellValue (at_cell d (row_at d i) (bValue (mBindings m))))"

definition retained_rows :: "data \<Rightarrow> mapping \<Rightarrow> int list \<Rightarrow> int list" where
  "retained_rows d m is = filter (\<lambda>i. \<not> (coordinateMissing d (row_at d i) (bHierarchy (mBindings m))
     \<or> cellNull (at_cell d (row_at d i) (bValue (mBindings m))))) is"

text \<open>The invariant of one accumulator and the number of rows counted by all of them.\<close>

definition node_ok :: "data \<Rightarrow> mapping \<Rightarrow> int set \<Rightarrow> accumulated \<Rightarrow> bool" where
  "node_ok d m R a \<longleftrightarrow>
     set (hnRows (acNode a)) \<subseteq> R \<and> acSum a = (\<Sum>i\<leftarrow>hnRows (acNode a). row_value d m i)
     \<and> fraction_at (acScale a) (acSum a) \<and> hnAggregation (acNode a) \<in> {''sum'', ''identity''}
     \<and> (hnAggregation (acNode a) = ''identity'' \<longrightarrow>
          (\<exists>i \<in> set (hnRows (acNode a)). acLeaf a = at_cell d (row_at d i) (bValue (mBindings m))))"

definition counted :: "accumulated list \<Rightarrow> nat" where
  "counted as = (\<Sum>a\<leftarrow>as. length (hnRows (acNode a)))"

lemma upsert_all:
  assumes "\<forall>a \<in> set as. P a" "\<And>a. P a \<Longrightarrow> P (f a)" "P new"
  shows "\<forall>a \<in> set (upsert key new f as). P a"
  using assms by (induction as) auto

lemma upsert_counted:
  assumes "\<And>a. length (hnRows (acNode (f a))) = length (hnRows (acNode a)) + 1" "hnRows (acNode new) = []"
  shows "counted (upsert key new f as) = counted as + 1"
  using assms by (induction as) (auto simp: counted_def)

lemma accumulate_ok:
  assumes "node_ok d m R a" "i \<in> R" "decimal (cellValue cell) = Inr (r, scale)"
    and "cell = at_cell d (row_at d i) (bValue (mBindings m))"
    and "leaf = None \<or> leaf = Some cell"
  shows "node_ok d m R (accumulate i r scale leaf a)"
proof -
  have "row_value d m i = r" using assms(3,4) by (simp add: row_value_def decimal_rat_def)
  moreover have "fraction_at (if scale > acScale a then scale else acScale a) (acSum a + r)"
    using assms(1) decimal_fraction [OF assms(3)]
    by (auto simp: node_ok_def intro!: fraction_at_add elim!: fraction_at_mono)
  ultimately show ?thesis
    using assms by (cases leaf) (auto simp: node_ok_def accumulate_def Let_def)
qed

lemma new_node_ok: "node_ok d m R (new_node key parent level path)"
  by (simp add: node_ok_def new_node_def)

lemma accumulate_rows: "hnRows (acNode (accumulate i r scale leaf a)) = hnRows (acNode a) @ [i]"
  by (cases leaf) (simp_all add: accumulate_def Let_def)

lemma level_fold:
  assumes "\<forall>a \<in> set (psNodes st). node_ok d m R a" "i \<in> R" "decimal (cellValue cell) = Inr (r, scale)"
    and "cell = at_cell d (row_at d i) (bValue (mBindings m))"
  shows "(\<forall>a \<in> set (psNodes (fold (level_step g d m i cell r scale) lxs st)). node_ok d m R a)
    \<and> counted (psNodes (fold (level_step g d m i cell r scale) lxs st)) = counted (psNodes st) + length lxs"
  using assms(1)
proof (induction lxs arbitrary: st)
  case (Cons lx lxs)
  obtain level x where lx: "lx = (level, x)" by (cases lx)
  define key where "key = identityKey g d (row_at d i) (take (level + 1) (bHierarchy (mBindings m)))"
  define leaf where "leaf = (if level = length (bHierarchy (mBindings m)) - 1 then Some cell else None)"
  define new where "new = new_node key (psParent st) level (psPath st @ [at_cell d (row_at d i) x])"
  have n: "psNodes (level_step g d m i cell r scale lx st) = upsert key new (accumulate i r scale leaf) (psNodes st)"
    by (simp add: level_step_def lx key_def leaf_def new_def Let_def)
  have "\<forall>a \<in> set (psNodes (level_step g d m i cell r scale lx st)). node_ok d m R a"
    unfolding n
    by (rule upsert_all [OF Cons.prems])
       (auto simp: leaf_def new_def new_node_ok intro!: accumulate_ok [OF _ assms(2,3,4)])
  moreover have "counted (psNodes (level_step g d m i cell r scale lx st)) = counted (psNodes st) + 1"
    unfolding n by (rule upsert_counted) (simp_all add: accumulate_rows new_def new_node_def)
  ultimately show ?case using Cons.IH by simp
qed simp

lemma hierarchy_fold:
  assumes "fold_res (hierarchy_step g d m l) is (s, nodes) = Inr (t, nodes')"
    and "\<forall>a \<in> set nodes. node_ok d m R a" "set (retained_rows d m is) \<subseteq> R"
  shows "(\<forall>a \<in> set nodes'. node_ok d m R a)
    \<and> counted nodes' = counted nodes + length (bHierarchy (mBindings m)) * length (retained_rows d m is)
    \<and> frame (rbOut t) = frame (rbOut s) \<and> oHierarchy (rbOut t) = oHierarchy (rbOut s)
    \<and> oOmittedRows (rbOut t) + int (length (retained_rows d m is)) = oOmittedRows (rbOut s) + int (length is)
    \<and> (\<exists>ps. oPoints (rbOut t) = oPoints (rbOut s) @ ps \<and> map pRow ps = retained_rows d m is
         \<and> (\<forall>p \<in> set ps. numberValue (at_cell d (row_at d (pRow p)) (bValue (mBindings m))) = Inr (pValue p)))"
  using assms
proof (induction "is" arbitrary: s nodes)
  case Nil
  then show ?case by (simp add: retained_rows_def)
next
  case (Cons i "is")
  let ?h = "bHierarchy (mBindings m)" and ?cell = "at_cell d (row_at d i) (bValue (mBindings m))"
  from Cons.prems(1) obtain u nodes1 where st: "hierarchy_step g d m l i (s, nodes) = Inr (u, nodes1)"
    and rest: "fold_res (hierarchy_step g d m l) is (u, nodes1) = Inr (t, nodes')" by auto
  have sub: "set (retained_rows d m is) \<subseteq> R" using Cons.prems(3) by (auto simp: retained_rows_def)
  show ?case
  proof (cases "coordinateMissing d (row_at d i) ?h \<or> cellNull ?cell")
    case True
    with st have "u = s\<lparr>rbOut := omit_row (rbOut s)\<rparr>" "nodes1 = nodes" by (auto simp: hierarchy_step_def Let_def)
    with Cons.IH [OF rest] Cons.prems(2) sub True show ?thesis by (simp add: retained_rows_def)
  next
    case False
    from st False obtain r scale v where dec: "decimal (cellValue ?cell) = Inr (r, scale)"
      and num: "numberValue ?cell = Inr v"
      and n1: "nodes1 = psNodes (fold (level_step g d m i ?cell r scale) (List.enumerate 0 ?h)
            \<lparr>psNodes = nodes, psPath = [], psParent = []\<rparr>)"
      and out: "rbOut u = add_point (path_point m i (fold (level_step g d m i ?cell r scale) (List.enumerate 0 ?h)
            \<lparr>psNodes = nodes, psPath = [], psParent = []\<rparr>) v) (rbOut s)"
      by (auto simp: hierarchy_step_def Let_def dest!: budget_take_out)
    have kept: "retained_rows d m (i # is) = i # retained_rows d m is" using False by (simp add: retained_rows_def)
    then have "i \<in> R" using Cons.prems(3) by simp
    then have N: "(\<forall>a \<in> set nodes1. node_ok d m R a) \<and> counted nodes1 = counted nodes + length ?h"
      using level_fold [of "\<lparr>psNodes = nodes, psPath = [], psParent = []\<rparr>" d m R i ?cell r scale] Cons.prems(2) dec n1
      by simp
    then obtain ps where ih: "\<forall>a \<in> set nodes'. node_ok d m R a"
      "counted nodes' = counted nodes1 + length ?h * length (retained_rows d m is)"
      "frame (rbOut t) = frame (rbOut u)" "oHierarchy (rbOut t) = oHierarchy (rbOut u)"
      "oOmittedRows (rbOut t) + int (length (retained_rows d m is)) = oOmittedRows (rbOut u) + int (length is)"
      "oPoints (rbOut t) = oPoints (rbOut u) @ ps" "map pRow ps = retained_rows d m is"
      "\<forall>p \<in> set ps. numberValue (at_cell d (row_at d (pRow p)) (bValue (mBindings m))) = Inr (pValue p)"
      using Cons.IH [OF rest _ sub] by blast
    define p where "p = path_point m i (fold (level_step g d m i ?cell r scale) (List.enumerate 0 ?h)
            \<lparr>psNodes = nodes, psPath = [], psParent = []\<rparr>) v"
    have "pRow p = i" "pValue p = v" by (simp_all add: p_def path_point_def emptyPoint_def Let_def)
    with ih N out kept num show ?thesis
      by (auto simp: p_def [symmetric] intro!: exI [of _ "p # ps"])
  qed
qed

definition node_value :: "accumulated \<Rightarrow> hierarchy_node \<Rightarrow> bool" where
  "node_value a n \<longleftrightarrow> hnRows n = hnRows (acNode a) \<and> hnAggregation n = hnAggregation (acNode a)
     \<and> hnDepth n = hnDepth (acNode a) \<and> numberValue
       (if hnAggregation (acNode a) = ''sum''
        then \<lparr>cellNull = False, cellValue = FloatString (acSum a) (acScale a)\<rparr> else acLeaf a) = Inr (hnValue n)"

lemma node_fold:
  assumes "fold_res (node_step g l) as s = Inr t"
  shows "frame (rbOut t) = frame (rbOut s) \<and> oPoints (rbOut t) = oPoints (rbOut s)
    \<and> oOmittedRows (rbOut t) = oOmittedRows (rbOut s)
    \<and> (\<exists>ns. oHierarchy (rbOut t) = oHierarchy (rbOut s) @ ns \<and> list_all2 node_value as ns)"
  using assms
proof (induction as arbitrary: s)
  case (Cons a as)
  then obtain u where u: "node_step g l a s = Inr u" "fold_res (node_step g l) as u = Inr t" by auto
  from u(1) obtain v where n: "frame (rbOut u) = frame (rbOut s)" "oPoints (rbOut u) = oPoints (rbOut s)"
    "oOmittedRows (rbOut u) = oOmittedRows (rbOut s)"
    "oHierarchy (rbOut u) = oHierarchy (rbOut s) @ [(acNode a)\<lparr>hnValue := v\<rparr>]"
    "node_value a ((acNode a)\<lparr>hnValue := v\<rparr>)"
    by (auto simp: node_step_def node_value_def frame_def Let_def dest!: budget_take_out)
  from Cons.IH [OF u(2)] obtain ns where "oHierarchy (rbOut t) = oHierarchy (rbOut u) @ ns" "list_all2 node_value as ns"
    by blast
  with n Cons.IH [OF u(2)] show ?case by (auto intro!: exI [of _ "(acNode a)\<lparr>hnValue := v\<rparr> # ns"])
qed simp

lemma node_value_exact:
  assumes "node_value a n" "node_ok d m R a"
  shows "set (hnRows n) \<subseteq> R \<and>
     (if hnAggregation n = ''sum''
      then \<exists>k. decimal (valExact (hnValue n)) = Inr (\<Sum>i\<leftarrow>hnRows n. row_value d m i, k)
      else \<exists>i \<in> set (hnRows n). numberValue (at_cell d (row_at d i) (bValue (mBindings m))) = Inr (hnValue n))"
proof (cases "hnAggregation n = ''sum''")
  case True
  let ?c = "\<lparr>cellNull = False, cellValue = FloatString (acSum a) (acScale a)\<rparr>"
  have "hnAggregation (acNode a) = ''sum''" using assms(1) True by (metis node_value_def)
  then have num: "numberValue ?c = Inr (hnValue n)" using assms(1) by (simp add: node_value_def)
  then obtain r k where d: "decimal (FloatString (acSum a) (acScale a)) = Inr (r, k)"
    and x: "valExact (hnValue n) = FloatString (acSum a) (acScale a)"
    by (rule numberValue_Inr) simp_all
  have "decimal_body (FloatString (acSum a) (acScale a)) = Inr (acSum a, acScale a)"
    using assms(2) FloatString_decimal by (auto simp: node_ok_def fraction_at_def)
  with d have "r = acSum a" by (simp add: decimal_def split: if_splits)
  with d x assms True show ?thesis by (auto simp: node_ok_def node_value_def)
next
  case False
  with assms show ?thesis by (auto simp: node_ok_def node_value_def)
qed


subsection \<open>KPIs\<close>

lemma exactDifference_Inr:
  assumes "exactDifference x y = Inr v"
  shows "\<exists>k. decimal_body (valExact v) = Inr (decimal_rat x - decimal_rat y, k)"
proof -
  from assms obtain a sa b sb where d: "decimal x = Inr (a, sa)" "decimal y = Inr (b, sb)"
    and v: "valueFromRat (a - b) (if sb > sa then sb else sa) = Inr v"
    by (auto simp: exactDifference_def)
  have "fraction_at (if sb > sa then sb else sa) (a - b)"
    using decimal_fraction [OF d(1)] decimal_fraction [OF d(2)]
    by (auto intro!: fraction_at_diff elim!: fraction_at_mono)
  then obtain K where "(a - b) * 10 ^ (if sb > sa then sb else sa) = of_int K" by (auto simp: fraction_at_def)
  from FloatString_decimal [OF this] valueFromRat_Inr(1) [OF v] d show ?thesis by (simp add: decimal_rat_def)
qed

lemma buildDisplayKPI_Inr:
  assumes "buildDisplayKPI g d m k out = Inr out'" "dataRows d \<noteq> []"
  shows "\<exists>r. oKPIResult out' = Some r
    \<and> value_at d (index (orderedRows g d m) (if ValueRow k = ''last'' then int (length (dataRows d)) - 1 else 0))
        (bValue (mBindings m)) = Inr (krValue r)
    \<and> (krDelta r \<noteq> None \<longrightarrow> krComparison r \<noteq> None \<and>
         exactDifference (valExact (krValue r)) (valExact (the (krComparison r))) = Inr (the (krDelta r)))
    \<and> (krTargetDifference r \<noteq> None \<longrightarrow> krTarget r \<noteq> None \<and>
         exactDifference (valExact (krValue r)) (valExact (the (krTarget r))) = Inr (the (krTargetDifference r)))
    \<and> (krThresholdState r, krThresholdLabel r) = kpi_threshold_for k (krValue r)"
proof -
  from assms obtain v spark cmp delta pct tgt diff where
    v: "value_at d (index (orderedRows g d m) (if ValueRow k = ''last'' then int (length (dataRows d)) - 1 else 0))
        (bValue (mBindings m)) = Inr v"
    and del: "kpi_delta m k v cmp = Inr (delta, pct)"
    and tg: "kpi_target d m (index (orderedRows g d m) (if ValueRow k = ''last'' then int (length (dataRows d)) - 1 else 0)) v
        = Inr (tgt, diff)"
    and r: "oKPIResult out' = Some \<lparr>krValue = v, krComparison = cmp, krDelta = delta, krPercentDelta = pct,
       krTarget = tgt, krTargetDifference = diff, krThresholdState = fst (kpi_threshold_for k v),
       krThresholdLabel = snd (kpi_threshold_for k v), krSparkline = spark\<rparr>"
    unfolding buildDisplayKPI_def Let_def orderedRows_length by (auto simp: split_beta)
  from del have "delta \<noteq> None \<longrightarrow> cmp \<noteq> None \<and> exactDifference (valExact v) (valExact (the cmp)) = Inr (the delta)"
    by (auto simp: kpi_delta_def split: option.splits if_splits)
  moreover from tg have "diff \<noteq> None \<longrightarrow> tgt \<noteq> None \<and> exactDifference (valExact v) (valExact (the tgt)) = Inr (the diff)"
    by (auto simp: kpi_target_def split: if_splits)
  ultimately show ?thesis using v r by simp
qed

text \<open>
  C17. A KPI shows exact arithmetic on the selected row: its value is the first or last row's in
  the saved order, the delta and the target difference read back as precisely the differences of the
  displayed numbers, and the state shown is that of the first threshold the value meets.
\<close>

theorem kpi_exact:
  assumes "Build g d m l = Inr out" and "mVersion m = DisplayVersion" and "mKind m = KPI" and "dataRows d \<noteq> []"
  shows "\<exists>k r. mKPI m = Some k \<and> oKPIResult out = Some r
    \<and> value_at d (index (orderedRows g d m) (if ValueRow k = ''last'' then int (length (dataRows d)) - 1 else 0))
        (bValue (mBindings m)) = Inr (krValue r)
    \<and> (\<forall>delta. krDelta r = Some delta \<longrightarrow> (\<exists>c s. krComparison r = Some c \<and> decimal_body (valExact delta)
          = Inr (decimal_rat (valExact (krValue r)) - decimal_rat (valExact c), s)))
    \<and> (\<forall>diff. krTargetDifference r = Some diff \<longrightarrow> (\<exists>t s. krTarget r = Some t \<and> decimal_body (valExact diff)
          = Inr (decimal_rat (valExact (krValue r)) - decimal_rat (valExact t), s)))
    \<and> krThresholdState r = (case (if valNull (krValue r) then None
          else find (threshold_matched (decimal_rat (valExact (krValue r)))) (Thresholds k)) of
        None \<Rightarrow> [] | Some t \<Rightarrow> thState t)"
proof -
  have v: "validateMapping g d m l = Inr ()" using Build_Inr(1) [OF assms(1)] ValidateMapping_Inr by blast
  then obtain k where k: "mKPI m = Some k"
    by (rule validateMapping_Inr) (use assms(2,3) in \<open>auto simp: validateDisplay_def Let_def split: option.splits\<close>)
  from assms k obtain out1 where o: "buildDisplayKPI g d m k (empty_output DisplayVersion d m []) = Inr out1" "out = out1"
    by (auto simp: Build_def buildDisplay_def sealed_Inr Let_def)
  from buildDisplayKPI_Inr [OF o(1) assms(4)] obtain r where
    r: "oKPIResult out1 = Some r"
      "value_at d (index (orderedRows g d m) (if ValueRow k = ''last'' then int (length (dataRows d)) - 1 else 0))
        (bValue (mBindings m)) = Inr (krValue r)"
    and del: "krDelta r \<noteq> None \<longrightarrow> krComparison r \<noteq> None \<and>
         exactDifference (valExact (krValue r)) (valExact (the (krComparison r))) = Inr (the (krDelta r))"
    and tg: "krTargetDifference r \<noteq> None \<longrightarrow> krTarget r \<noteq> None \<and>
         exactDifference (valExact (krValue r)) (valExact (the (krTarget r))) = Inr (the (krTargetDifference r))"
    and th: "(krThresholdState r, krThresholdLabel r) = kpi_threshold_for k (krValue r)" by blast
  have "krThresholdState r = (case (if valNull (krValue r) then None
          else find (threshold_matched (decimal_rat (valExact (krValue r)))) (Thresholds k)) of
        None \<Rightarrow> [] | Some t \<Rightarrow> thState t)"
    using th by (auto simp: kpi_threshold_for_def split: option.splits if_splits)
  moreover have "\<exists>c s. krComparison r = Some c \<and> decimal_body (valExact delta)
          = Inr (decimal_rat (valExact (krValue r)) - decimal_rat (valExact c), s)" if "krDelta r = Some delta" for delta
    using del that exactDifference_Inr by fastforce
  moreover have "\<exists>t s. krTarget r = Some t \<and> decimal_body (valExact diff)
          = Inr (decimal_rat (valExact (krValue r)) - decimal_rat (valExact t), s)" if "krTargetDifference r = Some diff" for diff
    using tg that exactDifference_Inr by fastforce
  ultimately show ?thesis using k r o(2) by blast
qed

subsection \<open>Sums whose text does not fit a cell\<close>

lemma FloatString_long: "fraction_at s x \<Longrightarrow> 0 < s \<Longrightarrow> s + 2 \<le> length (FloatString x s)"
proof -
  assume "fraction_at s x" "0 < s"
  then obtain K where "x * 10 ^ s = of_int K" by (auto simp: fraction_at_def)
  from FloatString_exact [OF this] obtain as bs where f: "FloatString x s = (if K < 0 then ''-'' else []) @ fixed_point as bs"
    "as \<noteq> []" "length bs = s" by blast
  then have "length (FloatString x s) = (if K < 0 then 1 else 0) + length as + 1 + s"
    using \<open>0 < s\<close> by (auto simp: fixed_point_def)
  moreover have "1 \<le> length as" using f(2) by (cases as) auto
  ultimately show "s + 2 \<le> length (FloatString x s)" by simp
qed

text \<open>
  A cell may name a scale of 4096 digits, but the printed sum of such cells is longer than the
  4096 bytes the number grammar reads: the cell is a value on its own, and yet an inner node over
  such rows fails to build, with the error that means malformed input.
\<close>

theorem long_scale_sum_fails:
  "decimal ''0e-4096'' = Inr (0, 4096) \<and> is_ok (numberValue \<lparr>cellNull = False, cellValue = ''0e-4096''\<rparr>)
   \<and> node_step g l (a\<lparr>acNode := (acNode a)\<lparr>hnAggregation := ''sum''\<rparr>, acSum := 0, acScale := 4096\<rparr>) st
       = Inl ErrInvalid"
proof -
  have p: "cut_exp ''0e-4096'' = (''0'', Some ''-4096'')" "exponent_of (Some ''-4096'') = Inr (- 4096)"
    "digit_loop (length ''0'') 0 ''0'' [] 0 False = Inr (''0'', 0)" "digits_val ''0'' = 0"
    by code_simp+
  have "decimal ''0e-4096'' = Inr (rat_of_digits 0 4096)"
    using p by (simp add: decimal_def decimal_body_def)
  moreover have "rat_of_digits 0 (int n) = (0, n)" for n by (simp add: rat_of_digits_def)
  from this [of 4096] have "rat_of_digits 0 4096 = (0, 4096)" by simp
  ultimately have d: "decimal ''0e-4096'' = Inr (0, 4096)" by (simp only:)
  then have "is_ok (numberValue \<lparr>cellNull = False, cellValue = ''0e-4096''\<rparr>)"
    by (simp add: numberValue_def) (simp add: float64_def)
  moreover have "4096 + 2 \<le> length (FloatString 0 4096)" by (rule FloatString_long) simp_all
  then have "decimal (FloatString 0 4096) = Inl ErrInvalid" by (simp add: decimal_def)
  then have "numberValue \<lparr>cellNull = False, cellValue = FloatString 0 4096\<rparr> = Inl ErrInvalid"
    by (simp add: numberValue_def)
  then have "node_step g l (a\<lparr>acNode := (acNode a)\<lparr>hnAggregation := ''sum''\<rparr>, acSum := 0, acScale := 4096\<rparr>) st
    = Inl ErrInvalid" by (simp add: node_step_def Let_def)
  ultimately show ?thesis using d by simp
qed

subsection \<open>Concrete builds\<close>

definition built :: "data \<Rightarrow> mapping \<Rightarrow> chart_output" where
  "built d m = projr (Build sample_lib d m Defaults)"

lemma built_ok: "is_ok (Build sample_lib d m Defaults) \<Longrightarrow> Build sample_lib d m Defaults = Inr (built d m)"
  by (cases "Build sample_lib d m Defaults") (simp_all add: built_def)

definition trend :: data where
  "trend = sample_data [sample_column ''Y'' ''temporal'' ''time'' [], sample_column ''R'' ''text'' ''dimension'' [],
     sample_column ''A'' ''decimal'' ''measure'' ''sum''] [[''2024'', ''N'', ''1.5''], [''2023'', ''S'', ''-3'']]"

definition trend_line :: mapping where
  "trend_line = sample_mapping 2 Line trend (no_bindings\<lparr>bCategory := ''Y'', bSeries := ''R'', bValue := ''A''\<rparr>)
     [\<lparr>ordColumn = ''Y'', Direction = ''asc''\<rparr>]"

definition pair :: data where
  "pair = sample_data [sample_column ''R'' ''text'' ''dimension'' [], sample_column ''A'' ''decimal'' ''measure'' ''sum'',
     sample_column ''C'' ''integer'' ''measure'' ''count''] [[''N'', ''1.5'', ''2''], [[], ''1'', ''1''], [''S'', ''0.25'', []]]"

definition pair_bars :: mapping where
  "pair_bars = sample_mapping 2 Bar pair (no_bindings\<lparr>bCategory := ''R'', bValues := [''A'', ''C'']\<rparr>) []"

definition stock :: data where
  "stock = sample_data [sample_column ''G'' ''text'' ''dimension'' [], sample_column ''H'' ''text'' ''dimension'' [],
     sample_column ''V'' ''decimal'' ''measure'' ''sum''] [[''A'', ''X'', ''0.1''], [''A'', ''Y'', ''0.2''], [''B'', ''X'', []]]"

definition stock_map :: mapping where
  "stock_map = sample_mapping 2 Treemap stock (no_bindings\<lparr>bHierarchy := [''G'', ''H''], bValue := ''V''\<rparr>) []"

definition sales_kpi :: mapping where
  "sales_kpi = (sample_mapping 3 KPI sales (no_bindings\<lparr>bValue := ''A''\<rparr>) [\<lparr>ordColumn = ''A'', Direction = ''asc''\<rparr>])
     \<lparr>mKPI := Some \<lparr>ValueRow = ''first'', ComparisonMode = ''none'', ShowDelta = True, ShowPercentDelta = False,
        ShowTargetDifference = False, kpiSparkline = False,
        Thresholds = [\<lparr>thOperator = ''lt'', thValue = ''1'', thState = ''low'', thLabel = []\<rparr>]\<rparr>\<rparr>"







theorem kpi_exact_witness:
  "Build sample_lib sales sales_kpi Defaults = Inr (built sales sales_kpi)
   \<and> (\<exists>r. oKPIResult (built sales sales_kpi) = Some r \<and> krThresholdState r = ''low'')"
proof -
  have b: "Build sample_lib sales sales_kpi Defaults = Inr (built sales sales_kpi)" by (rule built_ok) code_simp
  have t: "map_option krThresholdState (oKPIResult (built sales sales_kpi)) = Some ''low''"
    unfolding built_def by code_simp
  have h: "mVersion sales_kpi = DisplayVersion" "mKind sales_kpi = KPI" "dataRows sales \<noteq> []" by code_simp+
  from kpi_exact [OF b h] b t show ?thesis by auto
qed

end
