(* ===== verification/ChartSelect.thy ===== *)
theory ChartSelect
  imports ChartBuild "HOL-Library.Sublist"
begin

text \<open>
  Deterministic chart selection: lexical intent, the shape profile of the data, one candidate
  per catalog kind with its score, and the sealed ranking (\<^verbatim>\<open>internal/charts/select.go\<close> and
  \<^verbatim>\<open>selection_intent.go\<close>).
\<close>

subsection \<open>Intent\<close>

text \<open>\<^verbatim>\<open>strings.FieldsFunc\<close>: maximal runs of letters and numbers.\<close>

fun fields :: "golib \<Rightarrow> (int \<times> nat) list \<Rightarrow> string \<Rightarrow> string list" where
  "fields g [] cur = (if cur = [] then [] else [cur])"
| "fields g ((r, n) # rs) cur =
     (if \<not> rune_letter g r \<and> \<not> rune_number g r
      then (if cur = [] then fields g rs [] else cur # fields g rs [])
      else fields g rs (cur @ EncodeRune r))"

definition acute_a :: string where "acute_a = [CHR 0xC3, CHR 0xA1]"
definition acute_i :: string where "acute_i = [CHR 0xC3, CHR 0xAD]"
definition acute_o :: string where "acute_o = [CHR 0xC3, CHR 0xB3]"

definition cue_words :: "(string \<times> string list) list" where
  "cue_words =
     [(''comparison'', [''compare'', ''comparison'', ''comparar'', ''comparaci'' @ acute_o @ ''n'', ''comparacion'', ''ranking'']),
      (''trend'', [''trend'', ''trends'', ''evolution'', ''tendencia'', ''evoluci'' @ acute_o @ ''n'', ''evolucion'', ''line'',
                 ''area'', acute_a @ ''rea'']),
      (''composition'', [''composition'', ''share'', ''shares'', ''proportion'', ''pie'', ''donut'', ''composici'' @ acute_o @ ''n'',
                       ''participaci'' @ acute_o @ ''n'', ''participacion'', ''proporci'' @ acute_o @ ''n'', ''composicion'']),
      (''relationship'', [''correlation'', ''relationship'', ''scatter'', ''correlaci'' @ acute_o @ ''n'',
                        ''relaci'' @ acute_o @ ''n'', ''correlacion'']),
      (''bubble'', [''bubble'', ''bubbles'', ''burbuja'', ''burbujas'']),
      (''hierarchy'', [''hierarchy'', ''hierarchical'', ''treemap'', ''jerarqu'' @ acute_i @ ''a'', ''jerarquia'']),
      (''intensity'', [''heatmap'', ''intensity'', ''intensidad'']),
      (''table'', [''table'', ''tabular'', ''tabla''])]"

text \<open>The lookup \<^verbatim>\<open>cues[word]\<close>, empty for other words.\<close>

definition cue_of :: "string \<Rightarrow> string" where
  "cue_of w = (case find (\<lambda>(c, ws). w \<in> set ws) cue_words of None \<Rightarrow> [] | Some (c, _) \<Rightarrow> c)"

text \<open>The inner loop over at most three preceding words, nearest first.\<close>

fun negation_scan :: "string list \<Rightarrow> bool" where
  "negation_scan [] = False"
| "negation_scan (w # ws) =
     (if cue_of w \<noteq> [] \<or> oneOf w [''but'', ''pero'', ''instead''] then False
      else if oneOf w [''no'', ''not'', ''without'', ''sin''] then True
      else negation_scan ws)"

fun seen_cues :: "string list \<Rightarrow> string list \<Rightarrow> string set" where
  "seen_cues before [] = {}"
| "seen_cues before (w # ws) =
     (if cue_of w \<noteq> [] \<and> \<not> negation_scan (take 3 before)
      then insert (cue_of w) (seen_cues (w # before) ws) else seen_cues (w # before) ws)"

definition questionIntent :: "golib \<Rightarrow> string \<Rightarrow> string" where
  "questionIntent g intent =
     (let words = fields g (runes (ToLower g intent)) [];
          seen0 = seen_cues [] words;
          seen = (if ''bubble'' \<in> seen0 then seen0 - {''relationship''} else seen0)
      in if card seen > 1 then ''mixed''
         else if card seen = 1 then the_elem seen
         else ''unspecified'')"

subsection \<open>Profile\<close>

record cardinality_row =
  cdColumn :: string
  Distinct :: int
  cdNulls :: int

record candidate_evaluation =
  evKind :: kind
  evVariant :: string
  evOutcome :: string
  evScore :: int
  evSignals :: "string list"

record selection_evidence =
  seVersion :: int
  seIntent :: string
  seRows :: int
  seMeasures :: int
  seDimensions :: int
  seTimes :: int
  seCardinality :: "cardinality_row list"
  seEvaluations :: "candidate_evaluation list"
  seSuitable :: int
  seAboveFloor :: int
  seTieBreak :: string

definition RulesVersion :: int where "RulesVersion = 2"

record shape_profile =
  spDimensions :: "string list"
  spTimes :: "string list"
  spMeasures :: "string list"
  spEvidence :: selection_evidence

definition column_cardinality :: "golib \<Rightarrow> data \<Rightarrow> column \<Rightarrow> cardinality_row" where
  "column_cardinality g d c =
     (let present = filter (\<lambda>row. \<not> cellNull (at_cell d row (colID c))) (dataRows d)
      in \<lparr>cdColumn = colID c,
          Distinct = int (card (set (map (\<lambda>row. identityKey g d row [colID c]) present))),
          cdNulls = int (length (dataRows d)) - int (length present)\<rparr>)"

definition profile :: "golib \<Rightarrow> data \<Rightarrow> string \<Rightarrow> shape_profile" where
  "profile g d intent =
     (let cols = dataColumns d;
          dims = map colID (filter (\<lambda>c. category c \<and> colType c \<noteq> ''temporal'') cols);
          times = map colID (filter (\<lambda>c. colType c = ''temporal'') cols);
          measures = map colID (filter measure_col cols)
      in \<lparr>spDimensions = dims, spTimes = times, spMeasures = measures,
          spEvidence = \<lparr>seVersion = RulesVersion, seIntent = questionIntent g intent,
             seRows = int (length (dataRows d)), seMeasures = int (length measures),
             seDimensions = int (length dims), seTimes = int (length times),
             seCardinality = map (column_cardinality g d) (filter category cols), seEvaluations = [],
             seSuitable = 0, seAboveFloor = 0, seTieBreak = ''catalog_order''\<rparr>\<rparr>)"

text \<open>The map \<^verbatim>\<open>p.cardinality\<close>, zero for columns that are not categories.\<close>

definition cardinality :: "shape_profile \<Rightarrow> string \<Rightarrow> int" where
  "cardinality p x =
     (case find (\<lambda>c. cdColumn c = x) (seCardinality (spEvidence p)) of None \<Rightarrow> 0 | Some c \<Rightarrow> Distinct c)"

subsection \<open>Candidates\<close>

definition measureBindings :: "shape_profile \<Rightarrow> bindings" where
  "measureBindings p =
     (case spMeasures p of
        [x] \<Rightarrow> no_bindings\<lparr>bValue := x\<rparr>
      | xs \<Rightarrow> no_bindings\<lparr>bValues := xs\<rparr>)"

record binding_choice =
  chBindings :: bindings
  chOrder :: "order list"
  chScore :: int
  chReason :: string
  chEligible :: bool

definition refuse :: "bindings \<Rightarrow> string \<Rightarrow> binding_choice" where
  "refuse b reason = \<lparr>chBindings = b, chOrder = [], chScore = 0, chReason = reason, chEligible = False\<rparr>"

definition offer :: "bindings \<Rightarrow> order list \<Rightarrow> int \<Rightarrow> string \<Rightarrow> binding_choice" where
  "offer b ord score reason = \<lparr>chBindings = b, chOrder = ord, chScore = score, chReason = reason, chEligible = True\<rparr>"

definition candidateBinding :: "kind \<Rightarrow> data \<Rightarrow> shape_profile \<Rightarrow> binding_choice" where
  "candidateBinding kind d p =
     (let dims = spDimensions p; times = spTimes p; ms = spMeasures p; intent = seIntent (spEvidence p);
          nd = length dims; nm = length ms; none = no_bindings in
      if kind = Table then
        (if intent \<noteq> ''table'' then refuse none ''fallback_only''
         else offer (none\<lparr>bColumns := map colID (dataColumns d)\<rparr>) [] 100 ''explicit_tabular_intent'')
      else if kind = KPI then
        (if length (dataRows d) > 1 \<or> nm \<noteq> 1 then refuse none ''single_measure_row_required''
         else offer (none\<lparr>bValue := ms ! 0\<rparr>) [] 100 ''single_value'')
      else if kind = Line \<or> kind = Area then
        (if times = [] \<or> ms = [] then refuse none ''temporal_measure_required''
         else let b = (measureBindings p)\<lparr>bCategory := times ! 0\<rparr>;
                  b = (if nd > 0 then b\<lparr>bSeries := dims ! 0\<rparr> else b)
              in offer b [\<lparr>ordColumn = bCategory b, Direction = ''asc''\<rparr>] (if kind = Area then 85 else 95)
                   ''time_series_all_measures'')
      else if kind = Scatter then
        (if nm < 2 then refuse none ''numeric_pair_required''
         else let b = none\<lparr>bX := ms ! 0, bY := ms ! 1\<rparr>;
                  b = (if nd > 0 then b\<lparr>bSeries := dims ! 0\<rparr> else b)
              in if intent = ''bubble'' then
                   (if nm < 3 then refuse b ''explicit_size_measure_required''
                    else offer (b\<lparr>bSize := ms ! 2\<rparr>) [] 90 ''numeric_relationship_and_area_size'')
                 else offer b [] 90 ''numeric_relationship'')
      else if kind = Heatmap then
        (if nd < 2 \<or> nm \<noteq> 1 then refuse none ''two_dimensions_one_measure_required''
         else offer (none\<lparr>bX := dims ! 0, bY := dims ! 1, bValue := ms ! 0\<rparr>) [] 85 ''two_dimensional_intensity'')
      else if kind = StackedBar \<or> kind = StackedColumn then
        (if nd < 2 \<or> nm \<noteq> 1 then refuse none ''one_measure_and_categorical_series_required''
         else offer (none\<lparr>bCategory := dims ! 0, bSeries := dims ! 1, bValue := ms ! 0\<rparr>) [] 80 ''category_by_series'')
      else if kind = Bar \<or> kind = ColumnChart \<or> kind = GroupedBar then
        (if nd = 0 \<or> nm = 0 then refuse none ''categorical_measure_required''
         else let b = (measureBindings p)\<lparr>bCategory := dims ! 0\<rparr>;
                  b = (if nd > 1 then b\<lparr>bSeries := dims ! 1\<rparr> else b)
              in if kind = GroupedBar then
                   (if bSeries b = [] \<and> length (bValues b) < 2 then refuse b ''multiple_measures_or_series_required''
                    else offer b [] 93 ''all_measures_by_category'')
                 else offer b [] (if kind = ColumnChart then 85 else 90) ''categorical_comparison'')
      else
        (if nd = 0 \<or> nm \<noteq> 1 then refuse none ''one_composition_measure_required''
         else let b = none\<lparr>bCategory := dims ! 0, bValue := ms ! 0\<rparr> in
              if kind = Treemap \<and> nd > 1 then
                offer (if intent = ''hierarchy'' then b\<lparr>bCategory := [], bHierarchy := dims\<rparr>
                       else b\<lparr>bParent := dims ! 1\<rparr>) [] 75 ''declared_result_order_hierarchy''
              else if kind = Pie \<or> kind = Donut then offer b [] 65 ''nonnegative_parts''
              else offer b [] 60 ''categorical_comparison''))"

definition intent_boost :: "string \<Rightarrow> kind \<Rightarrow> int \<Rightarrow> int \<Rightarrow> int" where
  "intent_boost intent kind cardinality_category score =
     (if intent = ''trend'' then (if kind = Line then 5 else if kind = Area then 10 else - 20)
      else if intent = ''comparison'' then
        (if kind = GroupedBar then 5 else if kind = Bar then 7 else if kind = ColumnChart then 9 else - 15)
      else if intent = ''composition'' then
        (if (kind = Pie \<or> kind = Donut) \<and> cardinality_category \<le> 6 \<and> score \<ge> 50
         then (if kind = Donut then 33 else 35)
         else if kind = Treemap then 10 else 0)
      else if intent = ''relationship'' \<or> intent = ''bubble'' then (if kind = Scatter then 10 else - 20)
      else if intent = ''hierarchy'' then (if kind = Treemap then 25 else - 20)
      else if intent = ''intensity'' then (if kind = Heatmap then 15 else - 20)
      else if intent = ''table'' then (if kind \<noteq> Table then - 30 else 0)
      else 0)"

definition candidateScore ::
  "kind \<Rightarrow> data \<Rightarrow> bindings \<Rightarrow> shape_profile \<Rightarrow> int \<Rightarrow> int \<times> string list" where
  "candidateScore kind d b p score =
     (let intent = seIntent (spEvidence p);
          card_cat = cardinality p (bCategory b);
          parts = (kind = Pie \<or> kind = Donut);
          high = (parts \<and> card_cat > 6);
          nonadd = (parts \<and> oneOf (colAggregation (column_of d (bValue b)))
                              [''average'', ''minimum'', ''maximum'', ''distinct_count'']);
          many = (kind = ColumnChart \<and> card_cat > 30);
          score = score - (if high then 25 else 0) - (if nonadd then 40 else 0) - (if many then 15 else 0);
          boost = intent_boost intent kind card_cat score;
          signals = [''typed_roles'']
            @ (if length (bValues b) > 1 then [''all_measures_retained''] else [])
            @ (if bSeries b \<noteq> [] then [''categorical_series''] else [])
            @ (if parts then [if high then ''composition_cardinality_high'' else ''composition_cardinality_low''] else [])
            @ (if nonadd then [''nonadditive_measure''] else [])
            @ (if many then [''many_category_labels''] else [])
            @ (if boost \<noteq> 0 then [''intent_'' @ intent] else []);
          score = score + boost;
          score = (if score > 100 then 100 else score);
          score = (if score < 0 then 0 else score)
      in (score, signals))"

subsection \<open>Selection\<close>

record candidate =
  caMapping :: mapping
  caScore :: int
  caReason :: string
  caVariant :: string
  caSignals :: "string list"
  caUnusedColumns :: "string list"

record chart_selection =
  selSelected :: candidate
  selAlternatives :: "candidate list"
  selFallback :: bool
  selReason :: string
  selEvidence :: selection_evidence

definition unused_columns :: "data \<Rightarrow> mapping \<Rightarrow> string list" where
  "unused_columns d m = filter (\<lambda>x. columnIndex (mColumns m) x < 0) (map colID (dataColumns d))"

definition evaluate_kind ::
  "golib \<Rightarrow> data \<Rightarrow> limits \<Rightarrow> shape_profile \<Rightarrow> catalog_entry \<Rightarrow> candidate list \<times> selection_evidence
   \<Rightarrow> charts_error + candidate list \<times> selection_evidence" where
  "evaluate_kind g d l p e st =
     (case st of (cands, ev) \<Rightarrow>
        let ch = candidateBinding (ceKind e) d p; b = chBindings ch; v = variantID (ceKind e) b;
            record_eval = (\<lambda>ev outcome score signals.
              ev\<lparr>seEvaluations := seEvaluations ev @ [\<lparr>evKind = ceKind e, evVariant = v, evOutcome = outcome,
                  evScore = score, evSignals = signals\<rparr>]\<rparr>) in
        if \<not> chEligible ch then Inr (cands, record_eval ev (chReason ch) 0 [])
        else let (score, signals) = candidateScore (ceKind e) d b p (chScore ch) in
          case bindValidated g d (ceKind e) b (chOrder ch) DefaultOptions l of
            Inl ErrUnsuitable \<Rightarrow> Inr (cands, record_eval ev ''unsuitable_binding'' score signals)
          | Inl ErrLimit \<Rightarrow> Inr (cands, record_eval ev ''shape_limit'' score signals)
          | Inl err \<Rightarrow> Inl err
          | Inr m \<Rightarrow>
              let ev = ev\<lparr>seSuitable := seSuitable ev + 1\<rparr> in
              if score \<ge> SelectionFloor l then
                Inr (cands @ [\<lparr>caMapping = m, caScore = score, caReason = chReason ch, caVariant = v, caSignals = signals,
                               caUnusedColumns = unused_columns d m\<rparr>],
                     record_eval (ev\<lparr>seAboveFloor := seAboveFloor ev + 1\<rparr>) ''suitable'' score signals)
              else Inr (cands, record_eval ev ''below_floor'' score signals))"

definition seal_ranking :: "limits \<Rightarrow> candidate list \<Rightarrow> selection_evidence \<Rightarrow> chart_selection" where
  "seal_ranking l cands ev =
     (let ranked = SliceStable (\<lambda>a b. caScore a > caScore b) cands;
          n = int (length ranked) - 1;
          n = (if n > MaxAlternatives l then MaxAlternatives l else n)
      in \<lparr>selSelected = ranked ! 0, selAlternatives = take (nat n) (drop 1 ranked), selFallback = False,
          selReason = ''rules_first'', selEvidence = ev\<rparr>)"

definition SelectWithIntent :: "golib \<Rightarrow> data \<Rightarrow> string \<Rightarrow> limits \<Rightarrow> charts_error + chart_selection" where
  "SelectWithIntent g d intent l =
     (if \<not> text_ok intent 1024 then Inl ErrInvalid
      else case ValidateData g d l of Inl err \<Rightarrow> Inl err | Inr _ \<Rightarrow>
      (let p = profile g d intent in
       case fold_res (evaluate_kind g d l p) Catalog ([], spEvidence p) of
         Inl err \<Rightarrow> Inl err
       | Inr (cands, ev) \<Rightarrow>
           if cands = [] then
             (case bindValidated g d Table (no_bindings\<lparr>bColumns := map colID (dataColumns d)\<rparr>) [] DefaultOptions l of
                Inl err \<Rightarrow> Inl err
              | Inr m \<Rightarrow>
                  Inr \<lparr>selSelected = \<lparr>caMapping = m, caScore = 0, caReason = ''table_fallback'', caVariant = ''scalar'',
                                      caSignals = [], caUnusedColumns = []\<rparr>,
                       selAlternatives = [], selFallback = True, selReason = ''no_suitable_chart_above_floor'',
                       selEvidence = ev\<rparr>)
           else Inr (seal_ranking l cands ev)))"

definition Select :: "golib \<Rightarrow> data \<Rightarrow> limits \<Rightarrow> charts_error + chart_selection" where
  "Select g d l = SelectWithIntent g d [] l"

subsection \<open>Ranking\<close>

interpretation rank: strict_weak UNIV "\<lambda>a b. caScore a > caScore (b :: candidate)"
  by unfold_locales auto

lemma candidateScore_range: "0 \<le> fst (candidateScore kind d b p s) \<and> fst (candidateScore kind d b p s) \<le> 100"
  by (simp add: candidateScore_def Let_def)

definition candidate_ok :: "golib \<Rightarrow> data \<Rightarrow> limits \<Rightarrow> candidate \<Rightarrow> bool" where
  "candidate_ok g d l c \<longleftrightarrow> validateMapping g d (caMapping c) l = Inr () \<and> SelectionFloor l \<le> caScore c
     \<and> caScore c \<le> 100 \<and> caUnusedColumns c = unused_columns d (caMapping c)"

definition candidate_kinds :: "candidate list \<Rightarrow> kind list" where
  "candidate_kinds cs = map (mKind \<circ> caMapping) cs"

definition evaluated :: "selection_evidence \<Rightarrow> kind list" where
  "evaluated ev = map evKind (seEvaluations ev)"

lemma evaluate_kind_Inr:
  assumes "evaluate_kind g d l p e (cs, ev) = Inr (cs', ev')"
  shows "evaluated ev' = evaluated ev @ [ceKind e]
    \<and> (cs' = cs \<or> (\<exists>c. cs' = cs @ [c] \<and> candidate_ok g d l c \<and> mKind (caMapping c) = ceKind e))
    \<and> seAboveFloor ev' - int (length cs') = seAboveFloor ev - int (length cs)"
proof -
  define ch where "ch = candidateBinding (ceKind e) d p"
  obtain score signals where sc: "candidateScore (ceKind e) d (chBindings ch) p (chScore ch) = (score, signals)"
    by (cases "candidateScore (ceKind e) d (chBindings ch) p (chScore ch)")
  have r: "score \<le> 100" using candidateScore_range [of "ceKind e" d "chBindings ch" p "chScore ch"] sc by simp
  show ?thesis
  proof (cases "chEligible ch")
    case False
    with assms show ?thesis by (auto simp: evaluate_kind_def ch_def [symmetric] evaluated_def Let_def)
  next
    case True
    show ?thesis
    proof (cases "bindValidated g d (ceKind e) (chBindings ch) (chOrder ch) DefaultOptions l")
      case (Inl err)
      with assms True sc show ?thesis
        by (cases err) (auto simp: evaluate_kind_def ch_def [symmetric] evaluated_def Let_def)
    next
      case (Inr m)
      note B = bindValidated_Inr(1,2) [OF Inr]
      from assms True sc Inr B r show ?thesis
        by (auto simp: evaluate_kind_def ch_def [symmetric] evaluated_def candidate_ok_def Let_def split: if_splits)
    qed
  qed
qed

lemma evaluate_fold:
  assumes "fold_res (evaluate_kind g d l p) es (cs, ev) = Inr (cs', ev')"
  shows "evaluated ev' = evaluated ev @ map ceKind es
    \<and> (\<exists>new. cs' = cs @ new \<and> (\<forall>c \<in> set new. candidate_ok g d l c) \<and> subseq (candidate_kinds new) (map ceKind es))
    \<and> seAboveFloor ev' - int (length cs') = seAboveFloor ev - int (length cs)"
  using assms
proof (induction es arbitrary: cs ev)
  case Nil
  then show ?case by (simp add: candidate_kinds_def)
next
  case (Cons e es)
  then obtain cs1 ev1 where s: "evaluate_kind g d l p e (cs, ev) = Inr (cs1, ev1)"
    and r: "fold_res (evaluate_kind g d l p) es (cs1, ev1) = Inr (cs', ev')" by auto
  note S = evaluate_kind_Inr [OF s] and R = Cons.IH [OF r]
  from R obtain new where new: "cs' = cs1 @ new" "\<forall>c \<in> set new. candidate_ok g d l c"
    "subseq (candidate_kinds new) (map ceKind es)" by blast
  from S have "cs1 = cs \<or> (\<exists>c. cs1 = cs @ [c] \<and> candidate_ok g d l c \<and> mKind (caMapping c) = ceKind e)" by blast
  then show ?case
  proof
    assume "cs1 = cs"
    with S R new show ?thesis by (auto intro!: exI [of _ new])
  next
    assume "\<exists>c. cs1 = cs @ [c] \<and> candidate_ok g d l c \<and> mKind (caMapping c) = ceKind e"
    then obtain c where "cs1 = cs @ [c]" "candidate_ok g d l c" "mKind (caMapping c) = ceKind e" by blast
    with S R new show ?thesis by (auto simp: candidate_kinds_def intro!: exI [of _ "c # new"])
  qed
qed

lemma ranked_facts:
  assumes "cands \<noteq> []" "0 \<le> MaxAlternatives l" "sel = seal_ranking l cands ev"
  shows "sorted_wrt (\<lambda>a b. caScore b \<le> caScore a) (selSelected sel # selAlternatives sel)"
    and "set (selSelected sel # selAlternatives sel) \<subseteq> set cands"
    and "int (length (selAlternatives sel)) = min (MaxAlternatives l) (int (length cands) - 1)"
    and "\<forall>c \<in> set cands. caScore c \<le> caScore (selSelected sel)"
    and "distinct (candidate_kinds cands) \<Longrightarrow> distinct (candidate_kinds (selSelected sel # selAlternatives sel))"
proof -
  define ranked where "ranked = SliceStable (\<lambda>a b. caScore a > caScore b) cands"
  have len: "length ranked = length cands" and set: "set ranked = set cands" and ms: "mset ranked = mset cands"
    by (simp_all add: ranked_def)
  obtain x xs where r: "ranked = x # xs" using assms(1) len by (cases ranked) auto
  define n where "n = nat (if int (length ranked) - 1 > MaxAlternatives l then MaxAlternatives l else int (length ranked) - 1)"
  have sel: "selSelected sel = x" "selAlternatives sel = take n xs"
    using r by (auto simp: assms(3) seal_ranking_def ranked_def [symmetric] n_def Let_def)
  have sorted: "sorted_wrt (\<lambda>a b. caScore b \<le> caScore a) ranked"
    using rank.stable_sorted(1) [of cands] by (simp add: ranked_def not_less)
  then show "sorted_wrt (\<lambda>a b. caScore b \<le> caScore a) (selSelected sel # selAlternatives sel)"
    using r sel by (auto simp: sorted_wrt_take dest: in_set_takeD)
  show "set (selSelected sel # selAlternatives sel) \<subseteq> set cands"
    using set r sel by (auto dest: in_set_takeD)
  show "int (length (selAlternatives sel)) = min (MaxAlternatives l) (int (length cands) - 1)"
    using sel r len assms(2) by (auto simp: n_def min_def)
  show "\<forall>c \<in> set cands. caScore c \<le> caScore (selSelected sel)"
    using sorted r sel by (auto simp flip: set)
  assume "distinct (candidate_kinds cands)"
  then have "distinct (candidate_kinds ranked)"
    using ms by (metis candidate_kinds_def mset_eq_imp_distinct_iff mset_map)
  then show "distinct (candidate_kinds (selSelected sel # selAlternatives sel))"
    using r sel by (auto simp: candidate_kinds_def take_map [symmetric] dest: in_set_takeD)
qed

lemma subseq_distinctI: "subseq xs ys \<Longrightarrow> distinct ys \<Longrightarrow> distinct xs"
  by (induction rule: list_emb.induct) (auto dest: list_emb_set)

lemma catalog_distinct: "distinct (map ceKind Catalog)"
  by (simp add: catalog_kinds)

text \<open>
  C18. A selection is sealed and ranked: every offered chart has already been validated against the
  data, scores between the floor and 100, the alternatives follow the choice in descending order up
  to the configured number, no kind is offered twice, and the evidence lists every catalog kind once, in
  order. The fallback is offered only when no kind reaches the floor, and then it is a table of all
  columns.
\<close>

theorem selection_ranked:
  assumes "SelectWithIntent g d q l = Inr sel"
  shows "map evKind (seEvaluations (selEvidence sel)) = map ceKind Catalog \<and>
    (if selFallback sel
    then selAlternatives sel = [] \<and> seAboveFloor (selEvidence sel) = 0 \<and> mKind (caMapping (selSelected sel)) = Table
      \<and> bColumns (mBindings (caMapping (selSelected sel))) = map colID (dataColumns d)
      \<and> ValidateMapping g d (caMapping (selSelected sel)) l = Inr ()
    else (\<forall>c \<in> set (selSelected sel # selAlternatives sel).
            ValidateMapping g d (caMapping c) l = Inr () \<and> SelectionFloor l \<le> caScore c \<and> caScore c \<le> 100)
      \<and> sorted_wrt (\<lambda>a b. caScore b \<le> caScore a) (selSelected sel # selAlternatives sel)
      \<and> int (length (selAlternatives sel)) = min (MaxAlternatives l) (seAboveFloor (selEvidence sel) - 1)
      \<and> distinct (map (mKind \<circ> caMapping) (selSelected sel # selAlternatives sel)))"
proof -
  from assms obtain cands ev where data: "ValidateData g d l = Inr ()"
    and f: "fold_res (evaluate_kind g d l (profile g d q)) Catalog ([], spEvidence (profile g d q)) = Inr (cands, ev)"
    and s: "(if cands = [] then
             (case bindValidated g d Table (no_bindings\<lparr>bColumns := map colID (dataColumns d)\<rparr>) [] DefaultOptions l of
                Inl err \<Rightarrow> Inl err
              | Inr m \<Rightarrow>
                  Inr \<lparr>selSelected = \<lparr>caMapping = m, caScore = 0, caReason = ''table_fallback'', caVariant = ''scalar'',
                                      caSignals = [], caUnusedColumns = []\<rparr>,
                       selAlternatives = [], selFallback = True, selReason = ''no_suitable_chart_above_floor'',
                       selEvidence = ev\<rparr>)
           else Inr (seal_ranking l cands ev)) = Inr sel"
    by (auto simp: SelectWithIntent_def Let_def)
  note F = evaluate_fold [OF f]
  have lim: "0 \<le> MaxAlternatives l" using ValidateData_limits(1) [OF data] by (auto simp: Limits_Validate_def)
  from F have all: "\<forall>c \<in> set cands. candidate_ok g d l c" and sub: "subseq (candidate_kinds cands) (map ceKind Catalog)"
    and cnt: "seAboveFloor ev = int (length cands)" and evs: "map evKind (seEvaluations ev) = map ceKind Catalog"
    by (auto simp: profile_def evaluated_def Let_def)
  from sub have dist: "distinct (candidate_kinds cands)"
    using catalog_distinct by (rule subseq_distinctI)
  show ?thesis
  proof (cases "cands = []")
    case True
    with s cnt obtain m where m: "bindValidated g d Table (no_bindings\<lparr>bColumns := map colID (dataColumns d)\<rparr>) [] DefaultOptions l = Inr m"
      and sel: "selFallback sel" "selAlternatives sel = []" "selEvidence sel = ev" "caMapping (selSelected sel) = m"
      by auto
    from bindValidated_Inr [OF m] sel data evs cnt True show ?thesis by (simp add: ValidateMapping_def)
  next
    case False
    with s have sel: "sel = seal_ranking l cands ev" by simp
    then have e: "\<not> selFallback sel" "selEvidence sel = ev" by (simp_all add: seal_ranking_def Let_def)
    note R = ranked_facts [OF False lim sel]
    have "ValidateMapping g d (caMapping c) l = Inr () \<and> SelectionFloor l \<le> caScore c \<and> caScore c \<le> 100"
      if "c \<in> set (selSelected sel # selAlternatives sel)" for c
    proof -
      have "c \<in> set cands" using R(2) that by blast
      then show ?thesis using all data by (simp add: candidate_ok_def ValidateMapping_def)
    qed
    with e R dist cnt evs show ?thesis by (simp add: candidate_kinds_def)
  qed
qed

theorem selection_ranked_witness:
  "\<exists>sel. SelectWithIntent sample_lib sales ''compare'' Defaults = Inr sel
     \<and> mKind (caMapping (selSelected sel)) = Bar \<and> caScore (selSelected sel) = 97
     \<and> length (seEvaluations (selEvidence sel)) = 14"
proof -
  have "map_sum id (\<lambda>s. (mKind (caMapping (selSelected s)), caScore (selSelected s)))
    (SelectWithIntent sample_lib sales ''compare'' Defaults) = Inr (Bar, 97)" by code_simp
  then obtain sel where s: "SelectWithIntent sample_lib sales ''compare'' Defaults = Inr sel"
    and k: "mKind (caMapping (selSelected sel)) = Bar" "caScore (selSelected sel) = 97"
    by (cases "SelectWithIntent sample_lib sales ''compare'' Defaults") auto
  from selection_ranked [OF s] have "map evKind (seEvaluations (selEvidence sel)) = map ceKind Catalog" by blast
  then have "length (map evKind (seEvaluations (selEvidence sel))) = 14" by (simp only: catalog_kinds) simp
  with s k show ?thesis by auto
qed

end
