(* ===== verification/Identity.thy ===== *)
theory Identity
  imports Prelude
begin

text \<open>
  Verified request authority, \<^verbatim>\<open>internal/identity/identity.go\<close> and the storage
  coordinates of \<^verbatim>\<open>internal/store/store.go\<close>: the identifier grammar, the signed reach
  grammar, construction of an envelope from verified claims, and its exact comparisons.
  An operation that reads the envelope's clock takes the reading as an argument.
  A byte of a multi-byte rune is at least 128, so the checks of the sources over runes
  below 128 are checks over bytes.
\<close>

datatype identity_error = IdentityErrInvalid

record reach =
  reachKind :: string
  reachPermission :: string
  reachID :: string

definition ident_char :: "char \<Rightarrow> bool" where
  "ident_char c \<longleftrightarrow>
     (97 \<le> byte c \<and> byte c \<le> 122) \<or> (65 \<le> byte c \<and> byte c \<le> 90) \<or>
     (48 \<le> byte c \<and> byte c \<le> 57) \<or> c \<in> set ''_.:-''"

definition Identifier :: "string \<Rightarrow> bool" where
  "Identifier s \<longleftrightarrow> \<not> (length s = 0 \<or> length s > 128) \<and> list_all ident_char s"

fun member :: "string \<Rightarrow> string list \<Rightarrow> bool" where
  "member s [] = False"
| "member s (v # vs) = (if s = v then True else member s vs)"

definition reach_kinds :: "string list" where
  "reach_kinds = [''schedule'', ''source'', ''dataset'', ''topic'', ''block'', ''report'',
     ''dashboard'', ''run'', ''onboarding'', ''execution_context'', ''execution_binding'', ''tenant'']"

definition reach_permissions :: "string list" where
  "reach_permissions = [''read'', ''query'', ''write'', ''execute'', ''preview'', ''publish'',
     ''certify'', ''export'', ''use'', ''erase'', ''cancel'']"

definition ParseReach :: "string \<Rightarrow> identity_error + reach" where
  "ParseReach s =
     (let (prefix, id, ok) = cut CHR '':'' s;
          p = split_on CHR ''.'' prefix
      in if \<not> ok \<or> length p \<noteq> 3 \<or> p ! 0 \<noteq> ''cw'' \<or> (id \<noteq> ''*'' \<and> \<not> Identifier id)
         then Inl IdentityErrInvalid
         else if \<not> member (p ! 1) reach_kinds \<or> \<not> member (p ! 2) reach_permissions
         then Inl IdentityErrInvalid
         else Inr \<lparr>reachKind = p ! 1, reachPermission = p ! 2, reachID = id\<rparr>)"

text \<open>
  \<open>envClock\<close> says that the \<^verbatim>\<open>now\<close> function is installed: the zero envelope has none.
\<close>

record envelope =
  envTenant :: string
  envUser :: string
  envSession :: string
  envScopes :: "string list"
  envReach :: "reach list"
  envUntil :: go_time
  envClock :: bool

definition zero_envelope :: envelope where
  "zero_envelope = \<lparr>envTenant = [], envUser = [], envSession = [], envScopes = [],
     envReach = [], envUntil = zero_time, envClock = False\<rparr>"

definition Envelope_Valid :: "go_time \<Rightarrow> envelope \<Rightarrow> bool" where
  "Envelope_Valid now e \<longleftrightarrow> envClock e \<and> envTenant e \<noteq> [] \<and> now < envUntil e"

text \<open>The scope loop of \<^verbatim>\<open>FromVerified\<close>: state is the running byte total, the scopes seen
  and the envelope under construction.\<close>

fun scope_loop ::
  "string list \<Rightarrow> nat \<Rightarrow> string list \<Rightarrow> envelope \<Rightarrow> identity_error + envelope" where
  "scope_loop [] acc seen e = Inr e"
| "scope_loop (s # ss) acc seen e =
     (let acc = acc + length s
      in if length s = 0 \<or> length s > 256 \<or> acc > 4096 \<or> s \<in> set seen
         then Inl IdentityErrInvalid
         else if \<not> list_all (\<lambda>c. \<not> (byte c < 33 \<or> byte c > 126)) s
         then Inl IdentityErrInvalid
         else if has_prefix s ''cw.''
         then (case ParseReach s of
                 Inl err \<Rightarrow> Inl err
               | Inr r \<Rightarrow> scope_loop ss acc (s # seen)
                   (e\<lparr>envReach := envReach e @ [r], envScopes := envScopes e @ [s]\<rparr>))
         else scope_loop ss acc (s # seen) (e\<lparr>envScopes := envScopes e @ [s]\<rparr>))"

text \<open>
  \<^verbatim>\<open>strings.ToLower\<close> is applied to a user that passed \<open>Identifier\<close>, hence is ASCII.
\<close>

definition FromVerified ::
  "go_time \<Rightarrow> string \<Rightarrow> string \<Rightarrow> string \<Rightarrow> string list \<Rightarrow> go_time \<Rightarrow> identity_error + envelope" where
  "FromVerified now tenant user session scopes til =
     (if \<not> Identifier tenant \<or> \<not> Identifier user \<or> \<not> Identifier session \<or> til = zero_time \<or>
         length scopes > 32
      then Inl IdentityErrInvalid
      else if has_prefix (map ascii_lower user) ''svc:'' \<and>
              (\<not> has_prefix user ''svc:'' \<or> length user = 4)
      then Inl IdentityErrInvalid
      else case scope_loop scopes 0 []
                  \<lparr>envTenant = tenant, envUser = user, envSession = session, envScopes = [],
                   envReach = [], envUntil = til, envClock = True\<rparr> of
             Inl err \<Rightarrow> Inl err
           | Inr e \<Rightarrow> if \<not> Envelope_Valid now e then Inl IdentityErrInvalid else Inr e)"

definition Envelope_Service :: "envelope \<Rightarrow> bool" where
  "Envelope_Service e = has_prefix (envUser e) ''svc:''"

definition Envelope_Has :: "go_time \<Rightarrow> envelope \<Rightarrow> string \<Rightarrow> bool" where
  "Envelope_Has now e s = (if \<not> Envelope_Valid now e then False else member s (envScopes e))"

text \<open>
  The request context carries at most one envelope under its private key;
  \<^verbatim>\<open>FromContext\<close> only returns a current one.
\<close>

definition Envelope_Context :: "go_time \<Rightarrow> envelope \<Rightarrow> identity_error + envelope option" where
  "Envelope_Context now e =
     (if \<not> Envelope_Valid now e then Inl IdentityErrInvalid else Inr (Some e))"

definition FromContext :: "go_time \<Rightarrow> envelope option \<Rightarrow> identity_error + envelope" where
  "FromContext now ctx =
     (case ctx of
        None \<Rightarrow> Inl IdentityErrInvalid
      | Some e \<Rightarrow> if \<not> Envelope_Valid now e then Inl IdentityErrInvalid else Inr e)"

record store_scope =
  scopeTenant :: string
  scopeActor :: string

datatype store_error =
    StoreErrScope | StoreErrInvalid | StoreErrNotFound | StoreErrConflict
  | StoreErrUnavailable | StoreErrExpired | StoreErrMigration

definition store_ident_char :: "char \<Rightarrow> bool" where
  "store_ident_char c \<longleftrightarrow>
     (97 \<le> byte c \<and> byte c \<le> 122) \<or> (65 \<le> byte c \<and> byte c \<le> 90) \<or>
     (48 \<le> byte c \<and> byte c \<le> 57) \<or>
     c = CHR ''_'' \<or> c = CHR ''-'' \<or> c = CHR '':'' \<or> c = CHR ''.''"

definition store_Identifier :: "string \<Rightarrow> bool" where
  "store_Identifier s \<longleftrightarrow> \<not> (length s = 0 \<or> length s > 128) \<and> list_all store_ident_char s"

definition NewScope :: "string \<Rightarrow> string \<Rightarrow> store_error + store_scope" where
  "NewScope tenant actor =
     (if \<not> store_Identifier tenant \<or> \<not> store_Identifier actor then Inl StoreErrScope
      else Inr \<lparr>scopeTenant = tenant, scopeActor = actor\<rparr>)"

definition Scope_Valid :: "store_scope \<Rightarrow> bool" where
  "Scope_Valid s \<longleftrightarrow> store_Identifier (scopeTenant s) \<and> store_Identifier (scopeActor s)"

record policy =
  polRevision :: int
  polAuditDays :: int
  polOperationHours :: int

definition Policy_Validate :: "policy \<Rightarrow> store_error + unit" where
  "Policy_Validate p =
     (if polAuditDays p < 1 \<or> polAuditDays p > 3650 \<or> polOperationHours p < 1 \<or>
         polOperationHours p > 8760
      then Inl StoreErrInvalid else Inr ())"

subsection \<open>The grammars\<close>

lemma member_iff [simp]: "member s vs \<longleftrightarrow> s \<in> set vs"
  by (induction vs) auto

lemma store_Identifier_eq: "store_Identifier = Identifier"
proof -
  have "store_ident_char = ident_char"
    by (rule ext) (auto simp: store_ident_char_def ident_char_def)
  then show ?thesis
    by (intro ext) (simp add: store_Identifier_def Identifier_def)
qed

lemma Identifier_nonempty: "Identifier s \<Longrightarrow> s \<noteq> []"
  by (auto simp: Identifier_def)

lemma Identifier_not_star: "\<not> Identifier ''*''"
  by (simp add: Identifier_def ident_char_def byte_def)

text \<open>Kinds and permissions contain neither separator of the reach grammar.\<close>

lemma reach_words_clean:
  "w \<in> set reach_kinds \<Longrightarrow> CHR ''.'' \<notin> set w \<and> CHR '':'' \<notin> set w"
  "w \<in> set reach_permissions \<Longrightarrow> CHR ''.'' \<notin> set w \<and> CHR '':'' \<notin> set w"
  by (auto simp: reach_kinds_def reach_permissions_def)

definition reach_text :: "reach \<Rightarrow> string" where
  "reach_text r = ''cw.'' @ reachKind r @ ''.'' @ reachPermission r @ '':'' @ reachID r"

definition reach_wf :: "reach \<Rightarrow> bool" where
  "reach_wf r \<longleftrightarrow> reachKind r \<in> set reach_kinds \<and> reachPermission r \<in> set reach_permissions \<and>
     (reachID r = ''*'' \<or> Identifier (reachID r))"

lemma reach_in_iff:
  "(\<exists>r \<in> R. reachKind r = k \<and> reachPermission r = p \<and> reachID r = i) \<longleftrightarrow>
     \<lparr>reachKind = k, reachPermission = p, reachID = i\<rparr> \<in> R"
proof
  assume "\<exists>r \<in> R. reachKind r = k \<and> reachPermission r = p \<and> reachID r = i"
  then obtain r where "r \<in> R" "reachKind r = k" "reachPermission r = p" "reachID r = i" by blast
  then show "\<lparr>reachKind = k, reachPermission = p, reachID = i\<rparr> \<in> R" by (cases r) auto
qed force

lemma split_three:
  assumes "CHR ''.'' \<notin> set a" "CHR ''.'' \<notin> set b" "CHR ''.'' \<notin> set c"
  shows "split_on CHR ''.'' (a @ ''.'' @ b @ ''.'' @ c) = [a, b, c]"
  using split_join [of "[a, b, c]" "CHR ''.''"] assms by simp

lemma length_three: "length p = 3 \<longleftrightarrow> (\<exists>a b c. p = [a, b, c])"
  by (auto simp: numeral_3_eq_3 length_Suc_conv)

lemma ParseReach_text: "reach_wf r \<Longrightarrow> ParseReach (reach_text r) = Inr r"
proof -
  assume wf: "reach_wf r"
  let ?prefix = "''cw'' @ ''.'' @ reachKind r @ ''.'' @ reachPermission r"
  have clean: "CHR ''.'' \<notin> set (reachKind r)" "CHR '':'' \<notin> set (reachKind r)"
    "CHR ''.'' \<notin> set (reachPermission r)" "CHR '':'' \<notin> set (reachPermission r)"
    using wf reach_words_clean by (auto simp: reach_wf_def)
  have "cut CHR '':'' (?prefix @ CHR '':'' # reachID r) = (?prefix, reachID r, True)"
    using clean by (subst cut_True) auto
  moreover have "split_on CHR ''.'' ?prefix = [''cw'', reachKind r, reachPermission r]"
    using clean by (intro split_three) auto
  ultimately show ?thesis
    using wf by (auto simp: ParseReach_def reach_text_def reach_wf_def Let_def)
qed

lemma ParseReach_sound:
  assumes "ParseReach s = Inr r"
  shows "reach_wf r" "s = reach_text r"
proof -
  obtain prefix i ok where c: "cut CHR '':'' s = (prefix, i, ok)"
    by (cases "cut CHR '':'' s") auto
  let ?p = "split_on CHR ''.'' prefix"
  have eq: "ParseReach s =
    (if \<not> ok \<or> length ?p \<noteq> 3 \<or> ?p ! 0 \<noteq> ''cw'' \<or> (i \<noteq> ''*'' \<and> \<not> Identifier i)
     then Inl IdentityErrInvalid
     else if \<not> member (?p ! 1) reach_kinds \<or> \<not> member (?p ! 2) reach_permissions
     then Inl IdentityErrInvalid
     else Inr \<lparr>reachKind = ?p ! 1, reachPermission = ?p ! 2, reachID = i\<rparr>)"
    by (simp only: ParseReach_def c Let_def prod.case)
  have conds: "ok" "length ?p = 3" "?p ! 0 = ''cw''" "i = ''*'' \<or> Identifier i"
    "?p ! 1 \<in> set reach_kinds" "?p ! 2 \<in> set reach_permissions"
    "r = \<lparr>reachKind = ?p ! 1, reachPermission = ?p ! 2, reachID = i\<rparr>"
    using assms unfolding eq guard_Inr member_iff de_Morgan_disj de_Morgan_conj not_not sum.inject
    by blast+
  show "reach_wf r" using conds by (simp add: reach_wf_def)
  obtain k q where p: "?p = [''cw'', k, q]"
    using conds(2,3) by (auto simp: length_three)
  have "prefix = join_on CHR ''.'' ?p" by simp
  then have "prefix = ''cw.'' @ k @ ''.'' @ q" by (simp only: p) simp
  moreover have "s = prefix @ CHR '':'' # i"
    using c conds(1) cut_True [of "CHR '':''" s prefix i] by simp
  ultimately show "s = reach_text r"
    using conds(7) p by (simp add: reach_text_def)
qed

lemma ParseReach_prefix: "ParseReach s = Inr r \<Longrightarrow> has_prefix s ''cw.''"
  using ParseReach_sound(2) by (auto simp: has_prefix_iff reach_text_def)

subsection \<open>Envelopes\<close>

definition scope_wf :: "string \<Rightarrow> bool" where
  "scope_wf s \<longleftrightarrow> s \<noteq> [] \<and> length s \<le> 256 \<and> list_all (\<lambda>c. 33 \<le> byte c \<and> byte c \<le> 126) s"

text \<open>The reach a list of scopes denotes: its addressed members, in order.\<close>

fun scopes_reach :: "string list \<Rightarrow> reach list" where
  "scopes_reach [] = []"
| "scopes_reach (s # ss) =
     (case ParseReach s of Inl _ \<Rightarrow> scopes_reach ss | Inr r \<Rightarrow> r # scopes_reach ss)"

lemma set_scopes_reach: "r \<in> set (scopes_reach ss) \<longleftrightarrow> (\<exists>s \<in> set ss. ParseReach s = Inr r)"
  by (induction ss) (auto split: sum.splits)

lemma set_scopes_reach_text: "r \<in> set (scopes_reach ss) \<longleftrightarrow> reach_wf r \<and> reach_text r \<in> set ss"
  unfolding set_scopes_reach using ParseReach_sound ParseReach_text by metis

lemma scope_loop_result:
  assumes "scope_loop ss acc seen e = Inr e'"
  shows "e' = e\<lparr>envScopes := envScopes e @ ss, envReach := envReach e @ scopes_reach ss\<rparr>"
    and "list_all scope_wf ss" "distinct ss" "set ss \<inter> set seen = {}"
    and "ss \<noteq> [] \<Longrightarrow> acc + sum_list (map length ss) \<le> 4096"
    and "\<forall>s \<in> set ss. has_prefix s ''cw.'' \<longrightarrow> (\<exists>r. ParseReach s = Inr r)"
proof -
  have "e' = e\<lparr>envScopes := envScopes e @ ss, envReach := envReach e @ scopes_reach ss\<rparr> \<and>
    list_all scope_wf ss \<and> distinct ss \<and> set ss \<inter> set seen = {} \<and>
    (ss \<noteq> [] \<longrightarrow> acc + sum_list (map length ss) \<le> 4096) \<and>
    (\<forall>s \<in> set ss. has_prefix s ''cw.'' \<longrightarrow> (\<exists>r. ParseReach s = Inr r))"
    using assms
  proof (induction ss acc seen e rule: scope_loop.induct)
    case (1 acc seen e)
    then show ?case by simp
  next
    case (2 s ss acc seen e)
    have ok: "scope_wf s" "s \<notin> set seen" "acc + length s \<le> 4096"
      using "2.prems" by (auto simp: scope_wf_def Let_def list_all_iff not_less split: if_splits)
    show ?case
    proof (cases "has_prefix s ''cw.''")
      case True
      then obtain r where r: "ParseReach s = Inr r"
        and rest: "scope_loop ss (acc + length s) (s # seen)
          (e\<lparr>envReach := envReach e @ [r], envScopes := envScopes e @ [s]\<rparr>) = Inr e'"
        using "2.prems" by (auto simp: Let_def split: if_splits sum.splits)
      note IH = "2.IH"(1) [OF refl _ _ True r rest]
      show ?thesis
        using IH ok r "2.prems" by (cases ss) (auto simp: Let_def split: if_splits)
    next
      case False
      then have rest: "scope_loop ss (acc + length s) (s # seen)
          (e\<lparr>envScopes := envScopes e @ [s]\<rparr>) = Inr e'"
        and np: "\<And>r. ParseReach s \<noteq> Inr r"
        using "2.prems" ParseReach_prefix by (auto simp: Let_def split: if_splits)
      note IH = "2.IH"(2) [OF refl _ _ False rest]
      from np obtain x where "ParseReach s = Inl x" by (cases "ParseReach s") auto
      then show ?thesis
        using IH ok False "2.prems" by (cases ss) (auto simp: Let_def split: if_splits)
    qed
  qed
  then show "e' = e\<lparr>envScopes := envScopes e @ ss, envReach := envReach e @ scopes_reach ss\<rparr>"
    and "list_all scope_wf ss" "distinct ss" "set ss \<inter> set seen = {}"
    and "ss \<noteq> [] \<Longrightarrow> acc + sum_list (map length ss) \<le> 4096"
    and "\<forall>s \<in> set ss. has_prefix s ''cw.'' \<longrightarrow> (\<exists>r. ParseReach s = Inr r)"
    by simp_all
qed

end
