(* ===== verification/Access.thy ===== *)
theory Access
  imports Identity
begin

text \<open>
  Enforcement of signed authority, \<^verbatim>\<open>internal/access/access.go\<close>: exact action and resource
  checks, the pre-query selection, and the execution and retained-artifact rules. Each
  operation takes one reading of the envelope's clock.
\<close>

datatype access_error = ErrUnauthenticated | ErrForbidden | ErrNotFound

record resource =
  resTenant :: string
  resKind :: string
  resPermission :: string
  resID :: string

definition resource_valid :: "resource \<Rightarrow> bool" where
  "resource_valid r =
     (if \<not> Identifier (resTenant r) \<or> \<not> Identifier (resID r) then False
      else is_ok (ParseReach (''cw.'' @ resKind r @ ''.'' @ resPermission r @ '':'' @ resID r)) \<and>
           (resKind r \<noteq> ''tenant'' \<or> resID r = resTenant r))"

definition reach_matches :: "resource \<Rightarrow> reach \<Rightarrow> bool" where
  "reach_matches r s \<longleftrightarrow> reachKind s = resKind r \<and> reachPermission s = resPermission r \<and>
     (reachID s = resID r \<or> reachID s = ''*'')"

definition reaches :: "envelope \<Rightarrow> resource \<Rightarrow> bool" where
  "reaches e r =
     (if \<not> resource_valid r \<or> resTenant r \<noteq> envTenant e then False
      else list_ex (reach_matches r) (envReach e))"

definition Require :: "go_time \<Rightarrow> envelope \<Rightarrow> string \<Rightarrow> resource list \<Rightarrow> access_error + unit" where
  "Require now e action resources =
     (if \<not> Envelope_Valid now e then Inl ErrUnauthenticated
      else if \<not> Envelope_Has now e action then Inl ErrForbidden
      else if length resources = 0 then Inl ErrNotFound
      else each (\<lambda>r. if \<not> reaches e r then Inl ErrNotFound else Inr ()) resources)"

definition Tenant :: "envelope \<Rightarrow> string \<Rightarrow> resource" where
  "Tenant e permission =
     \<lparr>resTenant = envTenant e, resKind = ''tenant'', resPermission = permission, resID = envTenant e\<rparr>"

text \<open>The error of \<^verbatim>\<open>StoreScope\<close> is that of the check or that of the coordinates.\<close>

definition StoreScope ::
  "go_time \<Rightarrow> envelope \<Rightarrow> string \<Rightarrow> string \<Rightarrow> (access_error + store_error) + store_scope" where
  "StoreScope now e action permission =
     (case Require now e action [Tenant e permission] of
        Inl err \<Rightarrow> Inl (Inl err)
      | Inr _ \<Rightarrow> (case NewScope (envTenant e) (envUser e) of
                    Inl err \<Rightarrow> Inl (Inr err)
                  | Inr s \<Rightarrow> Inr s))"

record selection =
  selAuthority :: envelope
  selTenant :: string
  selIDs :: "string list"
  selAll :: bool

definition Selection_Tenant :: "go_time \<Rightarrow> selection \<Rightarrow> string" where
  "Selection_Tenant now s = (if \<not> Envelope_Valid now (selAuthority s) then [] else selTenant s)"

definition Selection_IDs :: "go_time \<Rightarrow> selection \<Rightarrow> string list" where
  "Selection_IDs now s = (if \<not> Envelope_Valid now (selAuthority s) then [] else selIDs s)"

definition Selection_All :: "go_time \<Rightarrow> selection \<Rightarrow> bool" where
  "Selection_All now s \<longleftrightarrow> Envelope_Valid now (selAuthority s) \<and> selAll s \<and> selTenant s \<noteq> []"

text \<open>\<^verbatim>\<open>sort.SearchStrings\<close>: the least index whose string is not below the key.\<close>

definition SearchStrings :: "string list \<Rightarrow> string \<Rightarrow> nat" where
  "SearchStrings a x = nat (search_loop (\<lambda>i. x \<le> a ! nat i) 0 (int (length a)))"

definition Selection_Contains :: "go_time \<Rightarrow> selection \<Rightarrow> string \<Rightarrow> string \<Rightarrow> bool" where
  "Selection_Contains now s tenant ident =
     (if \<not> Envelope_Valid now (selAuthority s) \<or> selTenant s = [] \<or> tenant \<noteq> selTenant s \<or>
         \<not> Identifier ident
      then False
      else if selAll s then True
      else let i = SearchStrings (selIDs s) ident
           in i < length (selIDs s) \<and> selIDs s ! i = ident)"

fun constrain_loop :: "envelope \<Rightarrow> string \<Rightarrow> string \<Rightarrow> reach list \<Rightarrow> selection \<Rightarrow> selection" where
  "constrain_loop e kind permission [] s = s"
| "constrain_loop e kind permission (r # rs) s =
     constrain_loop e kind permission rs
       (if reachKind r \<noteq> kind \<or> reachPermission r \<noteq> permission then s
        else if reachID r = ''*'' then s\<lparr>selAll := True\<rparr>
        else if kind \<noteq> ''tenant'' \<or> reachID r = envTenant e
        then s\<lparr>selIDs := selIDs s @ [reachID r]\<rparr>
        else s)"

definition Constrain ::
  "go_time \<Rightarrow> envelope \<Rightarrow> string \<Rightarrow> string \<Rightarrow> string \<Rightarrow> access_error + selection" where
  "Constrain now e action kind permission =
     (if \<not> Envelope_Valid now e then Inl ErrUnauthenticated
      else if \<not> Envelope_Has now e action then Inl ErrForbidden
      else if \<not> is_ok (ParseReach (''cw.'' @ kind @ ''.'' @ permission @ '':probe''))
      then Inl ErrNotFound
      else let s = constrain_loop e kind permission (envReach e)
                     \<lparr>selAuthority = e, selTenant = envTenant e, selIDs = [], selAll = False\<rparr>;
               s = s\<lparr>selIDs := sort (selIDs s)\<rparr>
           in if \<not> selAll s \<and> length (selIDs s) = 0 then Inl ErrNotFound else Inr s)"

record execution =
  exTarget :: resource
  exDependencies :: "resource list"
  exContexts :: "resource list"

definition RequireExecution :: "go_time \<Rightarrow> envelope \<Rightarrow> execution \<Rightarrow> access_error + unit" where
  "RequireExecution now e x =
     (if resPermission (exTarget x) \<noteq> ''execute'' \<or> length (exDependencies x) = 0 \<or>
         length (exContexts x) = 0
      then Inl ErrNotFound
      else if list_ex (\<lambda>r. resPermission r \<noteq> ''query'' \<and> resPermission r \<noteq> ''execute'') (exDependencies x)
      then Inl ErrNotFound
      else if list_ex (\<lambda>r. resKind r \<noteq> ''execution_context'' \<or> resPermission r \<noteq> ''use'') (exContexts x)
      then Inl ErrNotFound
      else Require now e ''reporting.execute'' (exTarget x # exDependencies x @ exContexts x))"

record artifact =
  artTenant :: string
  artRunID :: string
  artParentKind :: string
  artParentID :: string
  artPublished :: bool
  artPrivate :: bool
  artContexts :: "resource list"

definition RequireArtifact :: "go_time \<Rightarrow> envelope \<Rightarrow> artifact \<Rightarrow> access_error + unit" where
  "RequireArtifact now e a =
     (if \<not> Envelope_Valid now e then Inl ErrUnauthenticated
      else if \<not> Envelope_Has now e ''reporting.read'' then Inl ErrForbidden
      else if artTenant a \<noteq> envTenant e \<or> \<not> Identifier (artRunID a) \<or> \<not> Identifier (artParentID a) \<or>
              (artParentKind a \<noteq> ''report'' \<and> artParentKind a \<noteq> ''block'') \<or> length (artContexts a) = 0
      then Inl ErrNotFound
      else let run = \<lparr>resTenant = artTenant a, resKind = ''run'', resPermission = ''read'', resID = artRunID a\<rparr>;
               parent = \<lparr>resTenant = artTenant a, resKind = artParentKind a, resPermission = ''read'',
                         resID = artParentID a\<rparr>
           in if \<not> reaches e run \<and> (\<not> artPublished a \<or> artPrivate a \<or> \<not> reaches e parent)
              then Inl ErrNotFound
              else case each (\<lambda>r. if resKind r \<noteq> ''execution_context'' \<or> resPermission r \<noteq> ''use'' \<or>
                                     \<not> reaches e r
                                  then Inl ErrNotFound else Inr ()) (artContexts a) of
                     Inl err \<Rightarrow> Inl err
                   | Inr _ \<Rightarrow>
                       if artPrivate a
                       then Require now e ''reporting.preview''
                              [\<lparr>resTenant = artTenant a, resKind = artParentKind a,
                                resPermission = ''preview'', resID = artParentID a\<rparr>]
                       else Inr ())"

subsection \<open>The contract of a resource guard\<close>

text \<open>
  What every caller of \<open>Require\<close> relies on: a request is granted exactly when each of
  its resources is, and only resources of the signed tenant are granted.
\<close>

locale resource_guard =
  fixes require :: "'env \<Rightarrow> string \<Rightarrow> resource list \<Rightarrow> access_error + unit"
    and tenant_of :: "'env \<Rightarrow> string"
  assumes require_each:
    "require e a rs = Inr () \<longleftrightarrow> rs \<noteq> [] \<and> (\<forall>r \<in> set rs. require e a [r] = Inr ())"
    and require_tenant: "require e a [r] = Inr () \<Longrightarrow> resTenant r = tenant_of e"
begin

lemma require_append:
  "rs \<noteq> [] \<Longrightarrow> ss \<noteq> [] \<Longrightarrow>
     require e a (rs @ ss) = Inr () \<longleftrightarrow> require e a rs = Inr () \<and> require e a ss = Inr ()"
  by (subst (1 2 3) require_each) auto

lemma require_subset:
  "require e a rs = Inr () \<Longrightarrow> ss \<noteq> [] \<Longrightarrow> set ss \<subseteq> set rs \<Longrightarrow> require e a ss = Inr ()"
  by (subst require_each) (use require_each in blast)

lemma require_foreign:
  "r \<in> set rs \<Longrightarrow> resTenant r \<noteq> tenant_of e \<Longrightarrow> require e a rs \<noteq> Inr ()"
  using require_each require_tenant by blast

end

lemma each_guard: "each (\<lambda>r. if P r then Inl e else Inr ()) rs = Inr u \<longleftrightarrow> (\<forall>r \<in> set rs. \<not> P r)"
  by simp

lemma Require_iff:
  "Require now e a rs = Inr u \<longleftrightarrow>
     Envelope_Valid now e \<and> a \<in> set (envScopes e) \<and> rs \<noteq> [] \<and> (\<forall>r \<in> set rs. reaches e r)"
  by (auto simp: Require_def Envelope_Has_def)

interpretation guard: resource_guard "Require now" envTenant for now
proof
  fix e a rs
  show "Require now e a rs = Inr () \<longleftrightarrow> rs \<noteq> [] \<and> (\<forall>r \<in> set rs. Require now e a [r] = Inr ())"
    by (auto simp: Require_iff neq_Nil_conv)
next
  fix e a r
  show "Require now e a [r] = Inr () \<Longrightarrow> resTenant r = envTenant e"
    by (auto simp: Require_iff reaches_def split: if_splits)
qed

subsection \<open>Envelopes made by \<open>FromVerified\<close>\<close>

lemma FromVerified_result:
  assumes "FromVerified now tenant user session scopes til = Inr e"
  shows "e = \<lparr>envTenant = tenant, envUser = user, envSession = session, envScopes = scopes,
           envReach = scopes_reach scopes, envUntil = til, envClock = True\<rparr>"
    and "Identifier tenant" "Identifier user" "Identifier session" "now < til"
    and "length scopes \<le> 32" "list_all scope_wf scopes" "distinct scopes"
    and "sum_list (map length scopes) \<le> 4096"
    and "\<forall>s \<in> set scopes. has_prefix s ''cw.'' \<longrightarrow> (\<exists>r. ParseReach s = Inr r)"
proof -
  let ?e0 = "\<lparr>envTenant = tenant, envUser = user, envSession = session, envScopes = [],
                   envReach = [], envUntil = til, envClock = True\<rparr>"
  have loop: "scope_loop scopes 0 [] ?e0 = Inr e" and v: "Envelope_Valid now e"
    and ids: "Identifier tenant" "Identifier user" "Identifier session" "length scopes \<le> 32"
    using assms by (auto simp: FromVerified_def)
  note r = scope_loop_result [OF loop]
  show e: "e = \<lparr>envTenant = tenant, envUser = user, envSession = session, envScopes = scopes,
           envReach = scopes_reach scopes, envUntil = til, envClock = True\<rparr>"
    using r(1) by simp
  show "Identifier tenant" "Identifier user" "Identifier session" "length scopes \<le> 32"
    by (fact ids)+
  show "now < til" using v e by (simp add: Envelope_Valid_def)
  show "list_all scope_wf scopes" "distinct scopes"
    "\<forall>s \<in> set scopes. has_prefix s ''cw.'' \<longrightarrow> (\<exists>r. ParseReach s = Inr r)"
    using r by auto
  show "sum_list (map length scopes) \<le> 4096" using r(5) by (cases scopes) auto
qed

lemma FromVerified_fields:
  assumes "FromVerified now tenant user session scopes til = Inr e"
  shows "envTenant e = tenant" "envUser e = user" "envSession e = session" "envScopes e = scopes"
    "envReach e = scopes_reach scopes" "Envelope_Valid later e \<longleftrightarrow> later < til" "tenant \<noteq> []"
  using FromVerified_result(1,2) [OF assms] Identifier_nonempty
  by (auto simp: Envelope_Valid_def)

text \<open>The scope strings that grant a permission on one resource.\<close>

definition grant_texts :: "string \<Rightarrow> string \<Rightarrow> string \<Rightarrow> string list" where
  "grant_texts kind permission ident =
     [''cw.'' @ kind @ ''.'' @ permission @ '':'' @ ident, ''cw.'' @ kind @ ''.'' @ permission @ '':*'']"

definition resource_named :: "resource \<Rightarrow> bool" where
  "resource_named r \<longleftrightarrow> resKind r \<in> set reach_kinds \<and> resPermission r \<in> set reach_permissions \<and>
     Identifier (resID r) \<and> (resKind r = ''tenant'' \<longrightarrow> resID r = resTenant r)"

lemma resource_named_valid: "Identifier (resTenant r) \<Longrightarrow> resource_named r \<Longrightarrow> resource_valid r"
  using ParseReach_text [of "\<lparr>reachKind = resKind r, reachPermission = resPermission r, reachID = resID r\<rparr>"]
  by (simp add: resource_valid_def resource_named_def reach_wf_def reach_text_def)

lemma reaches_iff:
  assumes "FromVerified now0 tenant user session scopes til = Inr e"
  shows "reaches e r \<longleftrightarrow> resTenant r = tenant \<and> resource_named r \<and>
    (\<exists>g \<in> set (grant_texts (resKind r) (resPermission r) (resID r)). g \<in> set scopes)"
proof -
  note f = FromVerified_fields [OF assms] and tn = FromVerified_result(2) [OF assms]
  let ?mk = "\<lambda>i. \<lparr>reachKind = resKind r, reachPermission = resPermission r, reachID = i\<rparr>"
  have ex: "list_ex (reach_matches r) (scopes_reach scopes) \<longleftrightarrow>
    ?mk (resID r) \<in> set (scopes_reach scopes) \<or> ?mk ''*'' \<in> set (scopes_reach scopes)"
    unfolding list_ex_iff reach_matches_def reach_in_iff [symmetric] by blast
  have mem: "?mk i \<in> set (scopes_reach scopes) \<longleftrightarrow> reach_wf (?mk i) \<and>
    ''cw.'' @ resKind r @ ''.'' @ resPermission r @ '':'' @ i \<in> set scopes" for i
    by (simp add: set_scopes_reach_text reach_text_def)
  have named: "resource_valid r \<Longrightarrow> reach_wf (?mk i) \<Longrightarrow> resource_named r" for i
    by (auto simp: resource_valid_def resource_named_def reach_wf_def split: if_splits)
  have wf: "resource_named r \<Longrightarrow> reach_wf (?mk (resID r)) \<and> reach_wf (?mk ''*'')"
    by (simp add: resource_named_def reach_wf_def)
  show ?thesis
    using tn ex named wf resource_named_valid [of r]
    by (auto simp: reaches_def mem grant_texts_def f)
qed

text \<open>
  C1: authority is exactly what was signed. For an envelope verified with tenant, scopes
  and expiry, a request is granted if and only if the clock is before the expiry, the
  action is literally one of the signed scopes, at least one resource is named, and every
  resource lies in the signed tenant, is well formed, and its grant string (for its own
  identifier or for the wildcard) is literally one of the signed scopes.
\<close>

theorem require_exactly_signed:
  assumes "FromVerified now0 tenant user session scopes til = Inr e"
  shows "Require now e action rs = Inr () \<longleftrightarrow>
    now < til \<and> action \<in> set scopes \<and> rs \<noteq> [] \<and>
    (\<forall>r \<in> set rs. resTenant r = tenant \<and> resource_named r \<and>
       (\<exists>g \<in> set (grant_texts (resKind r) (resPermission r) (resID r)). g \<in> set scopes))"
  by (simp add: Require_iff reaches_iff [OF assms] FromVerified_fields [OF assms])

theorem require_exactly_signed_witness:
  "\<exists>e. FromVerified 0 ''acme'' ''ana'' ''s1'' [''reporting.read'', ''cw.run.read:r1''] 100 = Inr e \<and>
     Require 5 e ''reporting.read''
       [\<lparr>resTenant = ''acme'', resKind = ''run'', resPermission = ''read'', resID = ''r1''\<rparr>] = Inr () \<and>
     Require 5 e ''reporting.read''
       [\<lparr>resTenant = ''acme'', resKind = ''run'', resPermission = ''read'', resID = ''r2''\<rparr>] \<noteq> Inr ()"
proof -
  obtain e where e:
    "FromVerified 0 ''acme'' ''ana'' ''s1'' [''reporting.read'', ''cw.run.read:r1''] 100 = Inr e"
    by (rule that) code_simp
  have "resource_named \<lparr>resTenant = ''acme'', resKind = ''run'', resPermission = ''read'', resID = ''r1''\<rparr>"
    by code_simp
  then show ?thesis
    using e require_exactly_signed [OF e, of 5] by (auto simp: grant_texts_def)
qed

subsection \<open>The pre-query selection\<close>

text \<open>The search contract holds for a sorted list and its order.\<close>

interpretation sorted_ids: monotone_search "\<lambda>i. x \<le> sort a ! nat i" 0 "int (length (a :: string list))" for x a
  by unfold_locales (auto simp: sorted_iff_nth_mono [THEN iffD1, OF sorted_sort, rule_format] intro: order_trans)

lemma SearchStrings_spec:
  assumes "sorted a"
  shows "(SearchStrings a x < length a \<and> a ! SearchStrings a x = x) \<longleftrightarrow> x \<in> set a"
proof -
  define k where "k = search_loop (\<lambda>i. x \<le> a ! nat i) 0 (int (length a))"
  have k: "0 \<le> k" "k \<le> int (length a)"
    using sorted_ids.search_ge [of a x] sorted_ids.search_le [of a x] by (simp_all add: k_def sorted_sort_id [OF assms])
  have iff: "x \<le> a ! i \<longleftrightarrow> nat k \<le> i" if "i < length a" for i
    using sorted_ids.search_iff [of a "int i" x] that k by (simp add: sorted_sort_id [OF assms] k_def [symmetric] nat_le_iff)
  have S: "SearchStrings a x = nat k" by (simp add: SearchStrings_def k_def)
  show ?thesis
  proof
    assume "x \<in> set a"
    then obtain i where i: "i < length a" "a ! i = x" by (auto simp: in_set_conv_nth)
    then have "nat k \<le> i" using iff by auto
    then have lt: "nat k < length a" and "a ! nat k \<le> a ! i"
      using i assms by (auto simp: sorted_iff_nth_mono)
    with i(2) iff [OF lt] show "SearchStrings a x < length a \<and> a ! SearchStrings a x = x"
      unfolding S by (auto intro: antisym)
  qed (auto simp: S in_set_conv_nth)
qed

text \<open>What the loop of \<open>Constrain\<close> collects.\<close>

definition sel_ids :: "envelope \<Rightarrow> string \<Rightarrow> string \<Rightarrow> string set" where
  "sel_ids e kind permission = {reachID r | r. r \<in> set (envReach e) \<and> reachKind r = kind \<and>
     reachPermission r = permission \<and> reachID r \<noteq> ''*'' \<and>
     (kind \<noteq> ''tenant'' \<or> reachID r = envTenant e)}"

definition sel_star :: "envelope \<Rightarrow> string \<Rightarrow> string \<Rightarrow> bool" where
  "sel_star e kind permission \<longleftrightarrow> (\<exists>r \<in> set (envReach e). reachKind r = kind \<and>
     reachPermission r = permission \<and> reachID r = ''*'')"

lemma constrain_loop_result:
  "selAuthority (constrain_loop e k p rs s) = selAuthority s"
  "selTenant (constrain_loop e k p rs s) = selTenant s"
  "selAll (constrain_loop e k p rs s) \<longleftrightarrow> selAll s \<or> (\<exists>r \<in> set rs. reachKind r = k \<and>
     reachPermission r = p \<and> reachID r = ''*'')"
  "set (selIDs (constrain_loop e k p rs s)) = set (selIDs s) \<union> {reachID r | r. r \<in> set rs \<and>
     reachKind r = k \<and> reachPermission r = p \<and> reachID r \<noteq> ''*'' \<and>
     (k \<noteq> ''tenant'' \<or> reachID r = envTenant e)}"
  by (induction rs arbitrary: s) auto

lemma constrain_collects:
  fixes e k p
  defines "s \<equiv> constrain_loop e k p (envReach e)
     \<lparr>selAuthority = e, selTenant = envTenant e, selIDs = [], selAll = False\<rparr>"
  shows "set (selIDs s) = sel_ids e k p" "selAll s \<longleftrightarrow> sel_star e k p"
    "selAuthority s = e" "selTenant s = envTenant e"
  unfolding s_def constrain_loop_result sel_ids_def sel_star_def by simp_all

lemma Constrain_result:
  assumes "Constrain now e a k p = Inr s"
  shows "Envelope_Valid now e" "a \<in> set (envScopes e)" "selAuthority s = e"
    "selTenant s = envTenant e" "sorted (selIDs s)"
    "set (selIDs s) = sel_ids e k p" "selAll s \<longleftrightarrow> sel_star e k p"
  using assms
  by (auto simp: Constrain_def Let_def constrain_collects Envelope_Has_def)

lemma Constrain_denied:
  assumes "Constrain now e a k p = Inl err"
  shows "\<not> Envelope_Valid now e \<or> a \<notin> set (envScopes e) \<or>
    \<not> is_ok (ParseReach (''cw.'' @ k @ ''.'' @ p @ '':probe'')) \<or>
    (sel_ids e k p = {} \<and> \<not> sel_star e k p)"
  using assms constrain_collects(1) [of e k p]
  by (auto simp: Constrain_def Let_def Envelope_Has_def constrain_collects(2) split: if_splits)

lemma Identifier_probe: "Identifier ''probe''"
  by code_simp

lemma sel_iff_reaches:
  assumes "FromVerified now0 tenant user session scopes til = Inr e" and "k \<noteq> ''tenant''"
  shows "reaches e \<lparr>resTenant = t, resKind = k, resPermission = p, resID = i\<rparr> \<longleftrightarrow>
    t = tenant \<and> Identifier i \<and> (sel_star e k p \<or> i \<in> sel_ids e k p)"
proof -
  note f = FromVerified_fields [OF assms(1)]
  let ?mk = "\<lambda>j. \<lparr>reachKind = k, reachPermission = p, reachID = j\<rparr>"
  have r: "r \<in> set (envReach e) \<longleftrightarrow> reach_wf r \<and> reach_text r \<in> set scopes" for r
    by (simp add: f set_scopes_reach_text)
  have star: "sel_star e k p \<longleftrightarrow> ?mk ''*'' \<in> set (envReach e)"
    by (simp add: sel_star_def reach_in_iff)
  have ids: "i \<in> sel_ids e k p \<longleftrightarrow> ?mk i \<in> set (envReach e)" if "i \<noteq> ''*''"
    unfolding sel_ids_def reach_in_iff [symmetric] using that assms(2) by blast
  show ?thesis
  proof (cases "Identifier i")
    case False
    then show ?thesis by (simp add: reaches_iff [OF assms(1)] resource_named_def)
  next
    case True
    then have "i \<noteq> ''*''" using Identifier_not_star by auto
    with True ids star show ?thesis
      using assms(2)
      by (auto simp: reaches_iff [OF assms(1)] resource_named_def grant_texts_def r reach_wf_def
          reach_text_def)
  qed
qed



text \<open>
  C3: retained artifacts. An artifact is readable only inside the signed tenant, with
  \<open>reporting.read\<close> and every recorded execution context granted, and either the exact run
  granted or an eligible published, non-private parent; a private artifact additionally
  needs the \<open>reporting.preview\<close> scope and preview reach on its parent, even when the
  exact run is granted.
\<close>

theorem artifact_access:
  assumes "RequireArtifact now e a = Inr ()"
  shows "artTenant a = envTenant e \<and> Envelope_Valid now e \<and> ''reporting.read'' \<in> set (envScopes e) \<and>
    artContexts a \<noteq> [] \<and>
    (\<forall>r \<in> set (artContexts a). resKind r = ''execution_context'' \<and> resPermission r = ''use'' \<and> reaches e r) \<and>
    (reaches e \<lparr>resTenant = artTenant a, resKind = ''run'', resPermission = ''read'', resID = artRunID a\<rparr> \<or>
     artPublished a \<and> \<not> artPrivate a \<and>
     reaches e \<lparr>resTenant = artTenant a, resKind = artParentKind a, resPermission = ''read'',
                resID = artParentID a\<rparr>) \<and>
    (artPrivate a \<longrightarrow> ''reporting.preview'' \<in> set (envScopes e) \<and>
       reaches e \<lparr>resTenant = artTenant a, resKind = artParentKind a, resPermission = ''preview'',
                  resID = artParentID a\<rparr>)"
  using assms
  by (auto simp: RequireArtifact_def Let_def Require_iff Envelope_Has_def split: if_splits)

theorem artifact_access_witness:
  "\<exists>e a. FromVerified 0 ''acme'' ''ana'' ''s1''
      [''reporting.read'', ''reporting.preview'', ''cw.run.read:r1'', ''cw.report.preview:p1'',
       ''cw.execution_context.use:c1''] 100 = Inr e \<and> artPrivate a \<and>
    RequireArtifact 5 e a = Inr () \<and> ''reporting.preview'' \<in> set (envScopes e)"
proof -
  define a where "a = \<lparr>artTenant = ''acme'', artRunID = ''r1'', artParentKind = ''report'',
    artParentID = ''p1'', artPublished = False, artPrivate = True,
    artContexts = [\<lparr>resTenant = ''acme'', resKind = ''execution_context'', resPermission = ''use'',
                    resID = ''c1''\<rparr>]\<rparr>"
  define e where "e = projr (FromVerified 0 ''acme'' ''ana'' ''s1''
      [''reporting.read'', ''reporting.preview'', ''cw.run.read:r1'', ''cw.report.preview:p1'',
       ''cw.execution_context.use:c1''] 100)"
  have e: "FromVerified 0 ''acme'' ''ana'' ''s1''
      [''reporting.read'', ''reporting.preview'', ''cw.run.read:r1'', ''cw.report.preview:p1'',
       ''cw.execution_context.use:c1''] 100 = Inr e"
    unfolding e_def by code_simp
  have r: "RequireArtifact 5 e a = Inr ()" unfolding e_def a_def by code_simp
  have "artPrivate a" by (simp add: a_def)
  with e r artifact_access [OF r] show ?thesis by blast
qed

end
