(* ===== verification/Schedule.thy ===== *)
theory Schedule
  imports Text "HOL-Library.Signed_Division"
begin

text \<open>
  Recurrence definitions of the job scheduler (\<^verbatim>\<open>internal/jobs/schedule.go\<close>): validation, the next
  occurrence after an instant and the exact occurrence at or before one. The cron library and the
  pinned time zone archive are the fields of one record that the definitions take as an argument.
  Instants are nanoseconds; a \<^verbatim>\<open>time.Time\<close> whose calendar year is read carries its zone offset.
\<close>

datatype jobs_error = JInvalid | JBusy | JEmpty | JAuthority | JTransient | JRunning

subsection \<open>Times\<close>

record stamp =
  stInstant :: go_time
  stOffset :: int

definition utc :: "go_time \<Rightarrow> stamp" where
  "utc t = \<lparr>stInstant = t, stOffset = 0\<rparr>"

definition Unix :: "go_time \<Rightarrow> int" where
  "Unix t = t div second"

definition Nanosecond :: "go_time \<Rightarrow> int" where
  "Nanosecond t = t mod second"

text \<open>
  \<^verbatim>\<open>t.Year() < 2000 || t.Year() > 2100\<close>, by the first second of 2000 and of 2101 on the wall clock
  of the time's own zone.
\<close>

definition year_out :: "stamp \<Rightarrow> bool" where
  "year_out t \<longleftrightarrow> (let local = Unix (stInstant t) + stOffset t in local < 946684800 \<or> local \<ge> 4133980800)"

text \<open>
  \<open>zone_file\<close> tells whether the archive has a readable zone of that name; \<open>cron_parse\<close> is the parser
  for five fields together with the schedule it returns, in a zone: the next occurrence, or
  \<^term>\<open>None\<close> for the zero time.
\<close>

record calendar =
  zone_file :: "string \<Rightarrow> bool"
  cron_parse :: "string \<Rightarrow> string \<Rightarrow> (go_time \<Rightarrow> go_time option) option"

definition Location :: "calendar \<Rightarrow> string \<Rightarrow> bool" where
  "Location cal name \<longleftrightarrow>
     name = ''UTC'' \<or>
     \<not> (name = [] \<or> length name > 128 \<or> name = ''Local'' \<or> contains name ''..'' \<or> has_prefix name ''/'' \<or>
        ContainsAny name [CHR 0x5C, CHR 0x00, CHR 0x0D, CHR 0x0A]) \<and> zone_file cal name"

subsection \<open>Definitions\<close>

record spec =
  specType :: string
  Cron :: string
  Timezone :: string
  IntervalSeconds :: int
  Anchor :: stamp
  Missed :: string
  MaxCatchUp :: int
  Overlap :: string

definition spec_parsed :: "calendar \<Rightarrow> spec \<Rightarrow> jobs_error + (go_time \<Rightarrow> go_time option)" where
  "spec_parsed cal s =
     (if \<not> Location cal (Timezone s) then Inl JInvalid
      else case cron_parse cal (Timezone s) (Cron s) of None \<Rightarrow> Inl JInvalid | Some f \<Rightarrow> Inr f)"

definition Spec_Validate :: "calendar \<Rightarrow> spec \<Rightarrow> jobs_error + unit" where
  "Spec_Validate cal s =
     (if Missed s \<noteq> ''skip'' \<and> Missed s \<noteq> ''catch_up'' \<or> Overlap s \<noteq> ''skip'' \<and> Overlap s \<noteq> ''queue'' \<or>
         MaxCatchUp s < 0 \<or> MaxCatchUp s > 32 \<or> Missed s = ''catch_up'' \<and> MaxCatchUp s < 1 \<or>
         Timezone s = [] \<or> length (Timezone s) > 128 then Inl JInvalid
      else if \<not> Location cal (Timezone s) then Inl JInvalid
      else if specType s = ''manual'' then
        (if Cron s \<noteq> [] \<or> IntervalSeconds s \<noteq> 0 \<or> stInstant (Anchor s) \<noteq> zero_time then Inl JInvalid else Inr ())
      else if specType s = ''interval'' then
        (if Cron s \<noteq> [] \<or> IntervalSeconds s < 60 \<or> IntervalSeconds s > 31 * 86400 \<or>
            stInstant (Anchor s) = zero_time \<or> year_out (Anchor s) \<or> Nanosecond (stInstant (Anchor s)) \<noteq> 0
         then Inl JInvalid else Inr ())
      else if specType s = ''cron'' then
        (if IntervalSeconds s \<noteq> 0 \<or> stInstant (Anchor s) \<noteq> zero_time \<or> length (Cron s) > 128 \<or>
            ContainsAny (Cron s) [CHR ''@'', CHR ''='', CHR 0x0D, CHR 0x0A] then Inl JInvalid
         else case spec_parsed cal s of Inl err \<Rightarrow> Inl err | Inr _ \<Rightarrow> Inr ())
      else Inl JInvalid)"

subsection \<open>Occurrences\<close>

text \<open>
  The arithmetic of an interval, anchored and never drifting from the asking time. Go's integer
  division truncates towards zero, as \<^term>\<open>(sdiv)\<close> does.
\<close>

definition interval_after :: "spec \<Rightarrow> go_time \<Rightarrow> go_time" where
  "interval_after s t =
     (let anchor = Unix (stInstant (Anchor s)); n = (Unix t - anchor) sdiv IntervalSeconds s in
      if Unix t < anchor then stInstant (Anchor s) else (anchor + (n + 1) * IntervalSeconds s) * second)"

definition Spec_Next :: "calendar \<Rightarrow> spec \<Rightarrow> stamp \<Rightarrow> jobs_error + go_time" where
  "Spec_Next cal s after =
     (if \<not> is_ok (Spec_Validate cal s) \<or> year_out after then Inl JInvalid
      else if specType s = ''manual'' then Inr zero_time
      else if specType s = ''interval'' then
        Inr (interval_after s (stInstant after))
      else case spec_parsed cal s of
             Inl err \<Rightarrow> Inl err
           | Inr f \<Rightarrow> (case f (stInstant after) of None \<Rightarrow> Inl JInvalid | Some t \<Rightarrow> Inr t))"

definition not_by :: "(go_time \<Rightarrow> go_time option) \<Rightarrow> go_time \<Rightarrow> int \<Rightarrow> bool" where
  "not_by f t mid \<longleftrightarrow> (case f (mid * second) of None \<Rightarrow> True | Some u \<Rightarrow> u > t)"

definition Spec_Previous :: "calendar \<Rightarrow> spec \<Rightarrow> stamp \<Rightarrow> jobs_error + go_time" where
  "Spec_Previous cal s st =
     (let t = stInstant st in
      if \<not> is_ok (Spec_Validate cal s) \<or> year_out st then Inl JInvalid
      else if specType s = ''manual'' then Inr (t - t mod 1000)
      else if specType s = ''interval'' then
        (let a = stInstant (Anchor s) in
         if t < a then Inr (a - IntervalSeconds s * second)
         else Inr ((Unix a + ((Unix t - Unix a) sdiv IntervalSeconds s) * IntervalSeconds s) * second))
      else case spec_parsed cal s of Inl err \<Rightarrow> Inl err | Inr f \<Rightarrow>
        (let lo = Unix t - 366 * 5 * 86400; hi = Unix t in
         if not_by f t lo then Inl JInvalid
         else let p = search_loop (not_by f t) lo hi * second in
              if f (p - second) \<noteq> Some p then Inl JInvalid else Inr p))"

subsection \<open>The contract of a recurrence\<close>

text \<open>
  What the callers rely on of a schedule: it names the least occurrence after an instant, it finds
  one whenever there is one within the five years the search looks back, and occurrences fall on
  whole seconds.
\<close>

definition search_window :: int where
  "search_window = 366 * 5 * 86400 * second"

locale recurrence =
  fixes nxt :: "go_time \<Rightarrow> go_time option" and occ :: "go_time set"
  assumes next_least: "nxt t = Some u \<Longrightarrow> u \<in> occ \<and> t < u \<and> (\<forall>v \<in> occ. t < v \<longrightarrow> u \<le> v)"
    and next_found: "v \<in> occ \<Longrightarrow> t < v \<Longrightarrow> v \<le> t + search_window \<Longrightarrow> \<exists>u. nxt t = Some u"
    and whole: "v \<in> occ \<Longrightarrow> v mod second = 0"
begin

lemma next_eq: "v \<in> occ \<Longrightarrow> t < v \<Longrightarrow> v \<le> t + search_window \<Longrightarrow> \<forall>w \<in> occ. t < w \<longrightarrow> v \<le> w \<Longrightarrow> nxt t = Some v"
  using next_found [of v t] next_least [of t] by (metis order_antisym)

lemma whole_eq: "v \<in> occ \<Longrightarrow> v div second * second = v"
  using whole [of v] by (simp add: mod_eq_0_iff_dvd)

lemma whole_le: "v \<in> occ \<Longrightarrow> v \<le> t \<Longrightarrow> v \<le> Unix t * second"
  using whole_eq [of v] zdiv_mono1 [of v t second] by (simp add: Unix_def)

lemma not_by_iff:
  assumes "Unix t * second - search_window \<le> mid * second"
  shows "not_by nxt t mid \<longleftrightarrow> (\<forall>v \<in> occ. v \<le> t \<longrightarrow> v \<le> mid * second)"
proof (cases "nxt (mid * second)")
  case None
  have "v \<le> mid * second" if "v \<in> occ" "v \<le> t" for v
  proof (rule ccontr)
    have "v \<le> Unix t * second" using whole_le [OF that] .
    moreover assume "\<not> v \<le> mid * second"
    ultimately have "\<exists>u. nxt (mid * second) = Some u" using that(1) assms by (intro next_found [of v]) auto
    with None show False by simp
  qed
  with None show ?thesis by (simp add: not_by_def)
next
  case (Some u)
  note l = next_least [OF Some]
  show ?thesis using l by (auto simp: Some not_by_def not_less dest: bspec [of _ _ u])
qed

end

text \<open>The bisection is a monotone search, and finds the last occurrence.\<close>

sublocale recurrence \<subseteq> bisect: monotone_search "not_by nxt t" "Unix t - 366 * 5 * 86400" "Unix t" for t
proof unfold_locales
  fix i j :: int
  assume ij: "Unix t - 366 * 5 * 86400 \<le> i" "i \<le> j" and i: "not_by nxt t i"
  then have "Unix t * second - search_window \<le> i * second" "i * second \<le> j * second" by (simp_all add: search_window_def)
  then show "not_by nxt t j" using i not_by_iff [of t i] not_by_iff [of t j] by (meson order_trans)
qed

context recurrence
begin

lemma search_last:
  assumes p: "p \<in> occ" "p \<le> t" "\<forall>v \<in> occ. v \<le> t \<longrightarrow> v \<le> p"
    and lo: "(Unix t - 366 * 5 * 86400) * second < p"
  shows "\<not> not_by nxt t (Unix t - 366 * 5 * 86400)"
    and "search_loop (not_by nxt t) (Unix t - 366 * 5 * 86400) (Unix t) * second = p"
proof -
  let ?lo = "Unix t - 366 * 5 * 86400" and ?q = "p div second"
  have q: "?q * second = p" using whole_eq [OF p(1)] .
  have iff: "not_by nxt t i \<longleftrightarrow> ?q \<le> i" if "?lo \<le> i" for i
  proof -
    have "Unix t * second - search_window \<le> i * second" using that by (simp add: search_window_def)
    from not_by_iff [OF this] p(1,2,3) have "not_by nxt t i \<longleftrightarrow> p \<le> i * second" by (auto dest: order_trans)
    also have "\<dots> \<longleftrightarrow> ?q \<le> i" by (subst q [symmetric]) simp
    finally show ?thesis .
  qed
  have b: "?lo < ?q" "?q \<le> Unix t" using lo p(2) by (subst (asm) q [symmetric], simp) (use p(2) in \<open>auto simp: Unix_def intro: zdiv_mono1\<close>)
  show "\<not> not_by nxt t ?lo" using iff [of ?lo] b by simp
  note s = bisect.search_ge [of t] bisect.search_le [of t] bisect.search_iff [of t]
  let ?r = "search_loop (not_by nxt t) ?lo (Unix t)"
  have "?r = ?q"
  proof (rule ccontr)
    assume ne: "?r \<noteq> ?q"
    show False
    proof (cases "?r < ?q")
      case True
      then show False using s(1) s(3) [of ?r] iff [of ?r] b by auto
    next
      case False
      with ne have "?q < ?r" by simp
      then show False using s(2) s(3) [of ?q] iff [of ?q] b by auto
    qed
  qed
  then show "?r * second = p" using q by simp
qed

text \<open>What the whole search returns: the last occurrence in its window, and nothing else.\<close>

definition previous_of :: "go_time \<Rightarrow> go_time option" where
  "previous_of t =
     (let lo = Unix t - 366 * 5 * 86400; p = search_loop (not_by nxt t) lo (Unix t) * second in
      if not_by nxt t lo \<or> nxt (p - second) \<noteq> Some p then None else Some p)"

lemma previous_of_last:
  assumes p: "p \<in> occ" "p \<le> t" "\<forall>v \<in> occ. v \<le> t \<longrightarrow> v \<le> p" and lo: "(Unix t - 366 * 5 * 86400) * second < p"
  shows "previous_of t = Some p"
proof -
  have "p \<le> w" if "w \<in> occ" "p - second < w" for w
  proof -
    have "b * second \<le> a * second" if "b * second - second < a * second" for a b :: int
    proof -
      have "(b - 1) * second < a * second" using that by simp
      then have "b - 1 < a" by (simp only: mult_less_cancel_right)
      then show ?thesis by simp
    qed
    from this [of "p div second" "w div second"] show ?thesis
      using that(2) unfolding whole_eq [OF that(1)] whole_eq [OF p(1)] .
  qed
  then have "nxt (p - second) = Some p"
    by (intro next_eq) (use p(1) in \<open>auto simp: search_window_def\<close>)
  then show ?thesis using search_last [OF p lo] by (simp add: previous_of_def Let_def)
qed

lemma previous_of_iff:
  "previous_of t = Some p \<longleftrightarrow>
     p \<in> occ \<and> p \<le> t \<and> (Unix t - 366 * 5 * 86400) * second < p \<and> (\<forall>v \<in> occ. v \<le> t \<longrightarrow> v \<le> p)"
proof
  assume prev: "previous_of t = Some p"
  let ?lo = "(Unix t - 366 * 5 * 86400) * second" and ?S = "{v \<in> occ. v \<le> t \<and> (Unix t - 366 * 5 * 86400) * second < v}"
  from prev have "\<not> not_by nxt t (Unix t - 366 * 5 * 86400)" by (auto simp: previous_of_def Let_def split: if_splits)
  then obtain u where u: "nxt ?lo = Some u" "u \<le> t" by (auto simp: not_by_def split: option.splits)
  have fin: "finite ?S" by (rule finite_subset [of _ "{?lo .. t}"]) auto
  have ne: "u \<in> ?S" using next_least [OF u(1)] u(2) by simp
  define q where "q = Max ?S"
  have q: "q \<in> ?S" unfolding q_def using fin ne by (intro Max_in) auto
  have "\<forall>v \<in> occ. v \<le> t \<longrightarrow> v \<le> q"
  proof (intro ballI impI)
    fix v assume v: "v \<in> occ" "v \<le> t"
    show "v \<le> q"
    proof (cases "?lo < v")
      case True
      then show ?thesis unfolding q_def using v fin by (intro Max_ge) auto
    qed (use q in auto)
  qed
  moreover from this have "previous_of t = Some q" using q by (intro previous_of_last) auto
  ultimately show "p \<in> occ \<and> p \<le> t \<and> ?lo < p \<and> (\<forall>v \<in> occ. v \<le> t \<longrightarrow> v \<le> p)" using prev q by auto
qed (auto intro: previous_of_last)

end

subsection \<open>Fixed intervals\<close>

text \<open>The occurrences of an interval definition: the anchor and every whole number of intervals after it.\<close>

definition interval_occurrences :: "spec \<Rightarrow> go_time set" where
  "interval_occurrences s = {stInstant (Anchor s) + int k * IntervalSeconds s * second | k. True}"

definition interval_ok :: "spec \<Rightarrow> bool" where
  "interval_ok s \<longleftrightarrow> 60 \<le> IntervalSeconds s \<and> Nanosecond (stInstant (Anchor s)) = 0"

lemma interval_valid: "Spec_Validate cal s = Inr () \<Longrightarrow> specType s = ''interval'' \<Longrightarrow> interval_ok s"
  by (auto simp: Spec_Validate_def interval_ok_def split: if_splits)

lemma sdiv_nonneg: "0 \<le> a \<Longrightarrow> 0 < b \<Longrightarrow> a sdiv b = a div (b :: int)"
  by (cases "a = 0") (simp_all add: signed_divide_int_def)

lemma Unix_less: "Unix t < n \<longleftrightarrow> t < n * second"
proof -
  have "Unix t * second + t mod second = t" "0 \<le> t mod second" "t mod second < second"
    by (simp_all add: Unix_def)
  then show ?thesis by linarith
qed

lemma Unix_le: "n \<le> Unix t \<longleftrightarrow> n * second \<le> t"
  using Unix_less [of t n] by linarith

lemma grid_bounds:
  fixes I a x :: int
  assumes "0 < I" "a \<le> x"
  shows "a + (x - a) div I * I \<le> x" "x < a + ((x - a) div I + 1) * I" "0 \<le> (x - a) div I"
proof -
  have "(x - a) div I * I + (x - a) mod I = x - a" by (rule div_mult_mod_eq)
  moreover have "0 \<le> (x - a) mod I" "(x - a) mod I < I" using assms(1) by simp_all
  ultimately show "a + (x - a) div I * I \<le> x" "x < a + ((x - a) div I + 1) * I"
    unfolding distrib_right by linarith+
  show "0 \<le> (x - a) div I" using assms by (simp add: pos_imp_zdiv_nonneg_iff)
qed

lemma interval_occurrence_iff:
  assumes "interval_ok s" and a: "a = Unix (stInstant (Anchor s))"
  shows "v \<in> interval_occurrences s \<longleftrightarrow> (\<exists>k \<ge> 0. v = (a + k * IntervalSeconds s) * second)"
proof -
  have "stInstant (Anchor s) = a * second"
    using assms by (simp add: interval_ok_def Nanosecond_def Unix_def mod_eq_0_iff_dvd)
  then have "v \<in> interval_occurrences s \<longleftrightarrow> (\<exists>k. v = (a + int k * IntervalSeconds s) * second)"
    by (simp add: interval_occurrences_def distrib_right)
  also have "\<dots> \<longleftrightarrow> (\<exists>k \<ge> 0. v = (a + k * IntervalSeconds s) * second)"
    by (metis of_nat_0_le_iff zero_le_imp_eq_int)
  finally show ?thesis .
qed

lemma interval_after_least:
  assumes ok: "interval_ok s"
  shows "interval_after s t \<in> interval_occurrences s \<and> t < interval_after s t
    \<and> (\<forall>v \<in> interval_occurrences s. t < v \<longrightarrow> interval_after s t \<le> v)"
proof -
  define a I where "a = Unix (stInstant (Anchor s))" and "I = IntervalSeconds s"
  have I: "0 < I" using ok by (simp add: interval_ok_def I_def)
  note occ = interval_occurrence_iff [OF ok a_def, folded I_def]
  have anchor: "stInstant (Anchor s) = (a + 0 * I) * second"
    using ok by (simp add: interval_ok_def Nanosecond_def a_def Unix_def mod_eq_0_iff_dvd)
  show ?thesis
  proof (cases "Unix t < a")
    case True
    then have "interval_after s t = stInstant (Anchor s)" by (simp add: interval_after_def a_def)
    then have n: "interval_after s t = (a + 0 * I) * second" using anchor by (rule trans)
    have "a * second \<le> v" if "v \<in> interval_occurrences s" for v
    proof -
      from that obtain k where "k \<ge> 0" "v = (a + k * I) * second" by (auto simp: occ)
      then show ?thesis using I by simp
    qed
    with True show ?thesis unfolding n by (auto simp: occ Unix_less intro!: exI [of _ "0 :: int"])
  next
    case False
    define n where "n = (Unix t - a) div I"
    have g: "a + n * I \<le> Unix t" "Unix t < a + (n + 1) * I" "0 \<le> n"
      using grid_bounds [OF I, of a "Unix t"] False by (simp_all add: n_def)
    have r: "interval_after s t = (a + (n + 1) * I) * second"
      using False I by (simp add: interval_after_def Let_def a_def [symmetric] I_def [symmetric] sdiv_nonneg n_def)
    have "(a + (n + 1) * I) * second \<le> v" if "v \<in> interval_occurrences s" "t < v" for v
    proof -
      from that(1) obtain k where k: "k \<ge> 0" "v = (a + k * I) * second" by (auto simp: occ)
      have "Unix t < a + k * I" using that(2) k(2) by (simp add: Unix_less)
      with g(1) have "n * I < k * I" by linarith
      with I have "n + 1 \<le> k" by (simp add: mult_less_cancel_right)
      then have "(n + 1) * I \<le> k * I" using I by (intro mult_right_mono) simp_all
      then show ?thesis using k(2) by simp
    qed
    moreover have "t < (a + (n + 1) * I) * second" using g(2) by (simp only: Unix_less)
    moreover have "(a + (n + 1) * I) * second \<in> interval_occurrences s"
      using g(3) by (auto simp: occ intro!: exI [of _ "n + 1"])
    ultimately show ?thesis unfolding r by blast
  qed
qed

text \<open>Definitions that do not validate have no occurrences, so the contract holds of every definition.\<close>

definition interval_next :: "spec \<Rightarrow> go_time \<Rightarrow> go_time option" where
  "interval_next s t = (if interval_ok s then Some (interval_after s t) else None)"

interpretation interval: recurrence "interval_next s" "if interval_ok s then interval_occurrences s else {}" for s
proof unfold_locales
  show "u \<in> (if interval_ok s then interval_occurrences s else {}) \<and> t < u
    \<and> (\<forall>v \<in> (if interval_ok s then interval_occurrences s else {}). t < v \<longrightarrow> u \<le> v)"
    if "interval_next s t = Some u" for t u
    using that interval_after_least [of s t] by (auto simp: interval_next_def split: if_splits)
  show "\<exists>u. interval_next s t = Some u" if "v \<in> (if interval_ok s then interval_occurrences s else {})" for v t
    using that by (auto simp: interval_next_def split: if_splits)
  show "v mod second = 0" if "v \<in> (if interval_ok s then interval_occurrences s else {})" for v
    using that interval_occurrence_iff [of s _ v] by (auto split: if_splits)
qed


text \<open>
  C22. The occurrence that precedes an instant is exact for cron schedules too: whenever the parsed
  schedule honours its contract (it names the least occurrence after an instant and finds one within
  five years), the bisection over it returns precisely the last occurrence at or before the instant
  within those years, and an error when there is none.
\<close>

theorem cron_previous_exact:
  assumes "recurrence f occ" and "spec_parsed cal s = Inr f"
    and "Spec_Validate cal s = Inr ()" and "specType s = ''cron''" and "\<not> year_out t"
  shows "Spec_Previous cal s t = Inr p \<longleftrightarrow>
      p \<in> occ \<and> p \<le> stInstant t \<and> (Unix (stInstant t) - 366 * 5 * 86400) * second < p
      \<and> (\<forall>v \<in> occ. v \<le> stInstant t \<longrightarrow> v \<le> p)"
proof -
  have "Spec_Previous cal s t = (case recurrence.previous_of f (stInstant t) of None \<Rightarrow> Inl JInvalid | Some p \<Rightarrow> Inr p)"
    using assms by (simp add: Spec_Previous_def recurrence.previous_of_def [OF assms(1)] Let_def)
  then have "Spec_Previous cal s t = Inr p \<longleftrightarrow> recurrence.previous_of f (stInstant t) = Some p"
    by (simp split: option.splits)
  then show ?thesis using recurrence.previous_of_iff [OF assms(1)] by simp
qed

subsection \<open>Concrete schedules\<close>

text \<open>Every hour on the hour, as a five-field definition and as an interval.\<close>

definition hourly :: spec where
  "hourly = \<lparr>specType = ''interval'', Cron = [], Timezone = ''UTC'', IntervalSeconds = 3600,
     Anchor = utc (1000000800 * second), Missed = ''catch_up'', MaxCatchUp = 3, Overlap = ''skip''\<rparr>"

definition hourly_cron :: spec where
  "hourly_cron = hourly\<lparr>specType := ''cron'', Cron := ''0 * * * *'', IntervalSeconds := 0, Anchor := utc zero_time\<rparr>"

definition sample_calendar :: calendar where
  "sample_calendar = \<lparr>zone_file = (\<lambda>_. False),
     cron_parse = (\<lambda>_ text. if text = ''0 * * * *'' then Some (interval_next hourly) else None)\<rparr>"


theorem cron_previous_exact_witness:
  "Spec_Previous sample_calendar hourly_cron (utc (1000004500 * second)) = Inr (1000004400 * second)"
proof -
  have h: "spec_parsed sample_calendar hourly_cron = Inr (interval_next hourly)"
    "Spec_Validate sample_calendar hourly_cron = Inr ()" "specType hourly_cron = ''cron''"
    "\<not> year_out (utc (1000004500 * second))"
    by (simp_all add: spec_parsed_def Spec_Validate_def Location_def sample_calendar_def hourly_cron_def hourly_def
        utc_def year_out_def Unix_def ContainsAny_def)
  have ok: "interval_ok hourly" by (simp add: interval_ok_def hourly_def utc_def Nanosecond_def)
  have occ: "v \<in> interval_occurrences hourly \<longleftrightarrow> (\<exists>k \<ge> 0. v = (1000000800 + k * 3600) * second)" for v
    using interval_occurrence_iff [OF ok, of 1000000800 v] by (simp add: hourly_def utc_def Unix_def)
  have r: "recurrence (interval_next hourly) (interval_occurrences hourly)"
    using interval.recurrence_axioms [of hourly] ok by simp
  have "1000004400 * second \<in> interval_occurrences hourly" unfolding occ by (rule exI [of _ 1]) simp
  moreover have "v \<le> 1000004400 * second"
    if "v \<in> interval_occurrences hourly" "v \<le> stInstant (utc (1000004500 * second))" for v
    using that by (auto simp: occ utc_def)
  ultimately show ?thesis
    using cron_previous_exact [OF r h, of "1000004400 * second"] by (auto simp: utc_def Unix_def)
qed

end
