(* ===== verification/Ledger.thy ===== *)
theory Ledger
  imports Identity Decimal "HOL-Library.Product_Lexorder" "HOL-Library.Char_ord" "HOL-Library.List_Lexorder"
begin

text \<open>
  The operation ledger (\<^verbatim>\<open>internal/store/postgres\<close>: \<^verbatim>\<open>postgres.go\<close>, \<^verbatim>\<open>operations.go\<close>,
  \<^verbatim>\<open>operation_leases.go\<close>) and its first consumer \<^verbatim>\<open>internal/maintenance\<close>. A table is the list of
  its rows; an \<^verbatim>\<open>UPDATE\<close> maps the rows its condition selects. A handler is one transaction: it
  returns a result and the database, which is the old one whenever the result is an error. The
  transactions of concurrent callers are serialised by the row locks they take, so a run is a
  sequence of handlers; \<^verbatim>\<open>clock_timestamp()\<close> is an argument per statement, in microseconds, and
  \<^verbatim>\<open>SKIP LOCKED\<close> a predicate for the rows another transaction holds. Fresh random identifiers are
  arguments as well.
\<close>

subsection \<open>Tables\<close>

datatype op_status = Pending | Running | Retry | Succeeded | Expired | Failed | Blocked | Cancelled

datatype attempt_state = Acquiring | AttemptSucceeded | AttemptRetry | AttemptFailed | AttemptBlocked
  | AttemptCancelled | Abandoned

record op_row =
  opTenant :: string
  opID :: string
  opActor :: string
  opKind :: string
  opMode :: string
  opKey :: string
  opHash :: string
  opPolicy :: int
  opCutoff :: int
  opLimit :: int
  opExpires :: int
  opStatus :: op_status
  opFence :: int
  opOwner :: "string option"
  opUntil :: "int option"
  opFinished :: "int option"
  opDeletedEvents :: int
  opDeletedOps :: int
  opManifest :: "string option"
  opAttempts :: int
  opMaxAttempts :: int
  opNextAttempt :: int
  opError :: string

record attempt_row =
  atTenant :: string
  atOp :: string
  atFence :: int
  atAttempt :: int
  atOwner :: string
  atState :: attempt_state
  atError :: string
  atFinished :: "int option"
  atExecutor :: "string option"

record audit_row =
  auTenant :: string
  auID :: string
  auActor :: string
  auAction :: string
  auResource :: string
  auOp :: "string option"
  auCreated :: int

record revision_row =
  rvTenant :: string
  rvRevision :: int
  rvAuditDays :: int
  rvOperationHours :: int
  rvBy :: string

record database =
  dbOps :: "op_row list"
  dbAttempts :: "attempt_row list"
  dbAudits :: "audit_row list"
  dbPolicies :: "(string \<times> int) list"
  dbRevisions :: "revision_row list"

definition update_where :: "('r \<Rightarrow> bool) \<Rightarrow> ('r \<Rightarrow> 'r) \<Rightarrow> 'r list \<Rightarrow> 'r list" where
  "update_where p f rows = map (\<lambda>r. if p r then f r else r) rows"

definition affected :: "('r \<Rightarrow> bool) \<Rightarrow> 'r list \<Rightarrow> int" where
  "affected p rows = int (length (filter p rows))"

text \<open>\<^verbatim>\<open>transaction\<close>: an error rolls back.\<close>

definition transaction ::
  "(database \<Rightarrow> store_error + 'a \<times> database) \<Rightarrow> database \<Rightarrow> (store_error + 'a) \<times> database" where
  "transaction fn d = (case fn d of Inl err \<Rightarrow> (Inl err, d) | Inr (x, d') \<Rightarrow> (Inr x, d'))"

definition checkScope :: "store_scope \<Rightarrow> store_error + unit" where
  "checkScope s = (if \<not> Scope_Valid s then Inl StoreErrScope else Inr ())"

text \<open>Inserts fail with a conflict on a taken primary key or unique index.\<close>

definition insert_audit :: "audit_row \<Rightarrow> database \<Rightarrow> store_error + database" where
  "insert_audit a d =
     (if list_ex (\<lambda>b. auTenant b = auTenant a \<and> auID b = auID a) (dbAudits d) then Inl StoreErrConflict
      else Inr (d\<lparr>dbAudits := dbAudits d @ [a]\<rparr>))"

subsection \<open>Retention policies\<close>

definition current_policy :: "string \<Rightarrow> database \<Rightarrow> revision_row option" where
  "current_policy tenant d =
     (case map_of (dbPolicies d) tenant of
        None \<Rightarrow> None
      | Some n \<Rightarrow> find (\<lambda>r. rvTenant r = tenant \<and> rvRevision r = n) (dbRevisions d))"

definition Policy_read :: "store_scope \<Rightarrow> database \<Rightarrow> (store_error + policy) \<times> database" where
  "Policy_read s d =
     (case checkScope s of Inl err \<Rightarrow> (Inl err, d) | Inr _ \<Rightarrow>
      transaction (\<lambda>d. case current_policy (scopeTenant s) d of
          None \<Rightarrow> Inl StoreErrNotFound
        | Some r \<Rightarrow> Inr (\<lparr>polRevision = rvRevision r, polAuditDays = rvAuditDays r,
                        polOperationHours = rvOperationHours r\<rparr>, d)) d)"

definition policy_pointer :: "string \<Rightarrow> int \<Rightarrow> database \<Rightarrow> store_error + database" where
  "policy_pointer tenant expected d =
     (if expected > 0 then
        (if affected (\<lambda>p. p = (tenant, expected)) (dbPolicies d) \<noteq> 1 then Inl StoreErrConflict
         else Inr (d\<lparr>dbPolicies := update_where (\<lambda>p. p = (tenant, expected)) (\<lambda>p. (tenant, expected + 1)) (dbPolicies d)\<rparr>))
      else Inr d)"

definition insert_revision :: "revision_row \<Rightarrow> database \<Rightarrow> store_error + database" where
  "insert_revision r d =
     (if list_ex (\<lambda>b. rvTenant b = rvTenant r \<and> rvRevision b = rvRevision r) (dbRevisions d) then Inl StoreErrConflict
      else Inr (d\<lparr>dbRevisions := dbRevisions d @ [r]\<rparr>))"

definition insert_policy :: "string \<Rightarrow> int \<Rightarrow> database \<Rightarrow> store_error + database" where
  "insert_policy tenant n d =
     (if tenant \<in> fst ` set (dbPolicies d) then Inl StoreErrConflict
      else Inr (d\<lparr>dbPolicies := dbPolicies d @ [(tenant, n)]\<rparr>))"

definition SetPolicy ::
  "string \<Rightarrow> int \<Rightarrow> store_scope \<Rightarrow> int \<Rightarrow> policy \<Rightarrow> database \<Rightarrow> (store_error + policy) \<times> database" where
  "SetPolicy event now s expected p d =
     (case checkScope s of Inl err \<Rightarrow> (Inl err, d) | Inr _ \<Rightarrow>
      if \<not> is_ok (Policy_Validate p) \<or> expected < 0 \<or> expected \<ge> 2 ^ 62 then (Inl StoreErrInvalid, d)
      else transaction (\<lambda>d.
        case policy_pointer (scopeTenant s) expected d of Inl err \<Rightarrow> Inl err | Inr d \<Rightarrow>
        (case insert_revision \<lparr>rvTenant = scopeTenant s, rvRevision = expected + 1, rvAuditDays = polAuditDays p,
               rvOperationHours = polOperationHours p, rvBy = scopeActor s\<rparr> d of Inl err \<Rightarrow> Inl err | Inr d \<Rightarrow>
        (case (if expected = 0 then insert_policy (scopeTenant s) (expected + 1) d else Inr d) of Inl err \<Rightarrow> Inl err | Inr d \<Rightarrow>
        (case insert_audit \<lparr>auTenant = scopeTenant s, auID = event, auActor = scopeActor s,
               auAction = ''retention_policy.updated'', auResource = ''retention'', auOp = None, auCreated = now\<rparr> d of
           Inl err \<Rightarrow> Inl err
         | Inr d \<Rightarrow> Inr (\<lparr>polRevision = expected + 1, polAuditDays = polAuditDays p,
                          polOperationHours = polOperationHours p\<rparr>, d))))) d)"

definition Audits_read :: "store_scope \<Rightarrow> int \<Rightarrow> database \<Rightarrow> (store_error + audit_row list) \<times> database" where
  "Audits_read s limit d =
     (case checkScope s of Inl err \<Rightarrow> (Inl err, d) | Inr _ \<Rightarrow>
      if limit < 1 \<or> limit > 1000 then (Inl StoreErrInvalid, d)
      else transaction (\<lambda>d. Inr (take (nat limit)
        (sort_key (\<lambda>a. (auCreated a, auID a)) (filter (\<lambda>a. auTenant a = scopeTenant s) (dbAudits d))), d)) d)"

subsection \<open>Inline retention operations\<close>

record sweep_op =
  soID :: string
  soStatus :: op_status
  soPolicy :: int
  soCutoff :: int
  soLimit :: int
  soDeletedEvents :: int
  soDeletedOps :: int

record sweep_lease =
  slOp :: string
  slOwner :: string
  slFence :: int

definition scanOperation :: "op_row \<Rightarrow> sweep_op" where
  "scanOperation r = \<lparr>soID = opID r, soStatus = opStatus r, soPolicy = opPolicy r, soCutoff = opCutoff r,
     soLimit = opLimit r, soDeletedEvents = opDeletedEvents r, soDeletedOps = opDeletedOps r\<rparr>"

definition hex_char :: "char \<Rightarrow> bool" where
  "hex_char c \<longleftrightarrow> 48 \<le> byte c \<and> byte c \<le> 57 \<or> 97 \<le> byte c \<and> byte c \<le> 102 \<or> 65 \<le> byte c \<and> byte c \<le> 70"

definition lower_hex :: "char \<Rightarrow> bool" where
  "lower_hex c \<longleftrightarrow> 48 \<le> byte c \<and> byte c \<le> 57 \<or> 97 \<le> byte c \<and> byte c \<le> 102"

definition day :: int where "day = 86400 * 1000000"
definition hour :: int where "hour = 3600 * 1000000"

definition sweep_row ::
  "string \<Rightarrow> int \<Rightarrow> store_scope \<Rightarrow> string \<Rightarrow> string \<Rightarrow> int \<Rightarrow> revision_row \<Rightarrow> op_row" where
  "sweep_row newid now s key hash limit r =
     \<lparr>opTenant = scopeTenant s, opID = newid, opActor = scopeActor s, opKind = ''retention.sweep'', opMode = ''inline'',
      opKey = key, opHash = hash, opPolicy = rvRevision r, opCutoff = now - rvAuditDays r * day, opLimit = limit,
      opExpires = now + rvOperationHours r * hour, opStatus = Pending, opFence = 0, opOwner = None, opUntil = None,
      opFinished = None, opDeletedEvents = 0, opDeletedOps = 0, opManifest = None, opAttempts = 0,
      opMaxAttempts = 1, opNextAttempt = now, opError = []\<rparr>"

text \<open>
  \<^verbatim>\<open>INSERT ... SELECT ... ON CONFLICT DO NOTHING\<close>: no row without a policy or when the key is taken. The
  table also checks that the hash is in lower case, which the handler does not.
\<close>

definition insert_sweep ::
  "string \<Rightarrow> int \<Rightarrow> store_scope \<Rightarrow> string \<Rightarrow> string \<Rightarrow> int \<Rightarrow> database \<Rightarrow> store_error + database" where
  "insert_sweep newid now s key hash limit d =
     (case current_policy (scopeTenant s) d of
        None \<Rightarrow> Inr d
      | Some r \<Rightarrow>
          if list_ex (\<lambda>o'. opTenant o' = scopeTenant s \<and> opActor o' = scopeActor s \<and> opKind o' = ''retention.sweep''
                 \<and> opKey o' = key) (dbOps d) then Inr d
          else if \<not> list_all lower_hex hash then Inl StoreErrInvalid
          else if list_ex (\<lambda>o'. opTenant o' = scopeTenant s \<and> opID o' = newid) (dbOps d) then Inl StoreErrConflict
          else Inr (d\<lparr>dbOps := dbOps d @ [sweep_row newid now s key hash limit r]\<rparr>))"

definition by_key :: "store_scope \<Rightarrow> string \<Rightarrow> op_row \<Rightarrow> bool" where
  "by_key s key r \<longleftrightarrow> opMode r = ''inline'' \<and> opTenant r = scopeTenant s \<and> opActor r = scopeActor s
     \<and> opKind r = ''retention.sweep'' \<and> opKey r = key"

definition ReserveSweep ::
  "string \<Rightarrow> int \<Rightarrow> int \<Rightarrow> store_scope \<Rightarrow> string \<Rightarrow> string \<Rightarrow> int \<Rightarrow> database \<Rightarrow> (store_error + sweep_op) \<times> database" where
  "ReserveSweep newid now1 now2 s key hash limit d =
     (case checkScope s of Inl err \<Rightarrow> (Inl err, d) | Inr _ \<Rightarrow>
      if \<not> store_Identifier key \<or> \<not> list_all hex_char hash \<or> length hash \<noteq> 64 \<or> limit < 1 \<or> limit > 1000
      then (Inl StoreErrInvalid, d)
      else transaction (\<lambda>d.
        case insert_sweep newid now1 s key hash limit d of Inl err \<Rightarrow> Inl err | Inr d \<Rightarrow>
        (case find (by_key s key) (dbOps d) of
           None \<Rightarrow> Inl StoreErrNotFound
         | Some r \<Rightarrow>
             if opHash r \<noteq> hash \<or> opLimit r \<noteq> limit then Inl StoreErrConflict
             else if opExpires r \<le> now2 \<or> opStatus r = Expired then Inl StoreErrExpired
             else Inr (scanOperation r, d))) d)"

definition validLease :: "sweep_lease \<Rightarrow> bool" where
  "validLease l \<longleftrightarrow> store_Identifier (slOp l) \<and> store_Identifier (slOwner l) \<and> slFence l > 0"

text \<open>Durations are nanoseconds: from a millisecond to five minutes.\<close>

definition validTTL :: "int \<Rightarrow> bool" where
  "validTTL ttl \<longleftrightarrow> ttl \<ge> 1000000 \<and> ttl \<le> 5 * 60 * second"

text \<open>No lease is alive on the row.\<close>

definition unleased :: "int \<Rightarrow> op_row \<Rightarrow> bool" where
  "unleased now r \<longleftrightarrow> (case opUntil r of None \<Rightarrow> True | Some t \<Rightarrow> t \<le> now)"

definition claimable :: "int \<Rightarrow> store_scope \<Rightarrow> string \<Rightarrow> op_row \<Rightarrow> bool" where
  "claimable now s opid r \<longleftrightarrow> opMode r = ''inline'' \<and> opTenant r = scopeTenant s \<and> opActor r = scopeActor s \<and> opID r = opid
     \<and> opStatus r \<in> {Pending, Running} \<and> opExpires r > now \<and> unleased now r"

definition Claim ::
  "int \<Rightarrow> store_scope \<Rightarrow> string \<Rightarrow> string \<Rightarrow> int \<Rightarrow> database \<Rightarrow> (store_error + sweep_lease) \<times> database" where
  "Claim now s opid owner ttl d =
     (case checkScope s of Inl err \<Rightarrow> (Inl err, d) | Inr _ \<Rightarrow>
      if \<not> store_Identifier opid \<or> \<not> store_Identifier owner \<or> \<not> validTTL ttl then (Inl StoreErrInvalid, d)
      else transaction (\<lambda>d.
        case find (claimable now s opid) (dbOps d) of
          None \<Rightarrow> Inl StoreErrConflict
        | Some r \<Rightarrow>
            Inr (\<lparr>slOp = opid, slOwner = owner, slFence = opFence r + 1\<rparr>,
              d\<lparr>dbOps := update_where (claimable now s opid)
                (\<lambda>r. r\<lparr>opStatus := Running, opFence := opFence r + 1, opOwner := Some owner,
                        opUntil := Some (now + ttl div 1000)\<rparr>) (dbOps d)\<rparr>)) d)"

text \<open>The row still belongs to the lease: same owner and fence, running, neither lease nor operation expired.\<close>

definition holds :: "int \<Rightarrow> string \<Rightarrow> int \<Rightarrow> op_row \<Rightarrow> bool" where
  "holds now owner fence r \<longleftrightarrow> opOwner r = Some owner \<and> opFence r = fence
     \<and> (case opUntil r of None \<Rightarrow> False | Some t \<Rightarrow> t > now) \<and> opExpires r > now"

definition held_inline :: "int \<Rightarrow> store_scope \<Rightarrow> sweep_lease \<Rightarrow> op_row \<Rightarrow> bool" where
  "held_inline now s l r \<longleftrightarrow> opMode r = ''inline'' \<and> opTenant r = scopeTenant s \<and> opActor r = scopeActor s
     \<and> opID r = slOp l \<and> holds now (slOwner l) (slFence l) r"

definition Renew ::
  "int \<Rightarrow> store_scope \<Rightarrow> sweep_lease \<Rightarrow> int \<Rightarrow> database \<Rightarrow> (store_error + unit) \<times> database" where
  "Renew now s l ttl d =
     (case checkScope s of Inl err \<Rightarrow> (Inl err, d) | Inr _ \<Rightarrow>
      if \<not> validLease l \<or> \<not> validTTL ttl then (Inl StoreErrInvalid, d)
      else transaction (\<lambda>d.
        let p = (\<lambda>r. held_inline now s l r \<and> opStatus r = Running) in
        if affected p (dbOps d) \<noteq> 1 then Inl StoreErrConflict
        else Inr ((), d\<lparr>dbOps := update_where p (\<lambda>r. r\<lparr>opUntil := Some (now + ttl div 1000)\<rparr>) (dbOps d)\<rparr>)) d)"

text \<open>The bounded batches of a sweep: the oldest events past the cutoff, then the oldest retained results.\<close>

definition old_events :: "(string \<Rightarrow> bool) \<Rightarrow> string \<Rightarrow> int \<Rightarrow> int \<Rightarrow> database \<Rightarrow> string list" where
  "old_events skip tenant cutoff limit d =
     map auID (take (nat limit) (sort_key (\<lambda>a. (auCreated a, auID a))
       (filter (\<lambda>a. auTenant a = tenant \<and> auCreated a < cutoff \<and> \<not> skip (auID a)) (dbAudits d))))"

definition delete_events :: "string \<Rightarrow> string list \<Rightarrow> database \<Rightarrow> int \<times> database" where
  "delete_events tenant ids d =
     (let p = (\<lambda>a. auTenant a = tenant \<and> auID a \<in> set ids)
      in (affected p (dbAudits d), d\<lparr>dbAudits := filter (\<lambda>a. \<not> p a) (dbAudits d)\<rparr>))"

definition old_results :: "(string \<Rightarrow> bool) \<Rightarrow> string \<Rightarrow> string \<Rightarrow> int \<Rightarrow> int \<Rightarrow> database \<Rightarrow> string list" where
  "old_results skip tenant opid asof limit d =
     map opID (take (nat limit) (sort_key (\<lambda>r. (opExpires r, opID r))
       (filter (\<lambda>r. opTenant r = tenant \<and> opID r \<noteq> opid \<and> opStatus r = Succeeded \<and> opExpires r < asof
          \<and> \<not> list_ex (\<lambda>a. auTenant a = opTenant r \<and> auOp a = Some (opID r)) (dbAudits d) \<and> \<not> skip (opID r)) (dbOps d))))"

definition expire_results :: "string \<Rightarrow> string list \<Rightarrow> database \<Rightarrow> int \<times> database" where
  "expire_results tenant ids d =
     (let p = (\<lambda>r. opTenant r = tenant \<and> opID r \<in> set ids)
      in (affected p (dbOps d),
          d\<lparr>dbOps := update_where p (\<lambda>r. r\<lparr>opStatus := Expired, opDeletedEvents := 0, opDeletedOps := 0\<rparr>) (dbOps d)\<rparr>))"

definition CommitSweep ::
  "string \<Rightarrow> int \<Rightarrow> int \<Rightarrow> int \<Rightarrow> (string \<Rightarrow> bool) \<Rightarrow> (string \<Rightarrow> bool) \<Rightarrow> store_scope \<Rightarrow> sweep_lease \<Rightarrow> database
   \<Rightarrow> (store_error + sweep_op) \<times> database" where
  "CommitSweep event now1 now2 now3 skipA skipO s l d =
     (case checkScope s of Inl err \<Rightarrow> (Inl err, d) | Inr _ \<Rightarrow>
      if \<not> validLease l then (Inl StoreErrInvalid, d)
      else transaction (\<lambda>d.
        case find (\<lambda>r. held_inline now1 s l r \<and> opStatus r = Running) (dbOps d) of
          None \<Rightarrow> Inl StoreErrConflict
        | Some r \<Rightarrow>
            (case map_of (dbPolicies d) (scopeTenant s) of
               None \<Rightarrow> Inl StoreErrNotFound
             | Some current \<Rightarrow>
                 if current \<noteq> opPolicy r then Inl StoreErrConflict
                 else
                   let (events, d) = delete_events (scopeTenant s) (old_events skipA (scopeTenant s) (opCutoff r) (opLimit r) d) d;
                       (results, d) = expire_results (scopeTenant s) (old_results skipO (scopeTenant s) (opID r) now2 (opLimit r) d) d
                   in if affected (held_inline now3 s l) (dbOps d) \<noteq> 1 then Inl StoreErrConflict
                      else
                        let d = d\<lparr>dbOps := update_where (held_inline now3 s l)
                              (\<lambda>r. r\<lparr>opStatus := Succeeded, opFinished := Some now3, opOwner := None, opUntil := None,
                                     opDeletedEvents := events, opDeletedOps := results\<rparr>) (dbOps d)\<rparr>
                        in (case insert_audit \<lparr>auTenant = scopeTenant s, auID = event, auActor = scopeActor s,
                                    auAction = ''retention.sweep'', auResource = opID r, auOp = Some (opID r), auCreated = now3\<rparr> d of
                              Inl err \<Rightarrow> Inl err
                            | Inr d \<Rightarrow> Inr ((scanOperation r)\<lparr>soDeletedEvents := events, soDeletedOps := results,
                                          soStatus := Succeeded\<rparr>, d)))) d)"

subsection \<open>Leases of dispatched operations\<close>

record operation_lease =
  olTenant :: string
  olOp :: string
  olOwner :: string
  olManifest :: string
  olMode :: string
  olFence :: int

definition named :: "string \<Rightarrow> string \<Rightarrow> op_row \<Rightarrow> bool" where
  "named tenant opid r \<longleftrightarrow> opTenant r = tenant \<and> opID r = opid"

definition close_attempts ::
  "(attempt_row \<Rightarrow> bool) \<Rightarrow> attempt_state \<Rightarrow> string \<Rightarrow> int \<Rightarrow> attempt_row list \<Rightarrow> attempt_row list" where
  "close_attempts p st err now =
     update_where (\<lambda>a. p a \<and> atState a = Acquiring) (\<lambda>a. a\<lparr>atState := st, atError := err, atFinished := Some now\<rparr>)"

definition of_op :: "string \<Rightarrow> string \<Rightarrow> attempt_row \<Rightarrow> bool" where
  "of_op tenant opid a \<longleftrightarrow> atTenant a = tenant \<and> atOp a = opid"

definition dispatchable :: "int \<Rightarrow> string \<Rightarrow> string \<Rightarrow> op_row \<Rightarrow> bool" where
  "dispatchable now tenant opid r \<longleftrightarrow> named tenant opid r \<and> opStatus r \<in> {Pending, Retry, Running} \<and> unleased now r
     \<and> opAttempts r < opMaxAttempts r \<and> opExpires r > now"

definition insert_attempt :: "attempt_row \<Rightarrow> database \<Rightarrow> store_error + database" where
  "insert_attempt a d =
     (if list_ex (\<lambda>b. of_op (atTenant a) (atOp a) b \<and> (atFence b = atFence a \<or> atAttempt b = atAttempt a)) (dbAttempts d)
      then Inl StoreErrConflict else Inr (d\<lparr>dbAttempts := dbAttempts d @ [a]\<rparr>))"

definition claimOperationLease ::
  "int \<Rightarrow> string \<Rightarrow> string \<Rightarrow> string \<Rightarrow> int \<Rightarrow> database \<Rightarrow> store_error + (int \<times> int \<times> int) \<times> database" where
  "claimOperationLease now tenant opid owner ttl_ms d =
     (let d = d\<lparr>dbAttempts := close_attempts (of_op tenant opid) Abandoned ''lease_lost'' now (dbAttempts d)\<rparr> in
      case find (dispatchable now tenant opid) (dbOps d) of
        None \<Rightarrow> Inl StoreErrConflict
      | Some r \<Rightarrow>
          let fence = opFence r + 1; attempt = opAttempts r + 1; til = min (opExpires r) (now + ttl_ms * 1000);
              d = d\<lparr>dbOps := update_where (dispatchable now tenant opid)
                    (\<lambda>r. r\<lparr>opStatus := Running, opFence := opFence r + 1, opAttempts := opAttempts r + 1, opOwner := Some owner,
                            opUntil := Some (min (opExpires r) (now + ttl_ms * 1000)), opError := []\<rparr>) (dbOps d)\<rparr>
          in (case insert_attempt \<lparr>atTenant = tenant, atOp = opid, atFence = fence, atAttempt = attempt, atOwner = owner,
                      atState = Acquiring, atError = [], atFinished = None, atExecutor = None\<rparr> d of
                Inl err \<Rightarrow> Inl err
              | Inr d \<Rightarrow> Inr ((fence, attempt, til), d)))"

definition held :: "int \<Rightarrow> operation_lease \<Rightarrow> op_row \<Rightarrow> bool" where
  "held now l r \<longleftrightarrow> named (olTenant l) (olOp l) r \<and> opMode r = olMode l \<and> opManifest r = Some (olManifest l)
     \<and> opStatus r = Running \<and> holds now (olOwner l) (olFence l) r"

definition renewOperationLease ::
  "int \<Rightarrow> operation_lease \<Rightarrow> int \<Rightarrow> database \<Rightarrow> store_error + unit \<times> database" where
  "renewOperationLease now l ttl_ms d =
     (if affected (held now l) (dbOps d) \<noteq> 1 then Inl StoreErrConflict
      else Inr ((), d\<lparr>dbOps := update_where (held now l)
             (\<lambda>r. r\<lparr>opUntil := Some (min (opExpires r) (now + ttl_ms * 1000))\<rparr>) (dbOps d)\<rparr>))"

definition attempt_outcome :: "op_status \<Rightarrow> attempt_state" where
  "attempt_outcome st = (if st = Blocked then AttemptBlocked else if st = Failed then AttemptFailed else AttemptRetry)"

definition failOperationLease ::
  "int \<Rightarrow> int \<Rightarrow> operation_lease \<Rightarrow> string \<Rightarrow> bool \<Rightarrow> int \<Rightarrow> database \<Rightarrow> store_error + unit \<times> database" where
  "failOperationLease now1 now2 l err permanent delay_ms d =
     (case find (held now1 l) (dbOps d) of
        None \<Rightarrow> Inl StoreErrConflict
      | Some r \<Rightarrow>
          let st = (if permanent then Blocked else if opAttempts r \<ge> opMaxAttempts r then Failed else Retry);
              p = (\<lambda>r. named (olTenant l) (olOp l) r \<and> opOwner r = Some (olOwner l) \<and> opFence r = olFence l);
              d = d\<lparr>dbOps := update_where p
                    (\<lambda>r. r\<lparr>opStatus := st, opError := err, opOwner := None, opUntil := None,
                            opFinished := (if st = Retry then None else Some now2), opNextAttempt := now2 + delay_ms * 1000\<rparr>) (dbOps d)\<rparr>
          in Inr ((), d\<lparr>dbAttempts := close_attempts (\<lambda>a. of_op (olTenant l) (olOp l) a \<and> atFence a = olFence l)
                         (attempt_outcome st) err now2 (dbAttempts d)\<rparr>))"

subsection \<open>The retention service\<close>

definition sweep_hash :: "(string \<Rightarrow> string) \<Rightarrow> int \<Rightarrow> string" where
  "sweep_hash sha batch = sha (''retention.sweep/v1/batch='' @ int_str batch)"

definition Sweep ::
  "(string \<Rightarrow> string) \<Rightarrow> string \<Rightarrow> string \<Rightarrow> string \<Rightarrow> (nat \<Rightarrow> int) \<Rightarrow> (string \<Rightarrow> bool) \<Rightarrow> (string \<Rightarrow> bool)
   \<Rightarrow> int \<Rightarrow> int \<Rightarrow> store_scope \<Rightarrow> string \<Rightarrow> database \<Rightarrow> (store_error + sweep_op) \<times> database" where
  "Sweep sha newid owner event clock skipA skipO batch lease s key d =
     (case ReserveSweep newid (clock 0) (clock 1) s key (sweep_hash sha batch) batch d of
        (Inl err, d) \<Rightarrow> (Inl err, d)
      | (Inr op, d) \<Rightarrow>
          if soStatus op = Succeeded then (Inr op, d)
          else (case Claim (clock 2) s (soID op) owner lease d of
                  (Inl err, d) \<Rightarrow> (Inl err, d)
                | (Inr l, d) \<Rightarrow> CommitSweep event (clock 3) (clock 4) (clock 5) skipA skipO s l d))"

subsection \<open>The ledger as a state machine\<close>

text \<open>
  Any number of replicas call the handlers in any order at any times; the dispatch transitions run
  only on rows of the queued and request modes, as their callers select them.
\<close>

inductive ledger_step :: "database \<Rightarrow> database \<Rightarrow> bool" where
  set_policy: "ledger_step d (snd (SetPolicy event now s expected p d))"
| reserve: "ledger_step d (snd (ReserveSweep newid now1 now2 s key hash limit d))"
| claim: "ledger_step d (snd (Claim now s opid owner ttl d))"
| renew: "ledger_step d (snd (Renew now s l ttl d))"
| commit: "ledger_step d (snd (CommitSweep event now1 now2 now3 skipA skipO s l d))"
| lease_claim: "\<forall>r \<in> set (dbOps d). named tenant opid r \<longrightarrow> opMode r \<noteq> ''inline'' \<Longrightarrow>
    ledger_step d (snd (transaction (claimOperationLease now tenant opid owner ttl_ms) d))"
| lease_renew: "ledger_step d (snd (transaction (renewOperationLease now l ttl_ms) d))"
| lease_fail: "olMode l \<noteq> ''inline'' \<Longrightarrow>
    ledger_step d (snd (transaction (failOperationLease now1 now2 l err permanent delay_ms) d))"

definition op_pk :: "op_row \<Rightarrow> string \<times> string" where
  "op_pk r = (opTenant r, opID r)"

text \<open>A row is running exactly while it has an owner and a lease; dispatched rows have attempts left to count.\<close>

definition row_ok :: "op_row \<Rightarrow> bool" where
  "row_ok r \<longleftrightarrow> (opStatus r = Running \<longleftrightarrow> opUntil r \<noteq> None) \<and> (opUntil r \<noteq> None \<longleftrightarrow> opOwner r \<noteq> None) \<and> 0 \<le> opFence r
     \<and> (opMode r \<noteq> ''inline'' \<longrightarrow> 0 \<le> opAttempts r \<and> opAttempts r \<le> opMaxAttempts r
          \<and> (case opUntil r of None \<Rightarrow> True | Some t \<Rightarrow> t \<le> opExpires r))"

definition attempts_of :: "op_row \<Rightarrow> attempt_row list \<Rightarrow> attempt_row list" where
  "attempts_of r as = filter (of_op (opTenant r) (opID r)) as"

text \<open>An open attempt is the one of the current fence on a running row; each claim left one attempt.\<close>

definition attempt_ok :: "op_row list \<Rightarrow> attempt_row \<Rightarrow> bool" where
  "attempt_ok rows a \<longleftrightarrow> (\<exists>r \<in> set rows. of_op (opTenant r) (opID r) a \<and> opMode r \<noteq> ''inline''
     \<and> 1 \<le> atFence a \<and> atFence a \<le> opFence r \<and> (atState a = Acquiring \<longrightarrow> atFence a = opFence r \<and> opStatus r = Running))"

definition ledger_ok :: "database \<Rightarrow> bool" where
  "ledger_ok d \<longleftrightarrow> distinct (map op_pk (dbOps d)) \<and> (\<forall>r \<in> set (dbOps d). row_ok r)
     \<and> (\<forall>a \<in> set (dbAttempts d). attempt_ok (dbOps d) a)
     \<and> distinct (map (\<lambda>a. (atTenant a, atOp a, atFence a)) (dbAttempts d))
     \<and> (\<forall>r \<in> set (dbOps d). opMode r \<noteq> ''inline'' \<longrightarrow> int (length (attempts_of r (dbAttempts d))) = opAttempts r)"

lemma set_update_where [simp]: "set (update_where p f rows) = (\<lambda>r. if p r then f r else r) ` set rows"
  by (simp add: update_where_def)

lemma map_update_where: "(\<And>r. p r \<Longrightarrow> k (f r) = k r) \<Longrightarrow> map k (update_where p f rows) = map k rows"
  by (simp add: update_where_def)

lemma affected_one: "affected p rows = 1 \<Longrightarrow> \<exists>r \<in> set rows. p r"
  by (rule ccontr) (simp add: affected_def)

lemma update_where_none: "\<forall>r \<in> set rows. \<not> p r \<Longrightarrow> update_where p f rows = rows"
  by (simp add: update_where_def map_idI)

lemma transaction_cases:
  "transaction fn d = (Inr x, d') \<longleftrightarrow> fn d = Inr (x, d')"
  "snd (transaction fn d) = (case fn d of Inl _ \<Rightarrow> d | Inr (_, d') \<Rightarrow> d')"
  by (auto simp: transaction_def split: sum.splits prod.splits)

text \<open>
  An update that keeps keys, modes, fences and attempt counts of dispatched rows, and touches only
  rows of theirs that do not run, keeps the invariant when it keeps each row well formed.
\<close>

definition quiet :: "(op_row \<Rightarrow> op_row) \<Rightarrow> op_row \<Rightarrow> bool" where
  "quiet f r \<longleftrightarrow> op_pk (f r) = op_pk r \<and> opMode (f r) = opMode r \<and> row_ok (f r)
     \<and> (opMode r \<noteq> ''inline'' \<longrightarrow> opFence (f r) = opFence r \<and> opAttempts (f r) = opAttempts r
          \<and> (opStatus (f r) = opStatus r \<or> opStatus r \<noteq> Running))"

lemma quiet_update:
  assumes ok: "ledger_ok d" and q: "\<And>r. r \<in> set (dbOps d) \<Longrightarrow> p r \<Longrightarrow> quiet f r"
    and ops: "dbOps d' = update_where p f (dbOps d)" and att: "dbAttempts d' = dbAttempts d"
  shows "ledger_ok d'"
proof -
  have pk: "map op_pk (dbOps d') = map op_pk (dbOps d)"
    unfolding ops update_where_def using q by (auto simp: quiet_def)
  have rows: "row_ok r" if "r \<in> set (dbOps d')" for r
    using that ok q by (auto simp: ops ledger_ok_def quiet_def)
  have atts: "attempt_ok (dbOps d') a" if "a \<in> set (dbAttempts d')" for a
  proof -
    from that ok att obtain r where r: "r \<in> set (dbOps d)" "of_op (opTenant r) (opID r) a" "opMode r \<noteq> ''inline''"
      "1 \<le> atFence a" "atFence a \<le> opFence r" "atState a = Acquiring \<longrightarrow> atFence a = opFence r \<and> opStatus r = Running"
      by (auto simp: ledger_ok_def attempt_ok_def)
    let ?r = "if p r then f r else r"
    have "?r \<in> set (dbOps d')" using r(1) by (simp add: ops)
    moreover have "of_op (opTenant ?r) (opID ?r) a \<and> opMode ?r \<noteq> ''inline'' \<and> atFence a \<le> opFence ?r
      \<and> (atState a = Acquiring \<longrightarrow> atFence a = opFence ?r \<and> opStatus ?r = Running)"
      using r q [OF r(1)] by (auto simp: quiet_def op_pk_def)
    ultimately show ?thesis using r(4) unfolding attempt_ok_def by blast
  qed
  have counts: "int (length (attempts_of r (dbAttempts d'))) = opAttempts r"
    if r: "r \<in> set (dbOps d')" "opMode r \<noteq> ''inline''" for r
  proof -
    from r(1) obtain r0 where r0: "r0 \<in> set (dbOps d)" "r = (if p r0 then f r0 else r0)" by (auto simp: ops)
    then have "op_pk r = op_pk r0" "opMode r = opMode r0" "opAttempts r = opAttempts r0"
      using q [OF r0(1)] r(2) by (auto simp: quiet_def)
    then show ?thesis using r(2) r0(1) ok by (simp add: ledger_ok_def attempts_of_def op_pk_def att)
  qed
  from pk rows atts counts ok att show ?thesis by (simp add: ledger_ok_def)
qed

lemma quiet_same: "ledger_ok d \<Longrightarrow> dbOps d' = dbOps d \<Longrightarrow> dbAttempts d' = dbAttempts d \<Longrightarrow> ledger_ok d'"
  by (simp add: ledger_ok_def)

lemma insert_audit_same: "insert_audit a d = Inr d' \<Longrightarrow> dbOps d' = dbOps d \<and> dbAttempts d' = dbAttempts d"
  by (auto simp: insert_audit_def)

lemma SetPolicy_same:
  "dbOps (snd (SetPolicy event now s expected p d)) = dbOps d
   \<and> dbAttempts (snd (SetPolicy event now s expected p d)) = dbAttempts d"
  by (auto simp: SetPolicy_def transaction_def policy_pointer_def insert_revision_def insert_policy_def insert_audit_def
      split: sum.splits)

subsection \<open>Every handler keeps the invariant\<close>

lemma sweep_row_simps [simp]:
  "opTenant (sweep_row newid now s key hash limit r) = scopeTenant s" "opID (sweep_row newid now s key hash limit r) = newid"
  "opMode (sweep_row newid now s key hash limit r) = ''inline''" "row_ok (sweep_row newid now s key hash limit r)"
  "opStatus (sweep_row newid now s key hash limit r) = Pending"
  by (simp_all add: sweep_row_def row_ok_def)

lemma insert_sweep_Inr:
  assumes "insert_sweep newid now s key hash limit d = Inr d'"
  shows "d' = d \<or> (\<exists>r. d' = d\<lparr>dbOps := dbOps d @ [sweep_row newid now s key hash limit r]\<rparr>
    \<and> op_pk (sweep_row newid now s key hash limit r) \<notin> op_pk ` set (dbOps d))"
  using assms by (auto simp: insert_sweep_def list_ex_iff op_pk_def split: option.splits if_splits)

lemma ReserveSweep_ok: "ledger_ok d \<Longrightarrow> ledger_ok (snd (ReserveSweep newid now1 now2 s key hash limit d))"
proof -
  assume ok: "ledger_ok d"
  have ins: "ledger_ok d'" if "insert_sweep newid now1 s key hash limit d = Inr d'" for d'
    using ok insert_sweep_Inr [OF that] by (auto simp: ledger_ok_def attempt_ok_def)
  show ?thesis
    using ok ins by (auto simp: ReserveSweep_def transaction_def split: sum.splits option.splits)
qed

lemma ledger_row: "ledger_ok d \<Longrightarrow> r \<in> set (dbOps d) \<Longrightarrow> row_ok r"
  by (simp add: ledger_ok_def)

lemma pk_unique: "ledger_ok d \<Longrightarrow> r \<in> set (dbOps d) \<Longrightarrow> r' \<in> set (dbOps d) \<Longrightarrow> op_pk r = op_pk r' \<Longrightarrow> r = r'"
  by (auto simp: ledger_ok_def distinct_map dest: inj_onD)

lemma quiet_claim:
  "row_ok r \<Longrightarrow> opMode r = ''inline'' \<Longrightarrow>
    quiet (\<lambda>r. r\<lparr>opStatus := Running, opFence := opFence r + 1, opOwner := Some owner, opUntil := Some t\<rparr>) r"
  by (simp add: quiet_def op_pk_def row_ok_def)

lemma quiet_renew:
  "row_ok r \<Longrightarrow> opStatus r = Running \<Longrightarrow> opMode r = ''inline'' \<or> x r \<le> opExpires r \<Longrightarrow> quiet (\<lambda>r. r\<lparr>opUntil := Some (x r)\<rparr>) r"
  by (auto simp: quiet_def op_pk_def row_ok_def)

lemma quiet_success:
  "row_ok r \<Longrightarrow> opMode r = ''inline'' \<Longrightarrow> quiet (\<lambda>r. r\<lparr>opStatus := Succeeded, opFinished := Some t, opOwner := None,
     opUntil := None, opDeletedEvents := n1, opDeletedOps := n2\<rparr>) r"
  by (simp add: quiet_def op_pk_def row_ok_def)

lemma Claim_Inr:
  assumes "Claim now s opid owner ttl d = (Inr l, d')"
  obtains r where "find (claimable now s opid) (dbOps d) = Some r"
    "l = \<lparr>slOp = opid, slOwner = owner, slFence = opFence r + 1\<rparr>"
    "d' = d\<lparr>dbOps := update_where (claimable now s opid)
        (\<lambda>r. r\<lparr>opStatus := Running, opFence := opFence r + 1, opOwner := Some owner,
                opUntil := Some (now + ttl div 1000)\<rparr>) (dbOps d)\<rparr>"
  using assms by (auto simp: Claim_def transaction_cases split: sum.splits if_splits option.splits)

lemma Claim_Inl: "Claim now s opid owner ttl d = (Inl err, d') \<Longrightarrow> d' = d"
  by (auto simp: Claim_def transaction_def split: sum.splits if_splits)

lemma Claim_ok:
  assumes "ledger_ok d" shows "ledger_ok (snd (Claim now s opid owner ttl d))"
proof (cases "Claim now s opid owner ttl d")
  case (Pair res d')
  show ?thesis
  proof (cases res)
    case (Inl err)
    with Pair assms Claim_Inl show ?thesis by fastforce
  next
    case (Inr l)
    obtain r where "find (claimable now s opid) (dbOps d) = Some r"
      "l = \<lparr>slOp = opid, slOwner = owner, slFence = opFence r + 1\<rparr>"
      "d' = d\<lparr>dbOps := update_where (claimable now s opid)
        (\<lambda>r. r\<lparr>opStatus := Running, opFence := opFence r + 1, opOwner := Some owner,
                opUntil := Some (now + ttl div 1000)\<rparr>) (dbOps d)\<rparr>" by (rule Claim_Inr [OF Pair [unfolded Inr]])
    then have "dbOps d' = update_where (claimable now s opid)
        (\<lambda>r. r\<lparr>opStatus := Running, opFence := opFence r + 1, opOwner := Some owner,
                opUntil := Some (now + ttl div 1000)\<rparr>) (dbOps d)" "dbAttempts d' = dbAttempts d" by simp_all
    from quiet_update [OF assms _ this] have "ledger_ok d'"
      using quiet_claim ledger_row [OF assms] by (simp add: claimable_def)
    with Pair show ?thesis by simp
  qed
qed

lemma Renew_ok:
  assumes "ledger_ok d" shows "ledger_ok (snd (Renew now s l ttl d))"
proof -
  let ?p = "\<lambda>r. held_inline now s l r \<and> opStatus r = Running"
  have "ledger_ok (d\<lparr>dbOps := update_where ?p (\<lambda>r. r\<lparr>opUntil := Some (now + ttl div 1000)\<rparr>) (dbOps d)\<rparr>)"
    by (rule quiet_update [OF assms, where p = ?p])
       (use ledger_row [OF assms] in \<open>simp_all add: quiet_renew held_inline_def\<close>)
  with assms show ?thesis by (simp add: Renew_def transaction_cases Let_def split: sum.splits)
qed

lemma expire_results_ok:
  assumes "ledger_ok d" and "expire_results tenant (old_results skip tenant opid asof limit d0) d = (n, d')"
    and "dbOps d0 = dbOps d"
  shows "ledger_ok d'"
proof -
  define ids where "ids = old_results skip tenant opid asof limit d0"
  have "opStatus r = Succeeded" if "r \<in> set (dbOps d)" "opTenant r = tenant" "opID r \<in> set ids" for r
  proof -
    from that(3) obtain r' where r': "r' \<in> set (dbOps d)" "opTenant r' = tenant" "opID r' = opID r" "opStatus r' = Succeeded"
      using assms(3) by (auto simp: ids_def old_results_def dest!: in_set_takeD)
    have "r' = r" by (rule pk_unique [OF assms(1) r'(1) that(1)]) (simp add: op_pk_def r' that(2))
    with r' show ?thesis by simp
  qed
  then have "quiet (\<lambda>r. r\<lparr>opStatus := Expired, opDeletedEvents := 0, opDeletedOps := 0\<rparr>) r"
    if "r \<in> set (dbOps d)" "opTenant r = tenant \<and> opID r \<in> set ids" for r
    using that ledger_row [OF assms(1) that(1)] by (auto simp: quiet_def op_pk_def row_ok_def)
  from quiet_update [OF assms(1) this] show ?thesis
    using assms(2) unfolding ids_def [symmetric] by (auto simp: expire_results_def Let_def)
qed

lemma CommitSweep_Inr:
  assumes "CommitSweep event now1 now2 now3 skipA skipO s l d = (Inr op, d')"
  obtains r n1 d1 n2 d2 d3 where "validLease l"
    "find (\<lambda>r. held_inline now1 s l r \<and> opStatus r = Running) (dbOps d) = Some r"
    "map_of (dbPolicies d) (scopeTenant s) = Some (opPolicy r)"
    "delete_events (scopeTenant s) (old_events skipA (scopeTenant s) (opCutoff r) (opLimit r) d) d = (n1, d1)"
    "expire_results (scopeTenant s) (old_results skipO (scopeTenant s) (opID r) now2 (opLimit r) d1) d1 = (n2, d2)"
    "affected (held_inline now3 s l) (dbOps d2) = 1"
    "d3 = d2\<lparr>dbOps := update_where (held_inline now3 s l)
         (\<lambda>r. r\<lparr>opStatus := Succeeded, opFinished := Some now3, opOwner := None, opUntil := None,
            opDeletedEvents := n1, opDeletedOps := n2\<rparr>) (dbOps d2)\<rparr>"
    "insert_audit \<lparr>auTenant = scopeTenant s, auID = event, auActor = scopeActor s, auAction = ''retention.sweep'',
                auResource = opID r, auOp = Some (opID r), auCreated = now3\<rparr> d3 = Inr d'"
    "op = (scanOperation r)\<lparr>soDeletedEvents := n1, soDeletedOps := n2, soStatus := Succeeded\<rparr>"
  using assms unfolding CommitSweep_def
  by (cases "validLease l")
     (auto simp: transaction_cases Let_def split: sum.splits if_splits option.splits prod.splits intro: that)

lemma CommitSweep_Inl: "CommitSweep event now1 now2 now3 skipA skipO s l d = (Inl err, d') \<Longrightarrow> d' = d"
  by (auto simp: CommitSweep_def transaction_def split: sum.splits if_splits)

lemma CommitSweep_ok:
  assumes ok: "ledger_ok d" shows "ledger_ok (snd (CommitSweep event now1 now2 now3 skipA skipO s l d))"
proof (cases "CommitSweep event now1 now2 now3 skipA skipO s l d")
  case (Pair res d')
  show ?thesis
  proof (cases res)
    case (Inl err)
    with Pair ok CommitSweep_Inl show ?thesis by fastforce
  next
    case (Inr op)
    obtain r n1 d1 n2 d2 d3 where "validLease l"
        "find (\<lambda>r. held_inline now1 s l r \<and> opStatus r = Running) (dbOps d) = Some r"
        "map_of (dbPolicies d) (scopeTenant s) = Some (opPolicy r)"
      and e: "delete_events (scopeTenant s) (old_events skipA (scopeTenant s) (opCutoff r) (opLimit r) d) d = (n1, d1)"
      and x: "expire_results (scopeTenant s) (old_results skipO (scopeTenant s) (opID r) now2 (opLimit r) d1) d1 = (n2, d2)"
      and "affected (held_inline now3 s l) (dbOps d2) = 1"
      and d3: "d3 = d2\<lparr>dbOps := update_where (held_inline now3 s l)
         (\<lambda>r. r\<lparr>opStatus := Succeeded, opFinished := Some now3, opOwner := None, opUntil := None,
            opDeletedEvents := n1, opDeletedOps := n2\<rparr>) (dbOps d2)\<rparr>"
      and f: "insert_audit \<lparr>auTenant = scopeTenant s, auID = event, auActor = scopeActor s, auAction = ''retention.sweep'',
                auResource = opID r, auOp = Some (opID r), auCreated = now3\<rparr> d3 = Inr d'"
      and "op = (scanOperation r)\<lparr>soDeletedEvents := n1, soDeletedOps := n2, soStatus := Succeeded\<rparr>"
      by (rule CommitSweep_Inr [OF Pair [unfolded Inr]])
    have "ledger_ok d1" using ok e by (auto simp: delete_events_def Let_def intro: quiet_same)
    then have ok2: "ledger_ok d2" by (rule expire_results_ok [OF _ x]) simp
    have "ledger_ok d3" unfolding d3
      by (rule quiet_update [OF ok2, where p = "held_inline now3 s l"])
        (use ledger_row [OF ok2] in \<open>simp_all add: quiet_success held_inline_def\<close>)
    then have "ledger_ok d'" using insert_audit_same [OF f] by (elim quiet_same) simp_all
    with Pair show ?thesis by simp
  qed
qed

lemma lease_renew_ok:
  assumes "ledger_ok d" shows "ledger_ok (snd (transaction (renewOperationLease now l ttl_ms) d))"
proof -
  have "ledger_ok (d\<lparr>dbOps := update_where (held now l)
      (\<lambda>r. r\<lparr>opUntil := Some (min (opExpires r) (now + ttl_ms * 1000))\<rparr>) (dbOps d)\<rparr>)"
    by (rule quiet_update [OF assms, where p = "held now l"])
       (use ledger_row [OF assms] in \<open>simp_all add: quiet_renew held_def\<close>)
  with assms show ?thesis by (simp add: renewOperationLease_def transaction_cases)
qed

lemma length_filter_update_where:
  "(\<And>x. q (f x) = q x) \<Longrightarrow> length (filter q (update_where p f xs)) = length (filter q xs)"
  by (induction xs) (simp_all add: update_where_def)

lemma attempts_of_close [simp]: "length (filter (of_op t i) (close_attempts p st err now as)) = length (filter (of_op t i) as)"
  unfolding close_attempts_def by (rule length_filter_update_where) (simp add: of_op_def)

lemma close_attempts_keys:
  "map (\<lambda>a. (atTenant a, atOp a, atFence a)) (close_attempts p st err now as) = map (\<lambda>a. (atTenant a, atOp a, atFence a)) as"
  unfolding close_attempts_def by (rule map_update_where) simp

lemma ledger_attempt: "ledger_ok d \<Longrightarrow> a \<in> set (dbAttempts d) \<Longrightarrow> attempt_ok (dbOps d) a"
  by (simp add: ledger_ok_def)

text \<open>A claim of a dispatched operation: the row it moves, and the attempts it closes and opens.\<close>

definition claims :: "int \<Rightarrow> string \<Rightarrow> string \<Rightarrow> database \<Rightarrow> op_row \<Rightarrow> bool" where
  "claims now tenant opid d r \<longleftrightarrow> ledger_ok d \<and> r \<in> set (dbOps d) \<and> dispatchable now tenant opid r \<and> opMode r \<noteq> ''inline''"

definition claimed_row :: "int \<Rightarrow> string \<Rightarrow> int \<Rightarrow> op_row \<Rightarrow> op_row" where
  "claimed_row now owner ttl_ms r = r\<lparr>opStatus := Running, opFence := opFence r + 1, opAttempts := opAttempts r + 1, opOwner := Some owner,
     opUntil := Some (min (opExpires r) (now + ttl_ms * 1000)), opError := []\<rparr>"

definition claimed_attempts :: "int \<Rightarrow> attempt_row \<Rightarrow> attempt_row list \<Rightarrow> attempt_row list" where
  "claimed_attempts now new as = close_attempts (of_op (atTenant new) (atOp new)) Abandoned ''lease_lost'' now as @ [new]"

lemma claimed_row_simps [simp]:
  "op_pk (claimed_row now owner ttl_ms r) = op_pk r" "opMode (claimed_row now owner ttl_ms r) = opMode r"
  "opFence (claimed_row now owner ttl_ms r) = opFence r + 1" "opStatus (claimed_row now owner ttl_ms r) = Running"
  "opAttempts (claimed_row now owner ttl_ms r) = opAttempts r + 1"
  "opTenant (claimed_row now owner ttl_ms r) = opTenant r" "opID (claimed_row now owner ttl_ms r) = opID r"
  by (simp_all add: claimed_row_def op_pk_def)

lemma claimOperationLease_Inr:
  assumes "claimOperationLease now tenant opid owner ttl_ms d = Inr x"
  obtains r new where "find (dispatchable now tenant opid) (dbOps d) = Some r"
    "dbOps (snd x) = update_where (dispatchable now tenant opid) (claimed_row now owner ttl_ms) (dbOps d)"
    "dbAttempts (snd x) = claimed_attempts now new (dbAttempts d)"
    "atTenant new = tenant" "atOp new = opid" "atFence new = opFence r + 1"
  using assms unfolding claimOperationLease_def claimed_row_def [abs_def] claimed_attempts_def insert_attempt_def
  by (auto simp: Let_def split: option.splits if_splits)

lemma claims_only:
  assumes "claims now tenant opid d r" "r' \<in> set (dbOps d)"
  shows "op_pk r' = (tenant, opid) \<longleftrightarrow> r' = r" and "dispatchable now tenant opid r' \<longleftrightarrow> r' = r"
proof -
  have r: "ledger_ok d" "r \<in> set (dbOps d)" "dispatchable now tenant opid r" using assms(1) by (simp_all add: claims_def)
  then have "op_pk r = (tenant, opid)" by (simp add: dispatchable_def named_def op_pk_def)
  with pk_unique [OF r(1) assms(2) r(2)] show pk: "op_pk r' = (tenant, opid) \<longleftrightarrow> r' = r" by auto
  then show "dispatchable now tenant opid r' \<longleftrightarrow> r' = r" using r(3) by (auto simp: dispatchable_def named_def op_pk_def)
qed

lemma claimed_row_ok: "claims now tenant opid d r \<Longrightarrow> row_ok (claimed_row now owner ttl_ms r)"
  using ledger_row [of d r] by (auto simp: claims_def row_ok_def dispatchable_def claimed_row_def)

lemma claimed_attempt_ok:
  assumes c: "claims now tenant opid d r" and new: "atTenant new = tenant" "atOp new = opid" "atFence new = opFence r + 1"
    and a: "a \<in> set (claimed_attempts now new (dbAttempts d))"
  shows "attempt_ok (update_where (dispatchable now tenant opid) (claimed_row now owner ttl_ms) (dbOps d)) a"
proof -
  let ?rows = "update_where (dispatchable now tenant opid) (claimed_row now owner ttl_ms) (dbOps d)"
  have r: "ledger_ok d" "r \<in> set (dbOps d)" "dispatchable now tenant opid r" "opMode r \<noteq> ''inline''" using c by (simp_all add: claims_def)
  have mine: "attempt_ok ?rows a" if "of_op tenant opid a" "1 \<le> atFence a" "atFence a \<le> opFence r + 1"
      "atState a = Acquiring \<longrightarrow> atFence a = opFence r + 1"
    unfolding attempt_ok_def
    by (rule bexI [of _ "claimed_row now owner ttl_ms r"])
       (use r that claims_only(1) [OF c r(2)] in \<open>auto simp: op_pk_def intro!: image_eqI [of _ _ r]\<close>)
  from a consider a0 where "a0 \<in> set (dbAttempts d)" "of_op tenant opid a0" "of_op tenant opid a" "atFence a = atFence a0" "atState a \<noteq> Acquiring"
    | "a \<in> set (dbAttempts d)" "\<not> of_op tenant opid a" | "a = new"
    by (auto simp: claimed_attempts_def close_attempts_def of_op_def new)
  then show ?thesis
  proof cases
    case 1
    from ledger_attempt [OF r(1) 1(1)] obtain r0 where r0: "r0 \<in> set (dbOps d)" "of_op (opTenant r0) (opID r0) a0" "1 \<le> atFence a0" "atFence a0 \<le> opFence r0"
      by (auto simp: attempt_ok_def)
    have "r0 = r" using claims_only(1) [OF c r0(1)] r0(2) 1(2) by (auto simp: of_op_def op_pk_def)
    with r0 1 show ?thesis by (intro mine) auto
  next
    case 2
    from ledger_attempt [OF r(1) 2(1)] obtain r0 where r0: "r0 \<in> set (dbOps d)" "of_op (opTenant r0) (opID r0) a"
        "opMode r0 \<noteq> ''inline''" "1 \<le> atFence a" "atFence a \<le> opFence r0" "atState a = Acquiring \<longrightarrow> atFence a = opFence r0 \<and> opStatus r0 = Running"
      by (auto simp: attempt_ok_def)
    have "\<not> dispatchable now tenant opid r0" using 2(2) r0(2) by (auto simp: dispatchable_def named_def)
    then have "r0 \<in> set ?rows" using r0(1) by (auto intro!: image_eqI [of _ _ r0])
    with r0 show ?thesis unfolding attempt_ok_def by blast
  next
    case 3
    with ledger_row [OF r(1,2)] new show ?thesis by (intro mine) (auto simp: of_op_def row_ok_def)
  qed
qed

lemma claimed_keys:
  assumes c: "claims now tenant opid d r" and new: "atTenant new = tenant" "atOp new = opid" "atFence new = opFence r + 1"
  shows "distinct (map (\<lambda>a. (atTenant a, atOp a, atFence a)) (claimed_attempts now new (dbAttempts d)))"
proof -
  let ?k = "\<lambda>a. (atTenant a, atOp a, atFence a)"
  have ok: "ledger_ok d" using c by (simp add: claims_def)
  have "?k new \<noteq> ?k a" if a: "a \<in> set (dbAttempts d)" for a
  proof
    assume eq: "?k new = ?k a"
    from ledger_attempt [OF ok a] obtain r0 where r0: "r0 \<in> set (dbOps d)" "of_op (opTenant r0) (opID r0) a" "atFence a \<le> opFence r0"
      by (auto simp: attempt_ok_def)
    have "r0 = r" using claims_only(1) [OF c r0(1)] r0(2) eq new by (auto simp: of_op_def op_pk_def)
    with r0 eq new show False by simp
  qed
  then have "?k new \<notin> set (map ?k (dbAttempts d))" unfolding set_map by blast
  moreover have "distinct (map ?k (dbAttempts d))" using ok by (simp add: ledger_ok_def)
  ultimately show ?thesis
    unfolding claimed_attempts_def map_append close_attempts_keys distinct_append by simp
qed

lemma claimed_counts:
  assumes c: "claims now tenant opid d r" and new: "atTenant new = tenant" "atOp new = opid"
    and r': "r' \<in> set (update_where (dispatchable now tenant opid) (claimed_row now owner ttl_ms) (dbOps d))" "opMode r' \<noteq> ''inline''"
  shows "int (length (attempts_of r' (claimed_attempts now new (dbAttempts d)))) = opAttempts r'"
proof -
  from r'(1) obtain r0 where r0: "r0 \<in> set (dbOps d)" "r' = (if dispatchable now tenant opid r0 then claimed_row now owner ttl_ms r0 else r0)"
    by auto
  then have "op_pk r' = op_pk r0" "opMode r0 = opMode r'" by auto
  moreover from this have "int (length (attempts_of r0 (dbAttempts d))) = opAttempts r0"
    using c r0(1) r'(2) by (simp add: claims_def ledger_ok_def)
  moreover have "op_pk r0 = (tenant, opid) \<longleftrightarrow> dispatchable now tenant opid r0" using claims_only [OF c r0(1)] by simp
  ultimately show ?thesis
    using r0(2) new by (auto simp: claimed_attempts_def attempts_of_def of_op_def op_pk_def split: if_splits)
qed

lemma lease_claim_ok:
  assumes ok: "ledger_ok d" and mode: "\<forall>r \<in> set (dbOps d). named tenant opid r \<longrightarrow> opMode r \<noteq> ''inline''"
  shows "ledger_ok (snd (transaction (claimOperationLease now tenant opid owner ttl_ms) d))"
proof (cases "claimOperationLease now tenant opid owner ttl_ms d")
  case (Inr x)
  obtain r new where r: "find (dispatchable now tenant opid) (dbOps d) = Some r"
    and ops: "dbOps (snd x) = update_where (dispatchable now tenant opid) (claimed_row now owner ttl_ms) (dbOps d)"
    and att: "dbAttempts (snd x) = claimed_attempts now new (dbAttempts d)"
    and new: "atTenant new = tenant" "atOp new = opid" "atFence new = opFence r + 1"
    by (rule claimOperationLease_Inr [OF Inr])
  have c: "claims now tenant opid d r"
    using r ok mode by (auto simp: claims_def find_Some_iff dispatchable_def)
  have "map op_pk (dbOps (snd x)) = map op_pk (dbOps d)" unfolding ops by (rule map_update_where) simp
  moreover have "row_ok r'" if "r' \<in> set (dbOps (snd x))" for r'
    using that claimed_row_ok [OF c] claims_only(2) [OF c] ledger_row [OF ok] by (auto simp: ops)
  ultimately have "ledger_ok (snd x)"
    using ok claimed_attempt_ok [OF c new] claimed_keys [OF c new] claimed_counts [OF c new(1,2)]
    unfolding ledger_ok_def ops att by simp
  with Inr show ?thesis by (auto simp: transaction_cases split: prod.splits)
qed (simp add: transaction_cases ok)

lemma lease_fail_ok:
  assumes ok: "ledger_ok d" and mode: "olMode l \<noteq> ''inline''"
  shows "ledger_ok (snd (transaction (failOperationLease now1 now2 l err permanent delay_ms) d))"
proof (cases "find (held now1 l) (dbOps d)")
  case None
  then show ?thesis by (simp add: failOperationLease_def transaction_cases ok)
next
  case (Some r)
  define st where "st = (if permanent then Blocked else if opAttempts r \<ge> opMaxAttempts r then Failed else Retry)"
  let ?p = "\<lambda>r. named (olTenant l) (olOp l) r \<and> opOwner r = Some (olOwner l) \<and> opFence r = olFence l"
  let ?f = "\<lambda>r. r\<lparr>opStatus := st, opError := err, opOwner := None, opUntil := None,
                   opFinished := (if st = Retry then None else Some now2), opNextAttempt := now2 + delay_ms * 1000\<rparr>"
  let ?q = "\<lambda>a. of_op (olTenant l) (olOp l) a \<and> atFence a = olFence l"
  let ?closed = "close_attempts ?q (attempt_outcome st) err now2 (dbAttempts d)"
  let ?d = "d\<lparr>dbOps := update_where ?p ?f (dbOps d), dbAttempts := ?closed\<rparr>"
  have rin: "r \<in> set (dbOps d)" and rh: "held now1 l r" using Some by (auto simp: find_Some_iff)
  have only: "r' = r" if "r' \<in> set (dbOps d)" "named (olTenant l) (olOp l) r'" for r'
    by (rule pk_unique [OF ok that(1) rin]) (use that(2) rh in \<open>simp add: held_def named_def op_pk_def\<close>)
  have st: "st \<noteq> Running" by (simp add: st_def)
  have oc: "attempt_outcome st \<noteq> Acquiring" by (simp add: attempt_outcome_def)
  have fin: "(if ?p r0 then ?f r0 else r0) \<in> set (dbOps ?d)" if "r0 \<in> set (dbOps d)" for r0
    using that by simp
  have pk: "map op_pk (dbOps ?d) = map op_pk (dbOps d)" by (simp add: map_update_where op_pk_def)
  have rows: "row_ok r'" if "r' \<in> set (dbOps ?d)" for r'
  proof -
    from that obtain r0 where r0: "r0 \<in> set (dbOps d)" "r' = (if ?p r0 then ?f r0 else r0)" by auto
    then show ?thesis using ledger_row [OF ok r0(1)] st by (cases "?p r0") (simp_all add: row_ok_def)
  qed
  have atts: "attempt_ok (dbOps ?d) a" if "a \<in> set (dbAttempts ?d)" for a
  proof -
    from that obtain a0 where a0: "a0 \<in> set (dbAttempts d)" "atTenant a = atTenant a0" "atOp a = atOp a0" "atFence a = atFence a0"
      "atState a = Acquiring \<longrightarrow> atState a0 = Acquiring \<and> \<not> ?q a0"
      using oc by (auto simp: close_attempts_def)
    from ok a0(1) obtain r0 where r0: "r0 \<in> set (dbOps d)" "of_op (opTenant r0) (opID r0) a0" "opMode r0 \<noteq> ''inline''" "1 \<le> atFence a0"
        "atFence a0 \<le> opFence r0" "atState a0 = Acquiring \<longrightarrow> atFence a0 = opFence r0 \<and> opStatus r0 = Running"
      by (auto simp: ledger_ok_def attempt_ok_def)
    have "atState a \<noteq> Acquiring" if "?p r0"
      using that a0(5) r0(2,6) by (auto simp: named_def)
    then show ?thesis unfolding attempt_ok_def using r0 a0
      by (intro bexI [OF _ fin [OF r0(1)]]) (auto simp: of_op_def)
  qed
  have counts: "int (length (attempts_of r' (dbAttempts ?d))) = opAttempts r'"
    if r': "r' \<in> set (dbOps ?d)" "opMode r' \<noteq> ''inline''" for r'
  proof -
    from r'(1) obtain r0 where r0: "r0 \<in> set (dbOps d)" "r' = (if ?p r0 then ?f r0 else r0)" by auto
    then have "op_pk r' = op_pk r0" "opMode r0 = opMode r'" "opAttempts r' = opAttempts r0"
      by (simp_all add: op_pk_def)
    then show ?thesis using ok r0(1) r'(2) by (simp add: ledger_ok_def attempts_of_def op_pk_def)
  qed
  have "ledger_ok ?d" using pk rows atts close_attempts_keys counts ok by (simp add: ledger_ok_def)
  then show ?thesis
    using Some by (simp add: failOperationLease_def transaction_cases Let_def st_def)
qed

lemma ledger_step_ok: "ledger_step d d' \<Longrightarrow> ledger_ok d \<Longrightarrow> ledger_ok d'"
  by (induction rule: ledger_step.induct)
     (simp_all add: ReserveSweep_ok Claim_ok Renew_ok CommitSweep_ok lease_claim_ok lease_renew_ok lease_fail_ok
        quiet_same [OF _ conjunct1 [OF SetPolicy_same] conjunct2 [OF SetPolicy_same]])

interpretation ledger_run: invariant_run ledger_step ledger_ok
  by unfold_locales (rule ledger_step_ok)

text \<open>
  C23. However handlers of any number of replicas interleave, the ledger stays consistent: keys are
  unique, a row has an owner and a lease exactly while it runs, each claim of a dispatched
  operation left exactly one attempt, so it is never attempted more often than admitted, no two
  attempts share a fence, and at most one attempt is open: that of the current fence.
\<close>

theorem ledger_invariant:
  assumes "ledger_ok d" and "ledger_step\<^sup>*\<^sup>* d d'" and "r \<in> set (dbOps d')"
  shows "(opStatus r = Running \<longleftrightarrow> opUntil r \<noteq> None) \<and> (opUntil r \<noteq> None \<longleftrightarrow> opOwner r \<noteq> None)
    \<and> (\<forall>r' \<in> set (dbOps d'). op_pk r' = op_pk r \<longrightarrow> r' = r)
    \<and> (opMode r \<noteq> ''inline'' \<longrightarrow> int (length (attempts_of r (dbAttempts d'))) = opAttempts r \<and> opAttempts r \<le> opMaxAttempts r
        \<and> distinct (map atFence (attempts_of r (dbAttempts d')))
        \<and> (\<forall>a \<in> set (attempts_of r (dbAttempts d')). atFence a \<le> opFence r
             \<and> (atState a = Acquiring \<longrightarrow> opStatus r = Running \<and> atFence a = opFence r)))"
proof -
  have ok: "ledger_ok d'" using ledger_run.run_keeps [OF assms(2,1)] .
  have d: "distinct (map atFence (attempts_of r (dbAttempts d')))"
  proof -
    have "distinct (map (\<lambda>a. (atTenant a, atOp a, atFence a)) (attempts_of r (dbAttempts d')))"
      using ok unfolding ledger_ok_def attempts_of_def by (blast intro: distinct_map_filter)
    then show ?thesis by (auto simp: distinct_map inj_on_def attempts_of_def of_op_def)
  qed
  have a: "atFence a \<le> opFence r \<and> (atState a = Acquiring \<longrightarrow> opStatus r = Running \<and> atFence a = opFence r)"
    if "a \<in> set (attempts_of r (dbAttempts d'))" for a
  proof -
    from that have "a \<in> set (dbAttempts d')" and at: "of_op (opTenant r) (opID r) a" by (auto simp: attempts_of_def)
    with ok obtain r0 where r0: "r0 \<in> set (dbOps d')" "of_op (opTenant r0) (opID r0) a" "atFence a \<le> opFence r0"
        "atState a = Acquiring \<longrightarrow> atFence a = opFence r0 \<and> opStatus r0 = Running"
      by (auto simp: ledger_ok_def attempt_ok_def)
    have "r0 = r" by (rule pk_unique [OF ok r0(1) assms(3)]) (use r0(2) at in \<open>auto simp: of_op_def op_pk_def\<close>)
    with r0 show ?thesis by blast
  qed
  have "row_ok r" using ledger_row [OF ok assms(3)] .
  then show ?thesis
    using d a ok assms(3) pk_unique [OF ok _ assms(3)] by (simp add: row_ok_def ledger_ok_def)
qed

subsection \<open>Fencing\<close>

text \<open>Rows are never deleted and their fences never decrease.\<close>

definition fence_le :: "op_row list \<Rightarrow> op_row list \<Rightarrow> bool" where
  "fence_le rows rows' \<longleftrightarrow> (\<forall>r \<in> set rows. \<exists>r' \<in> set rows'. op_pk r' = op_pk r \<and> opFence r \<le> opFence r')"

lemma fence_le_refl [simp]: "fence_le rows rows"
  by (auto simp: fence_le_def)

lemma fence_le_trans: "fence_le a b \<Longrightarrow> fence_le b c \<Longrightarrow> fence_le a c"
  unfolding fence_le_def by (metis order_trans)

lemma fence_le_append [simp]: "fence_le rows (rows @ new)"
  by (auto simp: fence_le_def)

lemma fence_le_update: "(\<And>r. op_pk (f r) = op_pk r \<and> opFence r \<le> opFence (f r)) \<Longrightarrow> fence_le rows (update_where p f rows)"
proof -
  assume f: "\<And>r. op_pk (f r) = op_pk r \<and> opFence r \<le> opFence (f r)"
  have "\<exists>r' \<in> set (update_where p f rows). op_pk r' = op_pk r \<and> opFence r \<le> opFence r'" if "r \<in> set rows" for r
    using that f [of r] by (intro bexI [of _ "if p r then f r else r"]) auto
  then show ?thesis by (simp add: fence_le_def)
qed

lemma CommitSweep_fences: "fence_le (dbOps d) (dbOps (snd (CommitSweep event now1 now2 now3 skipA skipO s l d)))"
proof (cases "CommitSweep event now1 now2 now3 skipA skipO s l d")
  case (Pair res d')
  show ?thesis
  proof (cases res)
    case (Inl err)
    with Pair CommitSweep_Inl show ?thesis by fastforce
  next
    case (Inr op)
    obtain r n1 d1 n2 d2 d3 where "validLease l"
        "find (\<lambda>r. held_inline now1 s l r \<and> opStatus r = Running) (dbOps d) = Some r"
        "map_of (dbPolicies d) (scopeTenant s) = Some (opPolicy r)"
      and e: "delete_events (scopeTenant s) (old_events skipA (scopeTenant s) (opCutoff r) (opLimit r) d) d = (n1, d1)"
      and x: "expire_results (scopeTenant s) (old_results skipO (scopeTenant s) (opID r) now2 (opLimit r) d1) d1 = (n2, d2)"
      and "affected (held_inline now3 s l) (dbOps d2) = 1"
      and d3: "d3 = d2\<lparr>dbOps := update_where (held_inline now3 s l)
         (\<lambda>r. r\<lparr>opStatus := Succeeded, opFinished := Some now3, opOwner := None, opUntil := None,
            opDeletedEvents := n1, opDeletedOps := n2\<rparr>) (dbOps d2)\<rparr>"
      and f: "insert_audit \<lparr>auTenant = scopeTenant s, auID = event, auActor = scopeActor s, auAction = ''retention.sweep'',
                auResource = opID r, auOp = Some (opID r), auCreated = now3\<rparr> d3 = Inr d'"
      and "op = (scanOperation r)\<lparr>soDeletedEvents := n1, soDeletedOps := n2, soStatus := Succeeded\<rparr>"
      by (rule CommitSweep_Inr [OF Pair [unfolded Inr]])
    have "dbOps d1 = dbOps d" using e by (auto simp: delete_events_def Let_def)
    moreover have "fence_le (dbOps d1) (dbOps d2)"
      using x by (auto simp: expire_results_def Let_def op_pk_def intro!: fence_le_update)
    moreover have "fence_le (dbOps d2) (dbOps d3)"
      unfolding d3 by (simp add: fence_le_update op_pk_def)
    ultimately show ?thesis using insert_audit_same [OF f] Pair by (auto intro: fence_le_trans)
  qed
qed

lemma claimOperationLease_fences:
  "claimOperationLease now tenant opid owner ttl_ms d = Inr (x, d') \<Longrightarrow> fence_le (dbOps d) (dbOps d')"
  by (auto simp: claimOperationLease_def insert_attempt_def Let_def op_pk_def split: option.splits if_splits
      intro!: fence_le_update)

lemma ledger_step_fences: "ledger_step d d' \<Longrightarrow> fence_le (dbOps d) (dbOps d')"
proof (induction rule: ledger_step.induct)
  case (set_policy d event now s expected p)
  then show ?case using SetPolicy_same [of event now s expected p d] by simp
next
  case (reserve d newid now1 now2 s key hash limit)
  have "fence_le (dbOps d) (dbOps d')" if "insert_sweep newid now1 s key hash limit d = Inr d'" for d'
    using insert_sweep_Inr [OF that] by auto
  then show ?case by (auto simp: ReserveSweep_def transaction_def split: sum.splits option.splits)
next
  case (claim d now s opid owner ttl)
  then show ?case
    by (auto simp: Claim_def transaction_cases op_pk_def split: sum.splits option.splits intro!: fence_le_update)
next
  case (renew d now s l ttl)
  then show ?case
    by (auto simp: Renew_def transaction_cases op_pk_def Let_def split: sum.splits intro!: fence_le_update)
next
  case (commit d event now1 now2 now3 skipA skipO s l)
  then show ?case by (rule CommitSweep_fences)
next
  case (lease_claim d tenant opid now owner ttl_ms)
  then show ?case by (auto simp: transaction_cases claimOperationLease_fences split: sum.splits prod.splits)
next
  case (lease_renew d now l ttl_ms)
  then show ?case
    by (auto simp: transaction_cases renewOperationLease_def op_pk_def intro!: fence_le_update)
next
  case (lease_fail l d now1 now2 err permanent delay_ms)
  then show ?case
    by (auto simp: transaction_cases failOperationLease_def op_pk_def Let_def split: option.splits intro!: fence_le_update)
qed

interpretation fenced_run: ordered_run ledger_step ledger_ok "\<lambda>d d'. fence_le (dbOps d) (dbOps d')"
  by unfold_locales (auto intro: fence_le_trans ledger_step_fences)

text \<open>Below the fence of its row, a lease matches no row.\<close>

lemma stale_holds:
  assumes "ledger_ok d" and "r \<in> set (dbOps d)" and "fence < opFence r" and "r' \<in> set (dbOps d)" and "op_pk r' = op_pk r"
  shows "\<not> holds now owner fence r'"
  using pk_unique [OF assms(1,4,2,5)] assms(3) by (simp add: holds_def)

text \<open>
  C24. A fence protects the effect of the current holder: once an operation has been claimed again,
  whatever handlers ran since, every use of an older lease (renewing it, committing the sweep,
  recording the failure of the attempt) is refused as a conflict, at any time, and changes nothing.
\<close>

theorem stale_lease_powerless:
  assumes "ledger_ok d" and "ledger_step\<^sup>*\<^sup>* d d'" and "r \<in> set (dbOps d)" and "op_pk r = (tenant, opid)"
    and "fence < opFence r" and "Scope_Valid s" and "scopeTenant s = tenant"
    and "validLease \<lparr>slOp = opid, slOwner = owner, slFence = fence\<rparr>" and "validTTL ttl"
  shows "Renew now s \<lparr>slOp = opid, slOwner = owner, slFence = fence\<rparr> ttl d' = (Inl StoreErrConflict, d')
    \<and> CommitSweep event now now2 now3 skipA skipO s \<lparr>slOp = opid, slOwner = owner, slFence = fence\<rparr> d' = (Inl StoreErrConflict, d')
    \<and> renewOperationLease now \<lparr>olTenant = tenant, olOp = opid, olOwner = owner, olManifest = mf, olMode = mode, olFence = fence\<rparr> ms d'
        = Inl StoreErrConflict
    \<and> failOperationLease now now2 \<lparr>olTenant = tenant, olOp = opid, olOwner = owner, olManifest = mf, olMode = mode, olFence = fence\<rparr>
        err permanent delay d' = Inl StoreErrConflict"
proof -
  have ok: "ledger_ok d'" using ledger_run.run_keeps [OF assms(2,1)] .
  from fenced_run.run_rel [OF assms(2,1)] assms(3) obtain r' where r': "r' \<in> set (dbOps d')" "op_pk r' = op_pk r" "opFence r \<le> opFence r'"
    by (auto simp: fence_le_def)
  have no: "\<not> holds now owner fence x" if "x \<in> set (dbOps d')" "opTenant x = tenant" "opID x = opid" for x
    by (rule stale_holds [OF ok r'(1) _ that(1)]) (use assms(4,5) r' that in \<open>auto simp: op_pk_def\<close>)
  then have a: "\<forall>x \<in> set (dbOps d'). \<not> held_inline now s \<lparr>slOp = opid, slOwner = owner, slFence = fence\<rparr> x"
    "\<forall>x \<in> set (dbOps d'). \<not> held now \<lparr>olTenant = tenant, olOp = opid, olOwner = owner, olManifest = mf, olMode = mode, olFence = fence\<rparr> x"
    using assms(7) by (auto simp: held_inline_def held_def named_def)
  then have f: "filter (\<lambda>x. held_inline now s \<lparr>slOp = opid, slOwner = owner, slFence = fence\<rparr> x \<and> opStatus x = Running) (dbOps d') = []"
    "find (\<lambda>x. held_inline now s \<lparr>slOp = opid, slOwner = owner, slFence = fence\<rparr> x \<and> opStatus x = Running) (dbOps d') = None"
    "filter (held now \<lparr>olTenant = tenant, olOp = opid, olOwner = owner, olManifest = mf, olMode = mode, olFence = fence\<rparr>) (dbOps d') = []"
    "find (held now \<lparr>olTenant = tenant, olOp = opid, olOwner = owner, olManifest = mf, olMode = mode, olFence = fence\<rparr>) (dbOps d') = None"
    by (auto simp: filter_empty_conv find_None_iff)
  show ?thesis
    using f assms(6,8,9)
    by (simp add: Renew_def CommitSweep_def renewOperationLease_def failOperationLease_def transaction_def checkScope_def affected_def)
qed

text \<open>
  C25. Leases exclude each other: while a lease on an operation is alive, no replica can claim the
  operation by either path, and any other lease that the ledger still accepts at that moment has the
  same owner and the same fence.
\<close>

theorem live_lease_exclusive:
  assumes "ledger_ok d" and "r \<in> set (dbOps d)" and "holds now owner fence r" and "Scope_Valid s" and "scopeTenant s = opTenant r"
    and "store_Identifier (opID r)" and "store_Identifier owner'" and "validTTL ttl"
  shows "Claim now s (opID r) owner' ttl d = (Inl StoreErrConflict, d)
    \<and> claimOperationLease now (opTenant r) (opID r) owner' ms d = Inl StoreErrConflict
    \<and> (\<forall>l. slOp l = opID r \<longrightarrow> fst (Renew now s l ttl d) = Inr () \<longrightarrow> slOwner l = owner \<and> slFence l = fence)"
proof -
  have only: "x = r" if "x \<in> set (dbOps d)" "opTenant x = opTenant r" "opID x = opID r" for x
    by (rule pk_unique [OF assms(1) that(1) assms(2)]) (simp add: op_pk_def that)
  have live: "\<not> unleased now r" using assms(3) by (auto simp: holds_def unleased_def split: option.splits)
  have "\<forall>x \<in> set (dbOps d). \<not> claimable now s (opID r) x" "\<forall>x \<in> set (dbOps d). \<not> dispatchable now (opTenant r) (opID r) x"
    using only live assms(5) by (auto simp: claimable_def dispatchable_def named_def)
  then have n: "find (claimable now s (opID r)) (dbOps d) = None" "find (dispatchable now (opTenant r) (opID r)) (dbOps d) = None"
    by (simp_all add: find_None_iff)
  have "slOwner l = owner \<and> slFence l = fence" if l: "slOp l = opID r" "fst (Renew now s l ttl d) = Inr ()" for l
  proof -
    from l(2) have "affected (\<lambda>r. held_inline now s l r \<and> opStatus r = Running) (dbOps d) = 1"
      by (auto simp: Renew_def transaction_def Let_def split: sum.splits if_splits)
    from affected_one [OF this] obtain x where "x \<in> set (dbOps d)" "held_inline now s l x" by blast
    then show ?thesis using only [of x] l(1) assms(3,5) by (auto simp: held_inline_def holds_def)
  qed
  with n assms(4,6,7,8) show ?thesis
    by (simp add: Claim_def claimOperationLease_def transaction_def checkScope_def Let_def)
qed

subsection \<open>Policies\<close>

lemma SetPolicy_Inr:
  assumes "SetPolicy event now s expected p d = (Inr q, d')"
  obtains d1 rev where "Scope_Valid s" "0 \<le> expected" "policy_pointer (scopeTenant s) expected d = Inr d1"
    "rev = \<lparr>rvTenant = scopeTenant s, rvRevision = expected + 1, rvAuditDays = polAuditDays p,
       rvOperationHours = polOperationHours p, rvBy = scopeActor s\<rparr>"
    "\<forall>x \<in> set (dbRevisions d1). \<not> (rvTenant x = scopeTenant s \<and> rvRevision x = expected + 1)"
    "dbRevisions d' = dbRevisions d1 @ [rev]"
    "dbPolicies d' = (if expected = 0 then dbPolicies d1 @ [(scopeTenant s, 1)] else dbPolicies d1)"
    "expected = 0 \<longrightarrow> scopeTenant s \<notin> fst ` set (dbPolicies d1)"
    "q = \<lparr>polRevision = expected + 1, polAuditDays = polAuditDays p, polOperationHours = polOperationHours p\<rparr>"
proof -
  let ?t = "scopeTenant s"
  let ?rev = "\<lparr>rvTenant = ?t, rvRevision = expected + 1, rvAuditDays = polAuditDays p,
       rvOperationHours = polOperationHours p, rvBy = scopeActor s\<rparr>"
  from assms obtain d1 d2 d3 where sc: "Scope_Valid s" and e: "0 \<le> expected"
    and d1: "policy_pointer ?t expected d = Inr d1" and d2: "insert_revision ?rev d1 = Inr d2"
    and d3: "(if expected = 0 then insert_policy ?t (expected + 1) d2 else Inr d2) = Inr d3"
    and d4: "insert_audit \<lparr>auTenant = ?t, auID = event, auActor = scopeActor s,
               auAction = ''retention_policy.updated'', auResource = ''retention'', auOp = None, auCreated = now\<rparr> d3 = Inr d'"
    and q: "q = \<lparr>polRevision = expected + 1, polAuditDays = polAuditDays p, polOperationHours = polOperationHours p\<rparr>"
    unfolding SetPolicy_def transaction_cases checkScope_def
    by (auto simp: transaction_cases split: sum.splits if_split_asm simp del: insert_policy_def)
  have "dbPolicies d' = (if expected = 0 then dbPolicies d2 @ [(?t, 1)] else dbPolicies d2)"
    and "dbRevisions d' = dbRevisions d2" and "expected = 0 \<longrightarrow> ?t \<notin> fst ` set (dbPolicies d2)"
    using d3 d4 by (auto simp: insert_policy_def insert_audit_def split: if_splits)
  moreover have "\<forall>x \<in> set (dbRevisions d1). \<not> (rvTenant x = ?t \<and> rvRevision x = expected + 1)"
    and "dbRevisions d2 = dbRevisions d1 @ [?rev]" "dbPolicies d2 = dbPolicies d1"
    using d2 by (auto simp: insert_revision_def list_ex_iff split: if_splits)
  ultimately show thesis using that [OF sc e d1 refl _ _ _ _ q] by simp
qed

lemma policy_pointer_swap:
  assumes "policy_pointer t expected d = Inr d1" "0 < expected" "distinct (map fst (dbPolicies d))"
  shows "map_of (dbPolicies d) t = Some expected" "map_of (dbPolicies d1) t = Some (expected + 1)" "(t, expected) \<notin> set (dbPolicies d1)"
proof -
  from assms(1,2) have n: "affected (\<lambda>p. p = (t, expected)) (dbPolicies d) = 1"
    and d1: "dbPolicies d1 = update_where (\<lambda>p. p = (t, expected)) (\<lambda>p. (t, expected + 1)) (dbPolicies d)"
    by (auto simp: policy_pointer_def split: if_splits)
  from affected_one [OF n] have mem: "(t, expected) \<in> set (dbPolicies d)" by simp
  have "distinct (map fst (dbPolicies d1))" using assms(3) unfolding d1 by (subst map_update_where) auto
  moreover have "(t, expected + 1) \<in> set (dbPolicies d1)" using mem by (force simp: d1)
  ultimately show "map_of (dbPolicies d1) t = Some (expected + 1)" by simp
  show "(t, expected) \<notin> set (dbPolicies d1)" by (auto simp: d1)
  show "map_of (dbPolicies d) t = Some expected" using mem assms(3) by simp
qed

text \<open>
  C26. A policy change is a compare-and-swap that keeps history: it succeeds only from the revision
  the caller named, makes exactly the next revision current, keeps every earlier revision row, and
  the same change raced a second time is a conflict that changes nothing.
\<close>

theorem policy_compare_and_swap:
  assumes "SetPolicy event now s expected p d = (Inr q, d')" and "distinct (map fst (dbPolicies d))"
  shows "map_of (dbPolicies d) (scopeTenant s) = (if expected = 0 then None else Some expected)
    \<and> Policy_read s d' = (Inr q, d') \<and> polRevision q = expected + 1 \<and> polAuditDays q = polAuditDays p
    \<and> set (dbRevisions d) \<subseteq> set (dbRevisions d')
    \<and> SetPolicy event' now' s expected p' d' \<in> {(Inl StoreErrConflict, d'), (Inl StoreErrInvalid, d')}"
proof -
  let ?t = "scopeTenant s"
  obtain d1 rev where sc: "Scope_Valid s" and e: "0 \<le> expected" and d1: "policy_pointer ?t expected d = Inr d1"
    and rev: "rev = \<lparr>rvTenant = ?t, rvRevision = expected + 1, rvAuditDays = polAuditDays p,
       rvOperationHours = polOperationHours p, rvBy = scopeActor s\<rparr>"
    and fresh: "\<forall>x \<in> set (dbRevisions d1). \<not> (rvTenant x = ?t \<and> rvRevision x = expected + 1)"
    and revs: "dbRevisions d' = dbRevisions d1 @ [rev]"
    and pol: "dbPolicies d' = (if expected = 0 then dbPolicies d1 @ [(?t, 1)] else dbPolicies d1)"
    and new: "expected = 0 \<longrightarrow> ?t \<notin> fst ` set (dbPolicies d1)"
    and q: "q = \<lparr>polRevision = expected + 1, polAuditDays = polAuditDays p, polOperationHours = polOperationHours p\<rparr>"
    by (rule SetPolicy_Inr [OF assms(1)])
  have d1r: "dbRevisions d1 = dbRevisions d" "expected = 0 \<Longrightarrow> dbPolicies d1 = dbPolicies d"
    using d1 by (auto simp: policy_pointer_def split: if_splits)
  have cur: "map_of (dbPolicies d) ?t = (if expected = 0 then None else Some expected)" "map_of (dbPolicies d') ?t = Some (expected + 1)"
    "expected \<noteq> 0 \<longrightarrow> (?t, expected) \<notin> set (dbPolicies d')"
    using e new d1r(2) policy_pointer_swap [OF d1 _ assms(2)] by (auto simp: pol map_add_def map_of_eq_None_iff [THEN iffD2])
  have "SetPolicy event' now' s expected p' d' \<in> {(Inl StoreErrConflict, d'), (Inl StoreErrInvalid, d')}"
  proof (cases "expected = 0")
    case True
    then show ?thesis using sc by (simp add: SetPolicy_def checkScope_def policy_pointer_def insert_revision_def transaction_def revs rev)
  next
    case False
    then have "filter (\<lambda>p. p = (?t, expected)) (dbPolicies d') = []" using cur(3) by (auto simp: filter_empty_conv)
    with False e sc show ?thesis by (simp add: SetPolicy_def checkScope_def policy_pointer_def transaction_def affected_def)
  qed
  moreover have "find (\<lambda>x. rvTenant x = ?t \<and> rvRevision x = expected + 1) (dbRevisions d') = Some rev"
    using fresh by (simp add: revs rev find_append find_None_iff [THEN iffD2])
  then have "Policy_read s d' = (Inr q, d')"
    using sc cur(2) by (simp add: Policy_read_def checkScope_def current_policy_def transaction_def q rev)
  ultimately show ?thesis using cur(1) by (auto simp: q revs d1r)
qed

subsection \<open>The effect of a sweep\<close>

definition audits_ok :: "database \<Rightarrow> bool" where
  "audits_ok d \<longleftrightarrow> distinct (map (\<lambda>a. (auTenant a, auID a)) (dbAudits d))"

lemma length_filter_mem:
  assumes "distinct xs" "distinct ys" "set ys \<subseteq> set xs"
  shows "length (filter (\<lambda>x. x \<in> set ys) xs) = length ys"
proof -
  have "set (filter (\<lambda>x. x \<in> set ys) xs) = set ys" using assms(3) by auto
  then show ?thesis using assms(1,2) by (metis distinct_card distinct_filter)
qed

text \<open>The first elements of a sorted list are below the rest.\<close>

lemma take_sort_key_least:
  assumes "a \<in> set (take n (sort_key f xs))" "b \<in> set xs" "b \<notin> set (take n (sort_key f xs))"
  shows "f a \<le> (f b :: 'b :: linorder)"
proof -
  have "b \<in> set (take n (sort_key f xs) @ drop n (sort_key f xs))" using assms(2) by (simp only: append_take_drop_id set_sort)
  then have "b \<in> set (drop n (sort_key f xs))" using assms(3) unfolding set_append by blast
  moreover have "sorted_wrt (\<lambda>a b. f a \<le> f b) (take n (sort_key f xs) @ drop n (sort_key f xs))"
    unfolding append_take_drop_id using sorted_sort_key [of f xs] by (simp add: sorted_map)
  ultimately show ?thesis using assms(1) unfolding sorted_wrt_append by blast
qed

text \<open>The events a sweep removes: the oldest of the tenant before the cutoff, at most the limit.\<close>

definition swept_events :: "(string \<Rightarrow> bool) \<Rightarrow> string \<Rightarrow> int \<Rightarrow> int \<Rightarrow> database \<Rightarrow> audit_row list" where
  "swept_events skip tenant cutoff limit d = take (nat limit) (sort_key (\<lambda>a. (auCreated a, auID a))
     (filter (\<lambda>a. auTenant a = tenant \<and> auCreated a < cutoff \<and> \<not> skip (auID a)) (dbAudits d)))"

lemma swept_facts:
  assumes "audits_ok d"
  shows "set (swept_events skip tenant cutoff limit d) \<subseteq> {a \<in> set (dbAudits d). auTenant a = tenant \<and> auCreated a < cutoff}"
    and "distinct (swept_events skip tenant cutoff limit d)" "length (swept_events skip tenant cutoff limit d) \<le> nat limit"
  using assms by (auto simp: swept_events_def audits_ok_def distinct_map dest: in_set_takeD)

lemma swept_oldest:
  assumes "a \<in> set (swept_events skip tenant cutoff limit d)" "b \<in> set (dbAudits d)" "b \<notin> set (swept_events skip tenant cutoff limit d)"
    and "auTenant b = tenant" "\<not> skip (auID b)"
  shows "auCreated a \<le> auCreated b"
proof (cases "auCreated b < cutoff")
  case True
  with assms have "(auCreated a, auID a) \<le> (auCreated b, auID b)"
    unfolding swept_events_def by (intro take_sort_key_least [where f = "\<lambda>a. (auCreated a, auID a)"]) auto
  then show ?thesis by auto
next
  case False
  with assms(1) show ?thesis by (auto simp: swept_events_def dest!: in_set_takeD)
qed

lemma delete_swept:
  assumes ok: "audits_ok d" and del: "delete_events tenant (old_events skip tenant cutoff limit d) d = (n, d')"
  shows "n = int (length (swept_events skip tenant cutoff limit d))"
    and "dbAudits d' = filter (\<lambda>a. a \<notin> set (swept_events skip tenant cutoff limit d)) (dbAudits d)" and "dbOps d' = dbOps d"
proof -
  let ?gone = "swept_events skip tenant cutoff limit d"
  have aud: "distinct (dbAudits d)" "inj_on (\<lambda>a. (auTenant a, auID a)) (set (dbAudits d))"
    using ok by (simp_all add: audits_ok_def distinct_map)
  have o: "old_events skip tenant cutoff limit d = map auID ?gone" by (simp add: old_events_def swept_events_def)
  note g = swept_facts [OF ok, of skip tenant cutoff limit]
  have ids: "auTenant a = tenant \<and> auID a \<in> set (map auID ?gone) \<longleftrightarrow> a \<in> set ?gone" if "a \<in> set (dbAudits d)" for a
  proof -
    have "a \<in> set ?gone" if b: "auTenant a = tenant" "b \<in> set ?gone" "auID b = auID a" for b
    proof -
      have "b \<in> set (dbAudits d)" "auTenant b = auTenant a" using b g(1) by auto
      then have "b = a" using inj_onD [OF aud(2), of b a] b(3) \<open>a \<in> set (dbAudits d)\<close> by simp
      with b(2) show ?thesis by simp
    qed
    then show ?thesis using g(1) by auto
  qed
  have "set ?gone \<subseteq> set (dbAudits d)" using g(1) by auto
  then show "n = int (length ?gone)" "dbAudits d' = filter (\<lambda>a. a \<notin> set ?gone) (dbAudits d)" "dbOps d' = dbOps d"
    using ids del length_filter_mem [OF aud(1) g(2)]
    unfolding o by (auto simp: delete_events_def affected_def Let_def cong: filter_cong)
qed

text \<open>The rows after the commit: the swept operation is closed, and those of other tenants stay.\<close>

definition swept_row :: "int \<Rightarrow> int \<Rightarrow> int \<Rightarrow> op_row \<Rightarrow> op_row" where
  "swept_row now n1 n2 r = r\<lparr>opStatus := Succeeded, opFinished := Some now, opOwner := None, opUntil := None,
     opDeletedEvents := n1, opDeletedOps := n2\<rparr>"

lemma expire_results_rows:
  assumes "expire_results tenant ids d = (n, d')"
  shows "dbOps d' = update_where (\<lambda>x. opTenant x = tenant \<and> opID x \<in> set ids)
      (\<lambda>r. r\<lparr>opStatus := Expired, opDeletedEvents := 0, opDeletedOps := 0\<rparr>) (dbOps d)"
    and "dbAudits d' = dbAudits d"
  using assms by (auto simp: expire_results_def Let_def)

lemma commit_rows:
  assumes x: "expire_results (scopeTenant s) ids d1 = (n2, d2)" and a: "affected (held_inline now s l) (dbOps d2) = 1"
    and d': "dbOps d' = update_where (held_inline now s l) (swept_row now n1 n2) (dbOps d2)" and r: "held_inline now1 s l r"
  shows "\<exists>r' \<in> set (dbOps d'). op_pk r' = op_pk r \<and> opStatus r' = Succeeded \<and> opOwner r' = None \<and> opDeletedEvents r' = n1 \<and> opDeletedOps r' = n2"
    and "y \<in> set (dbOps d1) \<Longrightarrow> opTenant y \<noteq> scopeTenant s \<Longrightarrow> y \<in> set (dbOps d')"
proof -
  from affected_one [OF a] obtain r2 where r2: "r2 \<in> set (dbOps d2)" "held_inline now s l r2" by blast
  have "swept_row now n1 n2 r2 \<in> set (dbOps d')" using r2 by (auto simp: d' intro!: image_eqI [of _ _ r2])
  moreover have "op_pk (swept_row now n1 n2 r2) = op_pk r" using r2(2) r by (simp add: op_pk_def held_inline_def swept_row_def)
  ultimately show "\<exists>r' \<in> set (dbOps d'). op_pk r' = op_pk r \<and> opStatus r' = Succeeded \<and> opOwner r' = None \<and> opDeletedEvents r' = n1 \<and> opDeletedOps r' = n2"
    by (intro bexI [of _ "swept_row now n1 n2 r2"]) (simp_all add: swept_row_def)
  show "y \<in> set (dbOps d')" if "y \<in> set (dbOps d1)" "opTenant y \<noteq> scopeTenant s"
  proof -
    have "y \<in> set (dbOps d2)" using that by (auto simp: expire_results_rows(1) [OF x] intro!: image_eqI [of _ _ y])
    then show ?thesis using that(2) by (auto simp: d' held_inline_def intro!: image_eqI [of _ _ y])
  qed
qed

text \<open>
  C27. A sweep that commits did exactly what its manifest allowed: it removed audit events of its own
  tenant older than the accepted cutoff, oldest first, at most the accepted batch, and every other
  event survived; the number it reports is the number removed and is what the ledger now records for
  the operation, which is finished and released; operations of other tenants are untouched.
\<close>

theorem sweep_effect:
  assumes "ledger_ok d" and "audits_ok d" and "CommitSweep event now1 now2 now3 skipA skipO s l d = (Inr op, d')"
  shows "\<exists>r gone. r \<in> set (dbOps d) \<and> opTenant r = scopeTenant s \<and> opID r = slOp l \<and> holds now1 (slOwner l) (slFence l) r
    \<and> map_of (dbPolicies d) (scopeTenant s) = Some (opPolicy r)
    \<and> butlast (dbAudits d') = filter (\<lambda>a. a \<notin> set gone) (dbAudits d)
    \<and> set gone \<subseteq> set (dbAudits d) \<and> (\<forall>a \<in> set gone. auTenant a = scopeTenant s \<and> auCreated a < opCutoff r)
    \<and> (\<forall>a \<in> set gone. \<forall>b \<in> set (dbAudits d). b \<notin> set gone \<and> auTenant b = scopeTenant s \<and> \<not> skipA (auID b) \<longrightarrow> auCreated a \<le> auCreated b)
    \<and> soDeletedEvents op = int (length gone) \<and> length gone \<le> nat (opLimit r) \<and> distinct gone
    \<and> (\<exists>r' \<in> set (dbOps d'). op_pk r' = op_pk r \<and> opStatus r' = Succeeded \<and> opOwner r' = None
         \<and> opDeletedEvents r' = soDeletedEvents op \<and> opDeletedOps r' = soDeletedOps op)
    \<and> (\<forall>x \<in> set (dbOps d). opTenant x \<noteq> scopeTenant s \<longrightarrow> x \<in> set (dbOps d'))"
proof -
  obtain r n1 d1 n2 d2 d3 where "validLease l"
      and r: "find (\<lambda>r. held_inline now1 s l r \<and> opStatus r = Running) (dbOps d) = Some r"
      and pol: "map_of (dbPolicies d) (scopeTenant s) = Some (opPolicy r)"
      and e: "delete_events (scopeTenant s) (old_events skipA (scopeTenant s) (opCutoff r) (opLimit r) d) d = (n1, d1)"
      and x: "expire_results (scopeTenant s) (old_results skipO (scopeTenant s) (opID r) now2 (opLimit r) d1) d1 = (n2, d2)"
      and a: "affected (held_inline now3 s l) (dbOps d2) = 1"
      and d3: "d3 = d2\<lparr>dbOps := update_where (held_inline now3 s l) (swept_row now3 n1 n2) (dbOps d2)\<rparr>"
      and f: "insert_audit \<lparr>auTenant = scopeTenant s, auID = event, auActor = scopeActor s, auAction = ''retention.sweep'',
                auResource = opID r, auOp = Some (opID r), auCreated = now3\<rparr> d3 = Inr d'"
      and op: "op = (scanOperation r)\<lparr>soDeletedEvents := n1, soDeletedOps := n2, soStatus := Succeeded\<rparr>"
    unfolding swept_row_def [abs_def] by (rule CommitSweep_Inr [OF assms(3)])
  let ?gone = "swept_events skipA (scopeTenant s) (opCutoff r) (opLimit r) d"
  have rin: "r \<in> set (dbOps d)" and rh: "held_inline now1 s l r" using r by (auto simp: find_Some_iff)
  note g = swept_facts [OF assms(2), of skipA "scopeTenant s" "opCutoff r" "opLimit r"] and del = delete_swept [OF assms(2) e]
  have d'o: "dbOps d' = update_where (held_inline now3 s l) (swept_row now3 n1 n2) (dbOps d2)" using insert_audit_same [OF f] by (simp add: d3)
  have "butlast (dbAudits d') = filter (\<lambda>a. a \<notin> set ?gone) (dbAudits d)"
    using f del(2) expire_results_rows(2) [OF x] by (auto simp: insert_audit_def d3 split: if_splits)
  moreover have "soDeletedEvents op = int (length ?gone)" by (simp add: op del(1))
  moreover have "soDeletedEvents op = n1" "soDeletedOps op = n2" by (simp_all add: op)
  ultimately show ?thesis
    using rin rh pol g swept_oldest [of _ skipA "scopeTenant s" "opCutoff r" "opLimit r" d] commit_rows [OF x a d'o rh] del(3)
    by (intro exI [of _ r] exI [of _ ?gone]) (auto simp: held_inline_def)
qed

subsection \<open>Replays\<close>

lemma find_update_where:
  "(\<And>r. q (f r) = q r) \<Longrightarrow> find q (update_where p f rows) = map_option (\<lambda>r. if p r then f r else r) (find q rows)"
  by (induction rows) (auto simp: update_where_def)

lemma ReserveSweep_Inr:
  assumes "ReserveSweep newid now1 now2 s key hash limit d = (Inr op, d')"
  obtains r where "Scope_Valid s" "store_Identifier key" "list_all hex_char hash" "length hash = 64" "1 \<le> limit" "limit \<le> 1000"
    "insert_sweep newid now1 s key hash limit d = Inr d'" "find (by_key s key) (dbOps d') = Some r"
    "opHash r = hash" "opLimit r = limit" "op = scanOperation r"
proof -
  from assms have h: "Scope_Valid s" "store_Identifier key" "list_all hex_char hash" "length hash = 64" "1 \<le> limit" "limit \<le> 1000"
    and t: "(case insert_sweep newid now1 s key hash limit d of Inl err \<Rightarrow> Inl err | Inr d \<Rightarrow>
        (case find (by_key s key) (dbOps d) of
           None \<Rightarrow> Inl StoreErrNotFound
         | Some r \<Rightarrow>
             if opHash r \<noteq> hash \<or> opLimit r \<noteq> limit then Inl StoreErrConflict
             else if opExpires r \<le> now2 \<or> opStatus r = Expired then Inl StoreErrExpired
             else Inr (scanOperation r, d))) = Inr (op, d')"
    by (auto simp: ReserveSweep_def checkScope_def transaction_cases split: if_splits)
  from t obtain r where "insert_sweep newid now1 s key hash limit d = Inr d'" "find (by_key s key) (dbOps d') = Some r"
    "opHash r = hash" "opLimit r = limit" "op = scanOperation r"
    by (auto split: sum.splits option.splits if_splits)
  with h that show thesis by blast
qed

lemma commit_row_of_key:
  assumes ok: "ledger_ok d" and r0: "find (by_key s key) (dbOps d) = Some r0" "opID r0 = slOp l"
    and co: "CommitSweep event now1 now2 now3 skipA skipO s l d = (Inr op, d')"
  shows "\<exists>r. find (by_key s key) (dbOps d') = Some r \<and> scanOperation r = op \<and> opStatus r = Succeeded
    \<and> opHash r = opHash r0 \<and> opLimit r = opLimit r0"
proof -
  obtain r n1 d3 n2 d4 d5 where "validLease l"
    and r: "find (\<lambda>r. held_inline now1 s l r \<and> opStatus r = Running) (dbOps d) = Some r"
      "map_of (dbPolicies d) (scopeTenant s) = Some (opPolicy r)"
    and e: "delete_events (scopeTenant s) (old_events skipA (scopeTenant s) (opCutoff r) (opLimit r) d) d = (n1, d3)"
    and x: "expire_results (scopeTenant s) (old_results skipO (scopeTenant s) (opID r) now2 (opLimit r) d3) d3 = (n2, d4)"
    and a: "affected (held_inline now3 s l) (dbOps d4) = 1"
    and d5: "d5 = d4\<lparr>dbOps := update_where (held_inline now3 s l) (swept_row now3 n1 n2) (dbOps d4)\<rparr>"
    and f: "insert_audit \<lparr>auTenant = scopeTenant s, auID = event, auActor = scopeActor s, auAction = ''retention.sweep'',
              auResource = opID r, auOp = Some (opID r), auCreated = now3\<rparr> d5 = Inr d'"
    and op: "op = (scanOperation r)\<lparr>soDeletedEvents := n1, soDeletedOps := n2, soStatus := Succeeded\<rparr>"
    unfolding swept_row_def [abs_def] by (rule CommitSweep_Inr [OF co])
  have rin: "r \<in> set (dbOps d)" and rh: "held_inline now1 s l r" using r(1) by (auto simp: find_Some_iff)
  have r0in: "r0 \<in> set (dbOps d)" and r0k: "by_key s key r0" using r0(1) by (auto simp: find_Some_iff)
  have rr: "r = r0"
    by (rule pk_unique [OF ok rin r0in]) (use rh r0(2) r0k in \<open>simp add: held_inline_def op_pk_def by_key_def\<close>)
  have d3o: "dbOps d3 = dbOps d" using e by (auto simp: delete_events_def Let_def)
  have f4: "find (by_key s key) (dbOps d4) = Some r"
    using r0(1) unfolding expire_results_rows(1) [OF x] d3o rr [symmetric]
    by (subst find_update_where) (auto simp: by_key_def old_results_def dest!: in_set_takeD)
  have ok4: "ledger_ok d4"
    by (rule expire_results_ok [OF _ x]) (use ok e in \<open>auto simp: delete_events_def Let_def intro: quiet_same\<close>)
  from affected_one [OF a] obtain y where y: "y \<in> set (dbOps d4)" "held_inline now3 s l y" by blast
  have "r \<in> set (dbOps d4)" using f4 by (auto simp: find_Some_iff)
  then have "y = r" by (rule pk_unique [OF ok4 y(1)]) (use y(2) rh in \<open>simp add: held_inline_def op_pk_def\<close>)
  with y(2) f4 have "find (by_key s key) (dbOps d') = Some (swept_row now3 n1 n2 r)"
    unfolding conjunct1 [OF insert_audit_same [OF f]] d5
    by (simp, subst find_update_where) (simp_all add: by_key_def swept_row_def)
  then show ?thesis by (simp add: op rr scanOperation_def swept_row_def)
qed

text \<open>The row of the key after the sweep, however it got there.\<close>

lemma Sweep_row:
  assumes ok: "ledger_ok d" and sw: "Sweep sha newid owner event clock skipA skipO batch lease s key d = (Inr op, d')"
  shows "\<exists>r. find (by_key s key) (dbOps d') = Some r \<and> scanOperation r = op \<and> opStatus r = Succeeded
    \<and> opHash r = sweep_hash sha batch \<and> opLimit r = batch
    \<and> Scope_Valid s \<and> store_Identifier key \<and> list_all hex_char (opHash r) \<and> length (opHash r) = 64 \<and> 1 \<le> batch \<and> batch \<le> 1000"
proof -
  define hash where "hash = sweep_hash sha batch"
  from sw obtain op1 d1 where res: "ReserveSweep newid (clock 0) (clock 1) s key hash batch d = (Inr op1, d1)"
    and rest: "(if soStatus op1 = Succeeded then (Inr op1, d1)
          else (case Claim (clock 2) s (soID op1) owner lease d1 of
                  (Inl err, d) \<Rightarrow> (Inl err, d)
                | (Inr l, d) \<Rightarrow> CommitSweep event (clock 3) (clock 4) (clock 5) skipA skipO s l d)) = (Inr op, d')"
    by (cases "ReserveSweep newid (clock 0) (clock 1) s key hash batch d") (auto simp: Sweep_def hash_def split: sum.splits)
  obtain r1 where g: "Scope_Valid s" "store_Identifier key" "list_all hex_char hash" "length hash = 64" "1 \<le> batch" "batch \<le> 1000"
      "insert_sweep newid (clock 0) s key hash batch d = Inr d1"
    and r1: "find (by_key s key) (dbOps d1) = Some r1" "opHash r1 = hash" "opLimit r1 = batch" "op1 = scanOperation r1"
    by (rule ReserveSweep_Inr [OF res])
  have ok1: "ledger_ok d1" using ReserveSweep_ok [OF ok] res by (metis snd_conv)
  show ?thesis
  proof (cases "soStatus op1 = Succeeded")
    case True
    with rest r1 g show ?thesis by (auto simp: hash_def [symmetric] scanOperation_def)
  next
    case False
    from rest False obtain l d2 where cl: "Claim (clock 2) s (soID op1) owner lease d1 = (Inr l, d2)"
      and co: "CommitSweep event (clock 3) (clock 4) (clock 5) skipA skipO s l d2 = (Inr op, d')"
      by (auto split: prod.splits sum.splits)
    obtain rc where "find (claimable (clock 2) s (soID op1)) (dbOps d1) = Some rc"
      and l: "l = \<lparr>slOp = soID op1, slOwner = owner, slFence = opFence rc + 1\<rparr>"
      and d2: "d2 = d1\<lparr>dbOps := update_where (claimable (clock 2) s (soID op1))
        (\<lambda>r. r\<lparr>opStatus := Running, opFence := opFence r + 1, opOwner := Some owner, opUntil := Some (clock 2 + lease div 1000)\<rparr>) (dbOps d1)\<rparr>"
      by (rule Claim_Inr [OF cl])
    have ok2: "ledger_ok d2" using Claim_ok [OF ok1] cl by (metis snd_conv)
    obtain r2 where r2: "find (by_key s key) (dbOps d2) = Some r2" "opID r2 = opID r1" "opHash r2 = hash" "opLimit r2 = batch"
      using r1(1-3) by (auto simp: d2 find_update_where by_key_def)
    have "opID r2 = slOp l" using r2(2) r1(4) by (simp add: l scanOperation_def)
    from commit_row_of_key [OF ok2 r2(1) this co] r2(3,4) g show ?thesis by (auto simp: hash_def [symmetric])
  qed
qed

text \<open>
  C28. Retrying a sweep is safe: once it has returned a result, the same key and batch return that
  very result again, by any replica, with any new identifiers and at any time before the operation
  expires, and nothing in the database changes.
\<close>

theorem sweep_replay:
  assumes "ledger_ok d" and "Sweep sha newid owner event clock skipA skipO batch lease s key d = (Inr op, d')"
  shows "\<exists>r \<in> set (dbOps d'). opID r = soID op \<and> (clock' 1 < opExpires r \<longrightarrow>
    Sweep sha newid' owner' event' clock' skipA' skipO' batch lease s key d' = (Inr op, d'))"
proof -
  from Sweep_row [OF assms] obtain r where f: "find (by_key s key) (dbOps d') = Some r"
    and r: "scanOperation r = op" "opStatus r = Succeeded" "opHash r = sweep_hash sha batch" "opLimit r = batch"
    and g: "Scope_Valid s" "store_Identifier key" "list_all hex_char (opHash r)" "length (opHash r) = 64" "1 \<le> batch" "batch \<le> 1000"
    by blast
  have rin: "r \<in> set (dbOps d')" "by_key s key r" using f by (auto simp: find_Some_iff)
  then have "list_ex (\<lambda>o'. opTenant o' = scopeTenant s \<and> opActor o' = scopeActor s \<and> opKind o' = ''retention.sweep''
                 \<and> opKey o' = key) (dbOps d')" by (auto simp: list_ex_iff by_key_def)
  then have "insert_sweep newid' (clock' 0) s key (opHash r) batch d' = Inr d'"
    by (simp add: insert_sweep_def split: option.splits)
  with f r g have "Sweep sha newid' owner' event' clock' skipA' skipO' batch lease s key d' = (Inr op, d')" if "clock' 1 < opExpires r"
    using that by (auto simp: Sweep_def ReserveSweep_def checkScope_def transaction_def scanOperation_def)
  moreover have "opID r = soID op" using r(1) by (auto simp: scanOperation_def)
  ultimately show ?thesis using rin(1) by blast
qed

subsection \<open>Concrete runs\<close>

definition acme :: store_scope where
  "acme = \<lparr>scopeTenant = ''acme'', scopeActor = ''ana''\<rparr>"

definition empty_db :: database where
  "empty_db = \<lparr>dbOps = [], dbAttempts = [], dbAudits = [], dbPolicies = [], dbRevisions = []\<rparr>"

definition short_policy :: policy where
  "short_policy = \<lparr>polRevision = 0, polAuditDays = 1, polOperationHours = 24\<rparr>"

text \<open>A policy, then a sweep accepted two days later, claimed twice.\<close>

definition policy_db :: database where
  "policy_db = snd (SetPolicy ''e1'' 1000 acme 0 short_policy empty_db)"

definition flat_sha :: "string \<Rightarrow> string" where
  "flat_sha s = replicate 64 (CHR ''a'')"

definition reserved_db :: database where
  "reserved_db = snd (ReserveSweep ''o1'' (2 * day) (2 * day) acme ''k1'' (flat_sha []) 10 policy_db)"

definition first_claim :: "(store_error + sweep_lease) \<times> database" where
  "first_claim = Claim (2 * day + 1) acme ''o1'' ''w1'' second reserved_db"

definition second_claim :: "(store_error + sweep_lease) \<times> database" where
  "second_claim = Claim (2 * day + 2000001) acme ''o1'' ''w2'' second (snd first_claim)"

text \<open>A queued operation that has just been admitted.\<close>

definition queued_db :: database where
  "queued_db = policy_db\<lparr>dbOps := [(sweep_row ''q1'' 5 acme ''k2'' [] 10
      \<lparr>rvTenant = ''acme'', rvRevision = 1, rvAuditDays = 1, rvOperationHours = 24, rvBy = ''ana''\<rparr>)
      \<lparr>opMode := ''queued'', opManifest := Some ''m'', opMaxAttempts := 3\<rparr>]\<rparr>"

definition dispatched :: "store_error + (int \<times> int \<times> int) \<times> database" where
  "dispatched = claimOperationLease 10 ''acme'' ''q1'' ''w1'' 1000 queued_db"

theorem ledger_invariant_witness:
  "\<exists>r \<in> set (dbOps (snd (projr dispatched))). opStatus r = Running \<and> length (attempts_of r (dbAttempts (snd (projr dispatched)))) = 1
     \<and> opUntil r \<noteq> None"
proof -
  have ok: "ledger_ok queued_db" by code_simp
  have "\<forall>r \<in> set (dbOps queued_db). named ''acme'' ''q1'' r \<longrightarrow> opMode r \<noteq> ''inline''" by code_simp
  from lease_claim [OF this, of 10 "''w1''" 1000]
  have "ledger_step queued_db (snd (transaction (claimOperationLease 10 ''acme'' ''q1'' ''w1'' 1000) queued_db))" .
  moreover have "snd (transaction (claimOperationLease 10 ''acme'' ''q1'' ''w1'' 1000) queued_db) = snd (projr dispatched)" by code_simp
  ultimately have st: "ledger_step\<^sup>*\<^sup>* queued_db (snd (projr dispatched))" by simp
  define r where "r = hd (dbOps (snd (projr dispatched)))"
  have r: "r \<in> set (dbOps (snd (projr dispatched)))" "opStatus r = Running"
    "length (attempts_of r (dbAttempts (snd (projr dispatched)))) = 1" unfolding r_def by code_simp+
  from ledger_invariant [OF ok st r(1)] r show ?thesis by blast
qed

theorem stale_lease_powerless_witness:
  "second_claim = (Inr \<lparr>slOp = ''o1'', slOwner = ''w2'', slFence = 2\<rparr>, snd second_claim)
   \<and> Renew (2 * day + 5) acme \<lparr>slOp = ''o1'', slOwner = ''w1'', slFence = 1\<rparr> second (snd second_claim)
       = (Inl StoreErrConflict, snd second_claim)"
proof -
  have c: "fst second_claim = Inr \<lparr>slOp = ''o1'', slOwner = ''w2'', slFence = 2\<rparr>" by code_simp
  define r where "r = hd (dbOps (snd second_claim))"
  have h: "ledger_ok (snd second_claim)" "r \<in> set (dbOps (snd second_claim))" "op_pk r = (''acme'', ''o1'')" "1 < opFence r"
    "Scope_Valid acme" "scopeTenant acme = ''acme''" "validLease \<lparr>slOp = ''o1'', slOwner = ''w1'', slFence = 1\<rparr>" "validTTL second"
    unfolding r_def by code_simp+
  from stale_lease_powerless [OF h(1) rtranclp.rtrancl_refl h(2-8)] c show ?thesis by (metis prod.collapse)
qed

theorem live_lease_exclusive_witness:
  "Claim (2 * day + 7) acme ''o1'' ''w2'' second (snd first_claim) = (Inl StoreErrConflict, snd first_claim)"
proof -
  define r where "r = hd (dbOps (snd first_claim))"
  have h: "ledger_ok (snd first_claim)" "r \<in> set (dbOps (snd first_claim))" "holds (2 * day + 7) ''w1'' 1 r"
    "Scope_Valid acme" "scopeTenant acme = opTenant r" "store_Identifier (opID r)" "store_Identifier ''w2''" "validTTL second"
    "opID r = ''o1''"
    unfolding r_def by code_simp+
  from live_lease_exclusive [OF h(1-8)] h(9) show ?thesis by simp
qed

theorem policy_compare_and_swap_witness:
  "\<exists>q. Policy_read acme policy_db = (Inr q, policy_db) \<and> polRevision q = 1"
proof -
  have "fst (SetPolicy ''e1'' 1000 acme 0 short_policy empty_db) = Inr \<lparr>polRevision = 1, polAuditDays = 1, polOperationHours = 24\<rparr>"
    "distinct (map fst (dbPolicies empty_db))" by code_simp+
  then have "SetPolicy ''e1'' 1000 acme 0 short_policy empty_db = (Inr \<lparr>polRevision = 1, polAuditDays = 1, polOperationHours = 24\<rparr>, policy_db)"
    by (metis policy_db_def prod.collapse)
  from policy_compare_and_swap [OF this] \<open>distinct (map fst (dbPolicies empty_db))\<close> show ?thesis by auto
qed

definition swept :: "(store_error + sweep_op) \<times> database" where
  "swept = Sweep flat_sha ''o1'' ''w1'' ''e2'' (\<lambda>i. 2 * day + int i) (\<lambda>_. False) (\<lambda>_. False) 10 second acme ''k1'' policy_db"

theorem sweep_effect_witness:
  "\<exists>op d'. CommitSweep ''e2'' (2 * day + 2) (2 * day + 3) (2 * day + 4) (\<lambda>_. False) (\<lambda>_. False) acme
       \<lparr>slOp = ''o1'', slOwner = ''w1'', slFence = 1\<rparr> (snd first_claim) = (Inr op, d') \<and> soDeletedEvents op = 1
     \<and> (\<exists>gone. length gone = 1 \<and> butlast (dbAudits d') = filter (\<lambda>a. a \<notin> set gone) (dbAudits (snd first_claim)))"
proof -
  let ?c = "CommitSweep ''e2'' (2 * day + 2) (2 * day + 3) (2 * day + 4) (\<lambda>_. False) (\<lambda>_. False) acme
       \<lparr>slOp = ''o1'', slOwner = ''w1'', slFence = 1\<rparr> (snd first_claim)"
  have h: "ledger_ok (snd first_claim)" "audits_ok (snd first_claim)" by code_simp+
  have "map_sum id soDeletedEvents (fst ?c) = Inr 1" by code_simp
  then obtain op where op: "fst ?c = Inr op" "soDeletedEvents op = 1" by (cases "fst ?c") auto
  then have c: "?c = (Inr op, snd ?c)" by (metis prod.collapse)
  from sweep_effect [OF h c] op(2) obtain gone where "length gone = 1"
    "butlast (dbAudits (snd ?c)) = filter (\<lambda>a. a \<notin> set gone) (dbAudits (snd first_claim))" by force
  with c op(2) show ?thesis by blast
qed

theorem sweep_replay_witness:
  "\<exists>op. fst swept = Inr op \<and> soStatus op = Succeeded
     \<and> Sweep flat_sha ''o9'' ''w9'' ''e9'' (\<lambda>i. 2 * day + 100) (\<lambda>_. True) (\<lambda>_. True) 10 second acme ''k1'' (snd swept) = (Inr op, snd swept)"
proof -
  have ok: "ledger_ok policy_db" by code_simp
  have "map_sum id soStatus (fst swept) = Inr Succeeded" by code_simp
  then obtain op where op: "fst swept = Inr op" "soStatus op = Succeeded" by (cases "fst swept") auto
  then have s: "Sweep flat_sha ''o1'' ''w1'' ''e2'' (\<lambda>i. 2 * day + int i) (\<lambda>_. False) (\<lambda>_. False) 10 second acme ''k1'' policy_db = (Inr op, snd swept)"
    by (metis swept_def prod.collapse)
  have "\<forall>r \<in> set (dbOps (snd swept)). 2 * day + 100 < opExpires r" by code_simp
  with sweep_replay [OF ok s, of "\<lambda>i. 2 * day + 100" "''o9''" "''w9''" "''e9''" "\<lambda>_. True" "\<lambda>_. True"] op show ?thesis by blast
qed

end
