(* ===== verification/Jobs.thy ===== *)
theory Jobs
  imports Access Schedule Ledger
begin

text \<open>
  The values of the job service (\<^verbatim>\<open>internal/jobs\<close>): limits, submissions, the accepted job with the
  digest that seals its manifest, request tasks, and the checks that tie every effect to authority
  signed for exactly that job (\<^verbatim>\<open>jobs.go\<close>, \<^verbatim>\<open>pipeline_target.go\<close>, \<^verbatim>\<open>reporting_target.go\<close>,
  \<^verbatim>\<open>reporting_runtime.go\<close>, \<^verbatim>\<open>requests.go\<close>, \<^verbatim>\<open>nested_requests.go\<close>, \<^verbatim>\<open>pipeline_invocation.go\<close>,
  \<^verbatim>\<open>auth/execution.go\<close>). Instants are nanoseconds. A slice whose nil and empty values encode
  differently is an optional list; a pointer is an option.
\<close>

subsection \<open>Limits\<close>

abbreviation millisecond :: int where
  "millisecond \<equiv> 1000000"

record limits =
  Workers :: int
  GlobalConcurrency :: int
  TenantConcurrency :: int
  MaxPending :: int
  MaxPendingPerTenant :: int
  MaxAttempts :: int
  Batch :: int
  LeaseTime :: int
  Heartbeat :: int
  Poll :: int
  AttemptTimeout :: int
  Backoff :: int

definition Defaults :: limits where
  "Defaults = \<lparr>Workers = 4, GlobalConcurrency = 16, TenantConcurrency = 2, MaxPending = 10000,
     MaxPendingPerTenant = 1000, MaxAttempts = 3, Batch = 100, LeaseTime = 15 * second, Heartbeat = 5 * second,
     Poll = 500 * millisecond, AttemptTimeout = 10 * second, Backoff = second\<rparr>"

definition Limits_Validate :: "limits \<Rightarrow> jobs_error + unit" where
  "Limits_Validate l =
     (if Workers l < 1 \<or> Workers l > 32 \<or> GlobalConcurrency l < Workers l \<or> GlobalConcurrency l > 128
         \<or> TenantConcurrency l < 1 \<or> TenantConcurrency l > GlobalConcurrency l \<or> MaxPending l < 1 \<or> MaxPending l > 100000
         \<or> MaxPendingPerTenant l < 1 \<or> MaxPendingPerTenant l > MaxPending l \<or> MaxAttempts l < 1 \<or> MaxAttempts l > 8
         \<or> Batch l < 1 \<or> Batch l > 1000 \<or> LeaseTime l < second \<or> LeaseTime l > 60 * second
         \<or> Heartbeat l < 10 * millisecond \<or> Heartbeat l \<ge> LeaseTime l sdiv 2
         \<or> Poll l < 10 * millisecond \<or> Poll l > 5 * second
         \<or> AttemptTimeout l < 100 * millisecond \<or> AttemptTimeout l > 60 * second
         \<or> Backoff l < 10 * millisecond \<or> Backoff l > 30 * second
      then Inl JInvalid else Inr ())"

definition QueueFingerprint :: "golib \<Rightarrow> limits \<Rightarrow> string" where
  "QueueFingerprint g l = sha256_hex g (json_text g (JArr (map JInt
     [GlobalConcurrency l, TenantConcurrency l, MaxPending l, MaxPendingPerTenant l])))"

definition SupportsTenantConcurrency :: "limits \<Rightarrow> int \<Rightarrow> bool" where
  "SupportsTenantConcurrency l requested \<longleftrightarrow> requested > 0 \<and> TenantConcurrency l \<ge> requested
     \<and> GlobalConcurrency l \<ge> requested \<and> MaxPendingPerTenant l \<ge> requested \<and> MaxPending l \<ge> requested"

subsection \<open>Hexadecimal digests\<close>

definition hex_val :: "char \<Rightarrow> nat option" where
  "hex_val c =
     (if 48 \<le> byte c \<and> byte c \<le> 57 then Some (byte c - 48)
      else if 97 \<le> byte c \<and> byte c \<le> 102 then Some (byte c - 87)
      else if 65 \<le> byte c \<and> byte c \<le> 70 then Some (byte c - 55)
      else None)"

text \<open>\<^verbatim>\<open>hex.DecodeString\<close>: an odd length or a foreign byte is an error.\<close>

fun DecodeString :: "string \<Rightarrow> nat list option" where
  "DecodeString [] = Some []"
| "DecodeString [_] = None"
| "DecodeString (a # b # s) =
     (case (hex_val a, hex_val b, DecodeString s) of
        (Some x, Some y, Some r) \<Rightarrow> Some ((16 * x + y) # r)
      | _ \<Rightarrow> None)"

fun EncodeToString :: "nat list \<Rightarrow> string" where
  "EncodeToString [] = []"
| "EncodeToString (n # ns) = hex_digit (int (n div 16)) # hex_digit (int (n mod 16)) # EncodeToString ns"

definition canonical_digest :: "string \<Rightarrow> bool" where
  "canonical_digest s = (case DecodeString s of None \<Rightarrow> False | Some b \<Rightarrow> length b = 32 \<and> EncodeToString b = s)"

definition reportingHash :: "string \<Rightarrow> bool" where
  "reportingHash s \<longleftrightarrow> length s = 64 \<and> list_all lower_hex s"

subsection \<open>Pipeline targets\<close>

record pipeline_target =
  ptID :: string
  ptVersion :: int
  ptDigest :: string

definition PipelineTarget_Valid :: "pipeline_target \<Rightarrow> bool" where
  "PipelineTarget_Valid p \<longleftrightarrow> Identifier (ptID p) \<and> length (ptID p) \<le> 48 \<and> ptVersion p > 0
     \<and> ptVersion p < 2 ^ 62 \<and> canonical_digest (ptDigest p)"

definition pipeline_wire :: "pipeline_target \<Rightarrow> json" where
  "pipeline_wire p = JObj [(''id'', JStr (ptID p)), (''version'', JInt (ptVersion p)), (''digest'', JStr (ptDigest p))]"

subsection \<open>Reporting targets\<close>

record reporting_period =
  rpMode :: string
  rpUnit :: string
  rpCount :: int
  rpStart :: string
  rpEnd :: string
  rpFromDate :: string
  rpFirstOccurrence :: string
  rpDSTPolicy :: string
  rpMonthPolicy :: string

record reporting_argument =
  raName :: string
  raLiteral :: string
  raPeriod :: "reporting_period option"

record reporting_budget =
  TimeoutMillis :: int
  MaxRows :: int
  MaxBytes :: int
  QueryAttempts :: int
  ModelCalls :: int
  ModelTokens :: int

definition ReportingBudget_Valid :: "reporting_budget \<Rightarrow> bool" where
  "ReportingBudget_Valid b \<longleftrightarrow>
     TimeoutMillis b \<ge> 1000 \<and> TimeoutMillis b \<le> 60000 \<and> MaxRows b \<ge> 1 \<and> MaxRows b \<le> 10000 \<and>
     MaxBytes b \<ge> 1024 \<and> MaxBytes b \<le> 4 * 2 ^ 20 \<and> QueryAttempts b \<ge> 1 \<and> QueryAttempts b \<le> 800 \<and>
     ModelCalls b \<ge> 0 \<and> ModelCalls b \<le> 64 \<and> ModelTokens b \<ge> 0 \<and> ModelTokens b \<le> 16 * 2 ^ 20 \<and>
     (ModelCalls b = 0 \<and> ModelTokens b = 0 \<or> ModelCalls b > 0 \<and> ModelTokens b \<ge> 64)"

record reporting_target =
  rtPartialFailure :: string
  rtRecipients :: "string list"
  rtType :: string
  rtID :: string
  rtRevision :: int
  rtLatestPublished :: bool
  rtWidget :: string
  rtOutputs :: "string list option"
  rtArguments :: "reporting_argument list option"
  rtLocale :: string
  rtTimezone :: string
  rtDynamic :: bool
  rtNarrative :: bool
  rtBudget :: reporting_budget

text \<open>The elements of a slice: the nil slice has none.\<close>

definition elems :: "'a list option \<Rightarrow> 'a list" where
  "elems xs = (case xs of None \<Rightarrow> [] | Some ys \<Rightarrow> ys)"

definition ResourceKind :: "reporting_target \<Rightarrow> string" where
  "ResourceKind t =
     (if rtType t = ''saved_sql'' \<or> rtType t = ''block'' then ''block''
      else if rtType t = ''saved_question'' \<or> rtType t = ''report'' then ''report'' else [])"

definition InputKind :: "reporting_target \<Rightarrow> string" where
  "InputKind t =
     (if ResourceKind t = ''block'' then ''reporting.run''
      else if ResourceKind t = ''report'' then ''report.run'' else [])"

text \<open>The loops that refuse a bad or repeated identifier.\<close>

fun unique_ids :: "string list \<Rightarrow> string list \<Rightarrow> bool" where
  "unique_ids seen [] = True"
| "unique_ids seen (x # xs) = (if \<not> Identifier x \<or> x \<in> set seen then False else unique_ids (x # seen) xs)"

definition argument_ok :: "reporting_argument \<Rightarrow> bool" where
  "argument_ok a \<longleftrightarrow>
     length (raLiteral a) \<le> 4096 \<and> ValidString (raLiteral a) \<and> CHR 0x00 \<notin> set (raLiteral a) \<and>
     (case raPeriod a of None \<Rightarrow> True | Some p \<Rightarrow>
        raLiteral a = [] \<and> rpCount p \<ge> 0 \<and> rpCount p \<le> 3660 \<and> length (rpStart p) \<le> 64 \<and> length (rpEnd p) \<le> 64 \<and>
        length (rpFromDate p) \<le> 64 \<and> member (rpMode p) [''explicit'', ''from_date'', ''previous'', ''rolling'', ''schedule_window''] \<and>
        member (rpDSTPolicy p) [''reject'', ''earlier''] \<and> member (rpMonthPolicy p) [''clamp'', ''reject''])"

fun arguments_ok :: "string list \<Rightarrow> reporting_argument list \<Rightarrow> bool" where
  "arguments_ok seen [] = True"
| "arguments_ok seen (a # as) =
     (if \<not> Identifier (raName a) \<or> raName a \<in> set seen \<or> \<not> argument_ok a then False
      else arguments_ok (raName a # seen) as)"

definition ReportingTarget_Valid :: "reporting_target \<Rightarrow> bool" where
  "ReportingTarget_Valid t =
     (if \<not> member (rtPartialFailure t) [[], ''fail_closed'', ''allow_partial''] \<or> length (rtRecipients t) > 32 then False
      else if \<not> unique_ids [] (rtRecipients t) then False
      else if rtType t = ''saved_question'' \<and> length (elems (rtArguments t)) \<noteq> 0 then False
      else if ResourceKind t = [] \<or> \<not> Identifier (rtID t) \<or> rtRevision t < 0 \<or> rtRevision t > 256 \<or>
        rtLatestPublished t \<and> rtRevision t \<noteq> 0 \<or> \<not> rtLatestPublished t \<and> rtRevision t = 0 \<or>
        \<not> ReportingBudget_Valid (rtBudget t) \<or> length (elems (rtOutputs t)) > 32 \<or> length (elems (rtArguments t)) > 64 \<or>
        \<not> member (rtLocale t) [''en'', ''en-US'', ''es'', ''es-AR'', ''es-ES''] \<or>
        length (rtTimezone t) = 0 \<or> length (rtTimezone t) > 128 \<or> rtTimezone t = ''Local'' \<or> contains (rtTimezone t) ''..'' \<or>
        has_prefix (rtTimezone t) ''/'' \<or> ContainsAny (rtTimezone t) [CHR 0x5C, CHR 0x00, CHR 0x0D, CHR 0x0A] then False
      else if rtType t = ''block'' \<and> rtLatestPublished t \<or>
        ResourceKind t = ''block'' \<and> (rtWidget t \<noteq> [] \<or> rtDynamic t \<or> length (elems (rtOutputs t)) = 0) \<or>
        ResourceKind t = ''report'' \<and> length (elems (rtOutputs t)) \<noteq> 0 \<or>
        rtType t = ''saved_question'' \<and> (\<not> rtDynamic t \<or> \<not> Identifier (rtWidget t)) \<or>
        rtType t \<noteq> ''saved_question'' \<and> rtWidget t \<noteq> [] \<or>
        (rtDynamic t \<or> rtNarrative t) \<and> ModelCalls (rtBudget t) = 0 \<or>
        \<not> rtDynamic t \<and> \<not> rtNarrative t \<and> ModelCalls (rtBudget t) \<noteq> 0 then False
      else if \<not> unique_ids [] (elems (rtOutputs t)) then False
      else arguments_ok [] (elems (rtArguments t)))"

text \<open>The errors of a check: the package's own, those of the access layer and those of the store.\<close>

datatype fault = FJobs jobs_error | FAccess access_error | FStore store_error

definition lift_access :: "access_error + 'a \<Rightarrow> fault + 'a" where
  "lift_access r = (case r of Inl err \<Rightarrow> Inl (FAccess err) | Inr u \<Rightarrow> Inr u)"

definition ReportingTarget_Require :: "go_time \<Rightarrow> reporting_target \<Rightarrow> envelope \<Rightarrow> fault + unit" where
  "ReportingTarget_Require now t e =
     (if \<not> ReportingTarget_Valid t then Inl (FJobs JInvalid)
      else lift_access (Require now e ''reporting.execute''
        [\<lparr>resTenant = envTenant e, resKind = ResourceKind t, resPermission = ''execute'', resID = rtID t\<rparr>]))"

subsection \<open>Wire forms\<close>

definition slice_wire :: "('a \<Rightarrow> json) \<Rightarrow> 'a list option \<Rightarrow> json" where
  "slice_wire f xs = (case xs of None \<Rightarrow> JNull | Some ys \<Rightarrow> JArr (map f ys))"

definition period_wire :: "reporting_period \<Rightarrow> json" where
  "period_wire p = JObj ([(''mode'', JStr (rpMode p))] @ opt_str ''unit'' (rpUnit p) @ opt_int ''count'' (rpCount p)
     @ opt_str ''start'' (rpStart p) @ opt_str ''end'' (rpEnd p) @ opt_str ''from_date'' (rpFromDate p)
     @ opt_str ''first_occurrence'' (rpFirstOccurrence p)
     @ [(''dst_policy'', JStr (rpDSTPolicy p)), (''month_policy'', JStr (rpMonthPolicy p))])"

definition argument_wire :: "reporting_argument \<Rightarrow> json" where
  "argument_wire a = JObj [(''name'', JStr (raName a)),
     (''value'', JObj (opt_str ''literal'' (raLiteral a) @ opt_ptr ''period'' (map_option period_wire (raPeriod a))))]"

definition budget_wire :: "reporting_budget \<Rightarrow> json" where
  "budget_wire b = JObj [(''timeout_ms'', JInt (TimeoutMillis b)), (''max_rows'', JInt (MaxRows b)),
     (''max_bytes'', JInt (MaxBytes b)), (''query_attempts'', JInt (QueryAttempts b)),
     (''model_calls'', JInt (ModelCalls b)), (''model_tokens'', JInt (ModelTokens b))]"

definition target_wire :: "reporting_target \<Rightarrow> json" where
  "target_wire t = JObj (opt_str ''partial_failure'' (rtPartialFailure t) @ opt_arr ''recipients'' (map JStr (rtRecipients t))
     @ [(''type'', JStr (rtType t)), (''id'', JStr (rtID t)), (''revision'', JInt (rtRevision t)),
        (''latest_published'', JBool (rtLatestPublished t))]
     @ opt_str ''widget'' (rtWidget t)
     @ [(''outputs'', slice_wire JStr (rtOutputs t)), (''arguments'', slice_wire argument_wire (rtArguments t)),
        (''locale'', JStr (rtLocale t)), (''timezone'', JStr (rtTimezone t)), (''dynamic'', JBool (rtDynamic t)),
        (''narrative'', JBool (rtNarrative t)), (''budget'', budget_wire (rtBudget t))])"

text \<open>A time outside the years 0 to 9999 has no encoding, which makes \<^verbatim>\<open>json.Marshal\<close> fail.\<close>

definition time_encodable :: "go_time \<Rightarrow> bool" where
  "time_encodable t \<longleftrightarrow> - 62167219200 * second \<le> t \<and> t < 253402300800 * second"

definition time_wire :: "golib \<Rightarrow> go_time \<Rightarrow> json" where
  "time_wire g t = JStr (RFC3339Nano_text g t)"

text \<open>\<^verbatim>\<open>requestDigest\<close> is empty when the value cannot be encoded; the times are those in the value.\<close>

definition requestDigest :: "golib \<Rightarrow> go_time list \<Rightarrow> json \<Rightarrow> string" where
  "requestDigest g ts v = (if \<not> list_all time_encodable ts then [] else sha256_hex g (json_text g v))"

subsection \<open>Request inputs\<close>

record request_input =
  riKind :: string
  riTarget :: string
  riContext :: string
  riInputHash :: string

definition zero_input :: request_input where
  "zero_input = \<lparr>riKind = [], riTarget = [], riContext = [], riInputHash = []\<rparr>"

definition request_kinds :: "string list" where
  "request_kinds = [''report.run'', ''dashboard.run'', ''reporting.run'', ''upload.load'', ''upload.erase'',
     ''profile.build'', ''pipeline.run'']"

definition RequestInput_Valid :: "request_input \<Rightarrow> bool" where
  "RequestInput_Valid r \<longleftrightarrow> Identifier (riTarget r) \<and> (riContext r = [] \<or> Identifier (riContext r)) \<and>
     riKind r \<in> set request_kinds \<and> canonical_digest (riInputHash r) \<and>
     (riKind r \<noteq> ''profile.build'' \<or> riContext r \<noteq> [])"

definition input_wire :: "request_input \<Rightarrow> json" where
  "input_wire r = JObj [(''kind'', JStr (riKind r)), (''target'', JStr (riTarget r)),
     (''context'', JStr (riContext r)), (''input_hash'', JStr (riInputHash r))]"

definition request_action :: "string \<Rightarrow> string \<times> string" where
  "request_action kind =
     (if kind = ''profile.build'' then (''engineering.profile'', ''write'')
      else if kind = ''pipeline.run'' then (''engineering.pipeline.run'', ''write'')
      else if kind = ''upload.erase'' then (''sources.erase'', ''erase'')
      else (''sources.upload'', ''write''))"

definition RequestInput_Require :: "go_time \<Rightarrow> request_input \<Rightarrow> envelope \<Rightarrow> fault + unit" where
  "RequestInput_Require now r e =
     (if \<not> RequestInput_Valid r then Inl (FJobs JInvalid)
      else lift_access
        (if riKind r = ''report.run'' \<or> riKind r = ''dashboard.run'' then
           Require now e ''reporting.execute'' [\<lparr>resTenant = envTenant e, resKind = take (length (riKind r) - 4) (riKind r),
             resPermission = ''execute'', resID = riTarget r\<rparr>]
         else if riKind r = ''reporting.run'' then
           Require now e ''reporting.execute'' [\<lparr>resTenant = envTenant e, resKind = ''block'',
             resPermission = ''execute'', resID = riTarget r\<rparr>]
         else
           (let (action, permission) = request_action (riKind r) in
            Require now e action
              ([\<lparr>resTenant = envTenant e, resKind = ''source'', resPermission = permission, resID = riTarget r\<rparr>]
               @ (if riContext r \<noteq> [] then
                    [\<lparr>resTenant = envTenant e, resKind = ''execution_context'', resPermission = ''use'', resID = riContext r\<rparr>]
                  else [])))))"

subsection \<open>Reporting dispatches\<close>

record reporting_pin =
  pinBlock :: string
  pinID :: string
  pinRevision :: int
  pinDigest :: string

record reporting_dispatch =
  rdTarget :: reporting_target
  rdRevision :: int
  rdDigest :: string
  rdPins :: "reporting_pin list option"
  rdInput :: request_input
  rdBlocked :: string

fun pins_ok :: "string list \<Rightarrow> reporting_pin list \<Rightarrow> bool" where
  "pins_ok seen [] = True"
| "pins_ok seen (p # ps) =
     (if \<not> Identifier (pinID p) \<or> \<not> Identifier (pinBlock p) \<or> pinRevision p < 1 \<or> pinRevision p > 256 \<or>
         \<not> reportingHash (pinDigest p) \<or> pinID p \<in> set seen then False
      else pins_ok (pinID p # seen) ps)"

definition ReportingDispatch_Valid :: "reporting_dispatch \<Rightarrow> bool" where
  "ReportingDispatch_Valid d =
     (if \<not> ReportingTarget_Valid (rdTarget d) \<or> \<not> RequestInput_Valid (rdInput d) \<or> riKind (rdInput d) \<noteq> InputKind (rdTarget d) \<or>
         riTarget (rdInput d) \<noteq> rtID (rdTarget d) \<or> riContext (rdInput d) \<noteq> [] \<or> length (elems (rdPins d)) > 100 then False
      else if rdBlocked d \<noteq> [] then
        rdBlocked d = ''dependency_unavailable'' \<and> rdRevision d = 0 \<and> rdDigest d = [] \<and> length (elems (rdPins d)) = 0
      else if rdRevision d < 1 \<or> rdRevision d > 256 \<or> \<not> reportingHash (rdDigest d) \<or>
         \<not> rtLatestPublished (rdTarget d) \<and> rdRevision d \<noteq> rtRevision (rdTarget d) then False
      else pins_ok [] (elems (rdPins d)))"

definition pin_wire :: "reporting_pin \<Rightarrow> json" where
  "pin_wire p = JObj [(''block'', JStr (pinBlock p)), (''id'', JStr (pinID p)), (''revision'', JInt (pinRevision p)),
     (''digest'', JStr (pinDigest p))]"

definition dispatch_wire :: "reporting_dispatch \<Rightarrow> json" where
  "dispatch_wire d = JObj ([(''target'', target_wire (rdTarget d)), (''revision'', JInt (rdRevision d)), (''digest'', JStr (rdDigest d)),
     (''pins'', slice_wire pin_wire (rdPins d)), (''input'', input_wire (rdInput d))] @ opt_str ''blocked'' (rdBlocked d))"

subsection \<open>Submissions and jobs\<close>

record submission =
  subKind :: string
  subBinding :: string
  subPipeline :: "pipeline_target option"
  subReporting :: "reporting_target option"

definition submission_wire :: "submission \<Rightarrow> json" where
  "submission_wire s = JObj ([(''kind'', JStr (subKind s)), (''binding_id'', JStr (subBinding s))]
     @ opt_ptr ''pipeline'' (map_option pipeline_wire (subPipeline s))
     @ opt_ptr ''reporting'' (map_option target_wire (subReporting s)))"

definition BindingID :: "string \<Rightarrow> bool" where
  "BindingID s \<longleftrightarrow> Identifier s \<and> length s \<le> 64 \<and> \<not> contains s '':''"

definition Executor :: "string \<Rightarrow> string" where
  "Executor binding = ''svc:chartworks:'' @ binding"

definition Submission_Validate :: "golib \<Rightarrow> submission \<Rightarrow> jobs_error + unit" where
  "Submission_Validate g s =
     (if json_len g (submission_wire s) > 8192 then Inl JInvalid
      else if \<not> BindingID (subBinding s) then Inl JInvalid
      else if subKind s = ''retention.sweep'' \<and> subPipeline s = None \<and> subReporting s = None then Inr ()
      else if subKind s = ''reporting.scheduled'' \<and> subPipeline s = None \<and>
        (case subReporting s of None \<Rightarrow> False | Some t \<Rightarrow> ReportingTarget_Valid t) then Inr ()
      else if subKind s = ''pipeline.run'' \<and> (case subPipeline s of None \<Rightarrow> False | Some p \<Rightarrow> PipelineTarget_Valid p)
        \<and> subReporting s = None then Inr ()
      else Inl JInvalid)"

record reporting_charge =
  chQueries :: int
  chModelCalls :: int
  chModelTokens :: int

definition ReportingCharge_Valid :: "reporting_charge \<Rightarrow> bool" where
  "ReportingCharge_Valid c \<longleftrightarrow>
     chQueries c = 1 \<and> chModelCalls c = 0 \<and> chModelTokens c = 0 \<or>
     chQueries c = 0 \<and> chModelCalls c = 1 \<and> chModelTokens c > 0 \<and> chModelTokens c \<le> 16 * 2 ^ 20"

record reporting_receipt =
  rcQuery :: string
  rcArtifact :: string
  rcCatalog :: string
  rcNotification :: string
  rcArtifactID :: string
  rcKind :: string
  rcReserved :: reporting_charge

record job =
  jobDelivery :: "reporting_receipt option"
  jobID :: string
  jobTenant :: string
  jobKind :: string
  jobBinding :: string
  jobExecutor :: string
  jobInitiator :: string
  jobSession :: string
  jobState :: op_status
  jobError :: string
  jobPolicy :: int
  jobDue :: go_time
  jobWindowStart :: go_time
  jobWindowEnd :: go_time
  jobCutoff :: go_time
  jobBatch :: int
  jobAttempts :: int
  jobMaxAttempts :: int
  jobSchedule :: string
  jobScheduleRevision :: int
  jobManifest :: string
  jobDeletedEvents :: int
  jobDeletedOps :: int
  jobPipeline :: "pipeline_target option"
  jobReporting :: "reporting_dispatch option"

definition manifest_parts :: "golib \<Rightarrow> job \<Rightarrow> json list" where
  "manifest_parts g j =
     [JStr ''chartworks-operation-v1'', JStr (jobTenant j), JStr (jobID j), JStr (jobKind j), JStr (jobBinding j),
      JStr (jobExecutor j), JStr (jobInitiator j), JStr (jobSession j), JInt (jobPolicy j), time_wire g (jobDue j),
      time_wire g (jobWindowStart j), time_wire g (jobWindowEnd j), time_wire g (jobCutoff j), JInt (jobBatch j),
      JStr (jobSchedule j), JInt (jobScheduleRevision j)]
     @ (case jobPipeline j of None \<Rightarrow> [] | Some p \<Rightarrow> [pipeline_wire p])
     @ (case jobReporting j of None \<Rightarrow> [] | Some d \<Rightarrow> [dispatch_wire d])"

text \<open>\<^verbatim>\<open>b, _ := json.Marshal(parts)\<close>: a failure leaves no bytes to hash.\<close>

definition Job_Digest :: "golib \<Rightarrow> job \<Rightarrow> string" where
  "Job_Digest g j =
     sha256_hex g (if list_all time_encodable [jobDue j, jobWindowStart j, jobWindowEnd j, jobCutoff j]
                   then json_text g (JArr (manifest_parts g j)) else [])"

definition ReportingInput :: "golib \<Rightarrow> job \<Rightarrow> request_input" where
  "ReportingInput g j =
     (case jobReporting j of
        None \<Rightarrow> zero_input
      | Some d \<Rightarrow>
          \<lparr>riKind = InputKind (rdTarget d), riTarget = rtID (rdTarget d), riContext = [],
           riInputHash = requestDigest g [jobDue j, jobWindowStart j, jobWindowEnd j]
             (JArr [JStr ''chartworks-scheduled-reporting-v1'', JStr (jobID j), time_wire g (jobDue j),
                time_wire g (jobWindowStart j), time_wire g (jobWindowEnd j), target_wire (rdTarget d),
                JInt (rdRevision d), JStr (rdDigest d), slice_wire pin_wire (rdPins d), JStr (rdBlocked d)])\<rparr>)"

definition job_shape :: "job \<Rightarrow> bool" where
  "job_shape j \<longleftrightarrow>
     jobKind j = ''retention.sweep'' \<and> jobPipeline j = None \<and> jobReporting j = None \<or>
     jobKind j = ''pipeline.run'' \<and> (case jobPipeline j of None \<Rightarrow> False | Some p \<Rightarrow> PipelineTarget_Valid p) \<and> jobReporting j = None \<or>
     jobKind j = ''reporting.scheduled'' \<and> jobPipeline j = None \<and>
       (case jobReporting j of None \<Rightarrow> False | Some d \<Rightarrow> ReportingDispatch_Valid d)"

definition Job_Valid :: "golib \<Rightarrow> job \<Rightarrow> bool" where
  "Job_Valid g j \<longleftrightarrow>
     Identifier (jobID j) \<and> Identifier (jobTenant j) \<and> BindingID (jobBinding j) \<and> job_shape j \<and>
     jobExecutor j = Executor (jobBinding j) \<and> Identifier (jobInitiator j) \<and> Identifier (jobSession j) \<and>
     jobPolicy j > 0 \<and> jobBatch j \<ge> 1 \<and> jobBatch j \<le> 1000 \<and> jobDue j \<noteq> zero_time \<and>
     \<not> jobWindowStart j > jobWindowEnd j \<and> jobWindowEnd j = jobDue j \<and> jobManifest j = Job_Digest g j \<and>
     (case jobReporting j of None \<Rightarrow> True | Some d \<Rightarrow> rdInput d = ReportingInput g j)"

record job_lease =
  jlJob :: job
  jlOwner :: string
  jlFence :: int
  jlAttempt :: int
  jlUntil :: go_time

subsection \<open>Execution authority\<close>

record exec_proof =
  epEnvelope :: envelope
  epBinding :: string
  epJob :: string
  epManifest :: string

definition Execution_Matches :: "go_time \<Rightarrow> exec_proof \<Rightarrow> string \<Rightarrow> string \<Rightarrow> string \<Rightarrow> bool" where
  "Execution_Matches now e binding j manifest \<longleftrightarrow>
     Envelope_Valid now (epEnvelope e) \<and> epBinding e = binding \<and> epJob e = j \<and> epManifest e = manifest \<and> manifest \<noteq> []"

definition job_resource :: "job \<Rightarrow> string \<Rightarrow> string \<Rightarrow> string \<Rightarrow> resource" where
  "job_resource j kind permission ident =
     \<lparr>resTenant = jobTenant j, resKind = kind, resPermission = permission, resID = ident\<rparr>"

definition AssertExecution :: "golib \<Rightarrow> go_time \<Rightarrow> exec_proof \<Rightarrow> job \<Rightarrow> jobs_error + unit" where
  "AssertExecution g now proof j =
     (let e = epEnvelope proof;
          binding = job_resource j ''execution_binding'' ''use'' (jobBinding j);
          run = job_resource j ''run'' ''execute'' (jobID j) in
      if \<not> Execution_Matches now proof (jobBinding j) (jobID j) (jobManifest j) then Inl JAuthority
      else if \<not> Job_Valid g j \<or> \<not> Envelope_Valid now e \<or> envTenant e \<noteq> jobTenant j \<or> envUser e \<noteq> jobExecutor j \<or>
              envSession e \<noteq> jobID j then Inl JAuthority
      else if jobKind j = ''reporting.scheduled'' then
        (if \<not> is_ok (ReportingTarget_Require now (rdTarget (the (jobReporting j))) e) \<or>
            \<not> is_ok (Require now e ''reporting.execute'' [binding, run])
         then Inl JAuthority else Inr ())
      else if jobKind j = ''pipeline.run'' then
        (if \<not> is_ok (Require now e ''engineering.pipeline.run''
              [job_resource j ''source'' ''write'' (ptID (the (jobPipeline j))), binding, run])
         then Inl JAuthority else Inr ())
      else if \<not> is_ok (Require now e ''ops.maintain'' [job_resource j ''tenant'' ''erase'' (jobTenant j), binding, run])
      then Inl JAuthority else Inr ())"

subsection \<open>Request tasks\<close>

record request_task =
  rqID :: string
  rqTenant :: string
  rqActor :: string
  rqSession :: string
  rqInput :: request_input
  rqState :: op_status
  rqCode :: string
  rqAttempts :: int
  rqMaxAttempts :: int
  rqCreated :: go_time
  rqExpires :: go_time
  rqManifest :: string
  rqDispatch :: "job option"

definition RequestTask_Digest :: "golib \<Rightarrow> request_task \<Rightarrow> string" where
  "RequestTask_Digest g t =
     (case rqDispatch t of
        Some j \<Rightarrow> Job_Digest g j
      | None \<Rightarrow> requestDigest g [rqCreated t, rqExpires t]
          (JArr [JStr ''chartworks-request-operation-v1'', JStr (rqID t), JStr (rqTenant t), JStr (rqActor t), JStr (rqSession t),
             input_wire (rqInput t), JInt (rqMaxAttempts t), time_wire g (rqCreated t), time_wire g (rqExpires t)]))"

definition validDispatchedRequest :: "golib \<Rightarrow> request_task \<Rightarrow> bool" where
  "validDispatchedRequest g t =
     (case rqDispatch t of
        None \<Rightarrow> False
      | Some j \<Rightarrow>
          if \<not> Job_Valid g j \<or> rqID t \<noteq> jobID j \<or> rqTenant t \<noteq> jobTenant j \<or> rqActor t \<noteq> jobExecutor j \<or>
             rqSession t \<noteq> jobID j \<or> rqMaxAttempts t \<noteq> jobMaxAttempts j \<or> rqManifest t \<noteq> jobManifest j \<or>
             rqCreated t = zero_time \<or> \<not> rqExpires t > rqCreated t \<or> rqManifest t \<noteq> RequestTask_Digest g t then False
          else if jobKind j = ''pipeline.run'' then
            (case jobPipeline j of None \<Rightarrow> False | Some p \<Rightarrow>
               rqInput t = \<lparr>riKind = ''pipeline.run'', riTarget = ptID p, riContext = [], riInputHash = ptDigest p\<rparr>)
          else jobKind j = ''reporting.scheduled'' \<and>
            (case jobReporting j of None \<Rightarrow> False | Some d \<Rightarrow> rqInput t = rdInput d))"

definition RequestTask_Valid :: "golib \<Rightarrow> request_task \<Rightarrow> bool" where
  "RequestTask_Valid g t =
     (if rqDispatch t \<noteq> None \<and> \<not> validDispatchedRequest g t then False
      else Identifier (rqTenant t) \<and> Identifier (rqID t) \<and> Identifier (rqActor t) \<and> Identifier (rqSession t) \<and>
        RequestInput_Valid (rqInput t) \<and> rqMaxAttempts t \<ge> 1 \<and> rqMaxAttempts t \<le> 8 \<and> rqAttempts t \<ge> 0 \<and>
        rqAttempts t \<le> rqMaxAttempts t \<and> rqCreated t \<noteq> zero_time \<and> rqExpires t > rqCreated t \<and>
        rqManifest t = RequestTask_Digest g t)"

definition RequestTask_Require :: "golib \<Rightarrow> go_time \<Rightarrow> request_task \<Rightarrow> envelope \<Rightarrow> fault + unit" where
  "RequestTask_Require g now t e =
     (if \<not> RequestTask_Valid g t \<or> rqTenant t \<noteq> envTenant e \<or> rqActor t \<noteq> envUser e \<or> rqSession t \<noteq> envSession e
      then Inl (FStore StoreErrNotFound)
      else RequestInput_Require now (rqInput t) e)"

subsection \<open>Invocations\<close>

record request_lease =
  rlTask :: request_task
  rlOwner :: string
  rlFence :: int
  rlAttempt :: int
  rlUntil :: go_time

text \<open>An owned claim: the lease, the authority it runs under, and the parent claim it was delegated by.\<close>

datatype invocation = Invocation (invLease: request_lease) (invAuthority: envelope) (invOwned: bool)
  (invParent: "invocation option")

definition root_kind :: "request_lease \<Rightarrow> bool" where
  "root_kind l \<longleftrightarrow> riKind (rqInput (rlTask l)) = ''report.run'' \<or> riKind (rqInput (rlTask l)) = ''dashboard.run''"

definition owned_claim :: "golib \<Rightarrow> request_lease \<Rightarrow> envelope \<Rightarrow> bool \<Rightarrow> bool" where
  "owned_claim g l e owned \<longleftrightarrow>
     owned \<and> RequestTask_Valid g (rlTask l) \<and> Identifier (rlOwner l) \<and> rlFence l > 0 \<and> rlAttempt l > 0 \<and>
     rqTenant (rlTask l) = envTenant e \<and> rqActor (rlTask l) = envUser e \<and> rqSession (rlTask l) = envSession e"

fun Invocation_Valid :: "golib \<Rightarrow> invocation \<Rightarrow> bool" where
  "Invocation_Valid g (Invocation l e owned None) = owned_claim g l e owned"
| "Invocation_Valid g (Invocation l e owned (Some p)) =
     (if invParent p \<noteq> None \<or> \<not> Invocation_Valid g p \<or> \<not> root_kind (invLease p) \<or>
         riKind (rqInput (rlTask l)) \<noteq> ''reporting.run'' \<or> rqTenant (rlTask l) \<noteq> rqTenant (rlTask (invLease p)) \<or>
         rqActor (rlTask l) \<noteq> rqActor (rlTask (invLease p)) \<or> rqSession (rlTask l) \<noteq> rqSession (rlTask (invLease p)) \<or>
         rqID (rlTask l) = rqID (rlTask (invLease p)) then False
      else owned_claim g l e owned)"

text \<open>The immutable binding of an effect: kind, target and input hash.\<close>

definition bound_to :: "request_lease \<Rightarrow> string \<Rightarrow> string \<Rightarrow> string \<Rightarrow> bool" where
  "bound_to l kind target hash \<longleftrightarrow> riKind (rqInput (rlTask l)) = kind \<and> riTarget (rqInput (rlTask l)) = target \<and>
     riInputHash (rqInput (rlTask l)) = hash"

fun Invocation_Current :: "golib \<Rightarrow> go_time \<Rightarrow> invocation \<Rightarrow> string \<Rightarrow> string \<Rightarrow> string \<Rightarrow> fault + envelope" where
  "Invocation_Current g now (Invocation l e owned parent) kind target hash =
     (if \<not> Invocation_Valid g (Invocation l e owned parent) \<or> \<not> bound_to l kind target hash then Inl (FJobs JAuthority)
      else
        case (case parent of
                None \<Rightarrow> Inr ()
              | Some p \<Rightarrow>
                  let i = rqInput (rlTask (invLease p)) in
                  (case Invocation_Current g now p (riKind i) (riTarget i) (riInputHash i) of
                     Inl err \<Rightarrow> Inl err | Inr _ \<Rightarrow> Inr ())) of
          Inl err \<Rightarrow> Inl err
        | Inr _ \<Rightarrow>
            (case RequestTask_Require g now (rlTask l) e of Inl err \<Rightarrow> Inl err | Inr _ \<Rightarrow> Inr e))"

definition nestedAuthority :: "golib \<Rightarrow> go_time \<Rightarrow> invocation \<Rightarrow> request_input \<Rightarrow> fault + envelope" where
  "nestedAuthority g now parent input =
     (let i = rqInput (rlTask (invLease parent)) in
      if invParent parent \<noteq> None \<or> \<not> root_kind (invLease parent) \<or> riKind input \<noteq> ''reporting.run'' \<or> riContext input \<noteq> []
      then Inl (FJobs JAuthority)
      else case Invocation_Current g now parent (riKind i) (riTarget i) (riInputHash i) of
             Inl err \<Rightarrow> Inl err
           | Inr e \<Rightarrow> (case RequestInput_Require now input e of Inl err \<Rightarrow> Inl err | Inr _ \<Rightarrow> Inr e))"

text \<open>\<^verbatim>\<open>PipelineInvocation\<close> and \<^verbatim>\<open>ReportingInvocation\<close> differ only in the kind they accept.\<close>

definition dispatch_invocation ::
  "string \<Rightarrow> golib \<Rightarrow> go_time \<Rightarrow> exec_proof \<Rightarrow> job_lease \<Rightarrow> request_task \<Rightarrow> jobs_error + invocation" where
  "dispatch_invocation kind g now proof l t =
     (case rqDispatch t of
        None \<Rightarrow> Inl JAuthority
      | Some d \<Rightarrow>
          if \<not> is_ok (AssertExecution g now proof (jlJob l)) \<or> jobKind (jlJob l) \<noteq> kind \<or> \<not> RequestTask_Valid g t \<or>
             jobManifest d \<noteq> jobManifest (jlJob l) \<or> rqAttempts t \<noteq> jlAttempt l then Inl JAuthority
          else
            let inv = Invocation \<lparr>rlTask = t, rlOwner = jlOwner l, rlFence = jlFence l, rlAttempt = jlAttempt l, rlUntil = jlUntil l\<rparr>
                        (epEnvelope proof) True None in
            if \<not> Invocation_Valid g inv then Inl JAuthority else Inr inv)"

definition PipelineInvocation ::
  "golib \<Rightarrow> go_time \<Rightarrow> exec_proof \<Rightarrow> job_lease \<Rightarrow> request_task \<Rightarrow> jobs_error + invocation" where
  "PipelineInvocation = dispatch_invocation ''pipeline.run''"

definition ReportingInvocation ::
  "golib \<Rightarrow> go_time \<Rightarrow> exec_proof \<Rightarrow> job_lease \<Rightarrow> request_task \<Rightarrow> jobs_error + invocation" where
  "ReportingInvocation = dispatch_invocation ''reporting.scheduled''"

subsection \<open>What a valid job guarantees\<close>

lemma Job_Valid_parts:
  assumes "Job_Valid g j"
  shows "Identifier (jobID j)" "Identifier (jobTenant j)" "Identifier (jobBinding j)" "job_shape j"
    "jobExecutor j = ''svc:chartworks:'' @ jobBinding j" "Identifier (jobInitiator j)" "Identifier (jobSession j)"
    "jobManifest j = Job_Digest g j"
  using assms by (auto simp: Job_Valid_def BindingID_def Executor_def)

lemma ReportingTarget_Valid_parts:
  assumes "ReportingTarget_Valid t"
  shows "ResourceKind t = ''block'' \<or> ResourceKind t = ''report''" "Identifier (rtID t)"
proof -
  have guard: "(if P then False else Q) \<longleftrightarrow> \<not> P \<and> Q" for P Q by simp
  have "ResourceKind t \<noteq> [] \<and> Identifier (rtID t)"
    using assms unfolding ReportingTarget_Valid_def guard de_Morgan_disj by blast
  then show "ResourceKind t = ''block'' \<or> ResourceKind t = ''report''" "Identifier (rtID t)"
    by (auto simp: ResourceKind_def split: if_splits)
qed

lemma job_shape_reporting:
  "job_shape j \<Longrightarrow> jobKind j = ''reporting.scheduled'' \<Longrightarrow>
     \<exists>d. jobReporting j = Some d \<and> jobPipeline j = None \<and> ReportingDispatch_Valid d \<and> ReportingTarget_Valid (rdTarget d)"
  by (auto simp: job_shape_def ReportingDispatch_Valid_def split: option.splits if_splits)

lemma job_shape_pipeline:
  "job_shape j \<Longrightarrow> jobKind j = ''pipeline.run'' \<Longrightarrow>
     \<exists>p. jobPipeline j = Some p \<and> jobReporting j = None \<and> PipelineTarget_Valid p \<and> Identifier (ptID p)"
  by (auto simp: job_shape_def PipelineTarget_Valid_def split: option.splits)

lemma job_shape_kind:
  "job_shape j \<Longrightarrow> jobKind j \<in> {''retention.sweep'', ''pipeline.run'', ''reporting.scheduled''}"
  by (auto simp: job_shape_def)

subsection \<open>Authority of an execution\<close>

text \<open>The action and the grants a job needs, by its kind: its target, its binding and its own run.\<close>

definition job_action :: "job \<Rightarrow> string" where
  "job_action j =
     (if jobKind j = ''reporting.scheduled'' then ''reporting.execute''
      else if jobKind j = ''pipeline.run'' then ''engineering.pipeline.run'' else ''ops.maintain'')"

definition job_target :: "job \<Rightarrow> string \<times> string \<times> string" where
  "job_target j =
     (case (jobReporting j, jobPipeline j) of
        (Some d, _) \<Rightarrow> (ResourceKind (rdTarget d), ''execute'', rtID (rdTarget d))
      | (None, Some p) \<Rightarrow> (''source'', ''write'', ptID p)
      | (None, None) \<Rightarrow> (''tenant'', ''erase'', jobTenant j))"

definition job_grants :: "job \<Rightarrow> (string \<times> string \<times> string) list" where
  "job_grants j = [job_target j, (''execution_binding'', ''use'', jobBinding j), (''run'', ''execute'', jobID j)]"

definition grant_resource :: "string \<Rightarrow> string \<times> string \<times> string \<Rightarrow> resource" where
  "grant_resource tenant p = (case p of (kind, permission, ident) \<Rightarrow>
     \<lparr>resTenant = tenant, resKind = kind, resPermission = permission, resID = ident\<rparr>)"

lemma is_ok_lift_access [simp]: "is_ok (lift_access r) = is_ok r"
  by (simp add: lift_access_def split: sum.splits)

lemma is_ok_Require: "is_ok (Require now e a rs) \<longleftrightarrow> Require now e a rs = Inr ()"
  by (simp add: is_ok_iff)

lemma AssertExecution_iff:
  "AssertExecution g now proof j = Inr () \<longleftrightarrow>
     Execution_Matches now proof (jobBinding j) (jobID j) (jobManifest j) \<and> Job_Valid g j \<and>
     envTenant (epEnvelope proof) = jobTenant j \<and> envUser (epEnvelope proof) = jobExecutor j \<and>
     envSession (epEnvelope proof) = jobID j \<and>
     Require now (epEnvelope proof) (job_action j) (map (grant_resource (jobTenant j)) (job_grants j)) = Inr ()"
proof (cases "Job_Valid g j \<and> envTenant (epEnvelope proof) = jobTenant j")
  case True
  note parts = Job_Valid_parts [of g j]
  consider (sweep) "jobKind j = ''retention.sweep''" "jobPipeline j = None" "jobReporting j = None"
    | (pipe) p where "jobKind j = ''pipeline.run''" "jobPipeline j = Some p" "jobReporting j = None"
    | (rep) d where "jobKind j = ''reporting.scheduled''" "jobPipeline j = None" "jobReporting j = Some d"
        "ReportingTarget_Valid (rdTarget d)"
    using True parts(4) job_shape_reporting [of j] job_shape_pipeline [of j] job_shape_kind [of j]
    by (auto simp: job_shape_def)
  then show ?thesis
    using True
    by cases (auto simp: AssertExecution_def Let_def job_action_def job_grants_def job_target_def job_resource_def
        grant_resource_def ReportingTarget_Require_def is_ok_Require Require_iff Execution_Matches_def)
qed (auto simp: AssertExecution_def Let_def)

lemma job_grants_named:
  assumes "Job_Valid g j"
  shows "\<forall>p \<in> set (job_grants j). resource_named (grant_resource (jobTenant j) p)"
proof -
  note parts = Job_Valid_parts [OF assms]
  have "resource_named (grant_resource (jobTenant j) (job_target j))"
    using parts job_shape_reporting [of j] job_shape_pipeline [of j]
    by (auto simp: job_shape_def job_target_def grant_resource_def resource_named_def reach_kinds_def reach_permissions_def
        dest: ReportingTarget_Valid_parts split: option.splits)
  with parts show ?thesis
    by (simp add: job_grants_def grant_resource_def resource_named_def reach_kinds_def reach_permissions_def)
qed

text \<open>
  C29: an effect is authorised exactly by authority signed for this job. For an envelope verified with
  tenant, user, session and scopes, the check passes if and only if the job is valid, the proof names its
  binding, its identifier and its non-empty manifest, the clock is before the expiry, the tenant is the job's,
  the user is the service identity of the binding, the session is the job, and the action of the job's
  kind and a grant for its target, for its binding and for its own run are literally among the signed scopes.
\<close>

theorem assert_execution_exactly:
  assumes "FromVerified now0 tenant user session scopes til = Inr e"
  shows "AssertExecution g now \<lparr>epEnvelope = e, epBinding = b, epJob = i, epManifest = m\<rparr> j = Inr () \<longleftrightarrow>
    Job_Valid g j \<and> b = jobBinding j \<and> i = jobID j \<and> m = jobManifest j \<and> m \<noteq> [] \<and> now < til \<and>
    tenant = jobTenant j \<and> user = ''svc:chartworks:'' @ jobBinding j \<and> session = jobID j \<and>
    job_action j \<in> set scopes \<and>
    (\<forall>(kind, permission, ident) \<in> set (job_grants j). \<exists>s \<in> set (grant_texts kind permission ident). s \<in> set scopes)"
proof -
  note f = FromVerified_fields [OF assms]
  have "(\<forall>r \<in> set (map (grant_resource (jobTenant j)) (job_grants j)). reaches e r) \<longleftrightarrow>
    (\<forall>(kind, permission, ident) \<in> set (job_grants j). \<exists>s \<in> set (grant_texts kind permission ident). s \<in> set scopes)"
    if "Job_Valid g j" "tenant = jobTenant j"
    using that job_grants_named [OF that(1)]
    by (fastforce simp: reaches_iff [OF assms] grant_resource_def)
  then show ?thesis
    using Job_Valid_parts(5) [of g j]
    by (auto simp: AssertExecution_iff Execution_Matches_def Require_iff f job_grants_def)
qed

subsection \<open>A sample job\<close>

definition unsealed_job :: "string \<Rightarrow> job" where
  "unsealed_job ident =
     \<lparr>jobDelivery = None, jobID = ident, jobTenant = ''acme'', jobKind = ''pipeline.run'', jobBinding = ''nightly'',
      jobExecutor = ''svc:chartworks:nightly'', jobInitiator = ''ana'', jobSession = ''s1'', jobState = Running, jobError = [],
      jobPolicy = 1, jobDue = 7, jobWindowStart = 5, jobWindowEnd = 7, jobCutoff = 1, jobBatch = 10, jobAttempts = 1,
      jobMaxAttempts = 3, jobSchedule = [], jobScheduleRevision = 0, jobManifest = [], jobDeletedEvents = 0, jobDeletedOps = 0,
      jobPipeline = Some \<lparr>ptID = ''p1'', ptVersion = 2, ptDigest = replicate 64 (CHR ''a'')\<rparr>, jobReporting = None\<rparr>"

definition seal :: "golib \<Rightarrow> job \<Rightarrow> job" where
  "seal g j = j\<lparr>jobManifest := Job_Digest g j\<rparr>"

definition sample_job :: job where
  "sample_job = seal sample_lib (unsealed_job ''job1'')"

definition sample_scopes :: "string list" where
  "sample_scopes = [''engineering.pipeline.run'', ''cw.source.write:p1'', ''cw.execution_binding.use:nightly'', ''cw.run.execute:job1'']"

lemma sample_job_code [code]: "sample_job = (unsealed_job ''job1'')\<lparr>jobManifest := ''[11::117571100:1:2:]''\<rparr>"
proof -
  have "Job_Digest sample_lib (unsealed_job ''job1'') = ''[11::117571100:1:2:]''" by code_simp
  then show ?thesis by (simp add: sample_job_def seal_def)
qed

lemma sample_job_valid: "Job_Valid sample_lib sample_job"
  by code_simp

theorem assert_execution_exactly_witness:
  "\<exists>e. FromVerified 0 ''acme'' ''svc:chartworks:nightly'' ''job1'' sample_scopes 100 = Inr e \<and>
     AssertExecution sample_lib 5 \<lparr>epEnvelope = e, epBinding = ''nightly'', epJob = ''job1'', epManifest = jobManifest sample_job\<rparr>
       sample_job = Inr () \<and>
     AssertExecution sample_lib 100 \<lparr>epEnvelope = e, epBinding = ''nightly'', epJob = ''job1'', epManifest = jobManifest sample_job\<rparr>
       sample_job \<noteq> Inr ()"
proof -
  obtain e where e: "FromVerified 0 ''acme'' ''svc:chartworks:nightly'' ''job1'' sample_scopes 100 = Inr e"
    by (rule that) code_simp
  have facts: "jobManifest sample_job \<noteq> []" "jobBinding sample_job = ''nightly''" "jobID sample_job = ''job1''"
    "jobTenant sample_job = ''acme''" "job_action sample_job \<in> set sample_scopes"
    "\<forall>(kind, permission, ident) \<in> set (job_grants sample_job).
       \<exists>s \<in> set (grant_texts kind permission ident). s \<in> set sample_scopes"
    by code_simp+
  show ?thesis
    using e facts sample_job_valid
    by (intro exI [of _ e] conjI) (simp_all add: assert_execution_exactly [OF e])
qed

subsection \<open>Reading a manifest back\<close>

lemma ident_char_plain: "ident_char c \<Longrightarrow> plain_char c"
proof -
  have "list_all (\<lambda>c. ident_char c \<longrightarrow> plain_char c) Enum.enum" by code_simp
  then show "ident_char c \<Longrightarrow> plain_char c" by (simp add: list_all_iff enum_UNIV)
qed

lemma lower_hex_plain: "lower_hex c \<Longrightarrow> plain_char c"
proof -
  have "list_all (\<lambda>c. lower_hex c \<longrightarrow> plain_char c) Enum.enum" by code_simp
  then show "lower_hex c \<Longrightarrow> plain_char c" by (simp add: list_all_iff enum_UNIV)
qed

lemma Identifier_plain: "Identifier s \<Longrightarrow> list_all plain_char s"
  by (auto simp: Identifier_def list_all_iff ident_char_plain)

lemma Executor_plain: "Identifier b \<Longrightarrow> list_all plain_char (''svc:chartworks:'' @ b)"
  by (simp add: Identifier_plain)

text \<open>A text up to a delimiter that does not occur in it.\<close>

lemma delimited:
  "list_all P s \<Longrightarrow> list_all P s' \<Longrightarrow> \<not> P c \<Longrightarrow> \<not> P d \<Longrightarrow> s @ c # x = s' @ d # y \<longleftrightarrow> s = s' \<and> c = d \<and> x = y"
proof (induction s arbitrary: s')
  case Nil
  then show ?case by (cases s') auto
next
  case (Cons a s)
  then show ?case by (cases s') auto
qed

lemma quote_not_plain [simp]: "\<not> plain_char (byte_of 34)"
  by code_simp

lemma json_string_cancel:
  assumes "list_all plain_char s" "list_all plain_char s'"
  shows "json_string s @ x = json_string s' @ y \<longleftrightarrow> s = s' \<and> x = y"
  using assms delimited [OF assms, of "byte_of 34" "byte_of 34" x y] by (simp add: json_string_code)

lemma json_string_eq: "list_all plain_char s \<Longrightarrow> list_all plain_char s' \<Longrightarrow> json_string s = json_string s' \<longleftrightarrow> s = s'"
  using json_string_cancel [of s s' "[]" "[]"] by simp

definition number_char :: "char \<Rightarrow> bool" where
  "number_char c \<longleftrightarrow> is_digit c \<or> c = CHR ''-''"

lemma number_char_plain: "number_char c \<Longrightarrow> plain_char c"
proof -
  have "list_all (\<lambda>c. number_char c \<longrightarrow> plain_char c) Enum.enum" by code_simp
  then show "number_char c \<Longrightarrow> plain_char c" by (simp add: list_all_iff enum_UNIV)
qed

lemma int_str_chars: "list_all number_char (int_str i)"
  using nat_str_digits [of i] nat_str_digits [of "- i"]
  by (auto simp: int_str_def number_char_def list_all_iff)

lemma int_str_eq: "int_str i = int_str k \<longleftrightarrow> i = k"
proof
  assume eq: "int_str i = int_str k"
  have no_sign: "n \<ge> 0 \<Longrightarrow> nat_str n \<noteq> CHR ''-'' # s" for n s
  proof
    assume "n \<ge> 0" "nat_str n = CHR ''-'' # s"
    then have "is_digit (CHR ''-'')" using nat_str_digits [of n] by simp
    then show False by code_simp
  qed
  show "i = k"
  proof (cases "i < 0"; cases "k < 0")
    assume "i < 0" "k < 0"
    with eq have "nat_str (- i) = nat_str (- k)" by (simp add: int_str_def)
    from arg_cong [OF this, of digits_val] nat_str_val [of "- i"] nat_str_val [of "- k"] \<open>i < 0\<close> \<open>k < 0\<close>
    show ?thesis by linarith
  next
    assume "\<not> i < 0" "\<not> k < 0"
    with eq have "nat_str i = nat_str k" by (simp add: int_str_def)
    from arg_cong [OF this, of digits_val] nat_str_val [of i] nat_str_val [of k] \<open>\<not> i < 0\<close> \<open>\<not> k < 0\<close>
    show ?thesis by linarith
  qed (use eq no_sign [of i] no_sign [of k] in \<open>metis int_str_def linorder_not_less\<close>)+
qed simp

lemma int_str_cancel:
  assumes "\<not> number_char c" "\<not> number_char d"
  shows "int_str i @ c # x = int_str k @ d # y \<longleftrightarrow> i = k \<and> c = d \<and> x = y"
  using delimited [OF int_str_chars int_str_chars assms] by (auto simp: int_str_eq)

lemma number_delims [simp]:
  "\<not> number_char (CHR '','')" "\<not> number_char (CHR '']'')" "\<not> number_char (CHR ''}'')"
  by code_simp+

text \<open>The text of an array from its second element on.\<close>

definition array_rest :: "golib \<Rightarrow> json list \<Rightarrow> string" where
  "array_rest g xs = (if xs = [] then '']'' else '','' @ join_commas (map (json_text g) xs) @ '']'')"

lemma array_rest_first: "\<exists>c s. array_rest g xs = c # s \<and> \<not> number_char c"
  by (auto simp: array_rest_def)

lemma join_commas_rest: "join_commas (map (json_text g) (x # xs)) @ '']'' = json_text g x @ array_rest g xs"
  by (cases xs) (auto simp: array_rest_def)

lemma array_rest_Cons: "array_rest g (x # xs) = CHR '','' # json_text g x @ array_rest g xs"
  using join_commas_rest [of g x xs] by (simp add: array_rest_def)

lemma array_text: "json_text g (JArr (x # xs)) = CHR ''['' # json_text g x @ array_rest g xs"
  using join_commas_rest [of g x xs] by simp

lemma int_rest_cancel: "int_str i @ array_rest g xs = int_str k @ array_rest g ys \<longleftrightarrow> i = k \<and> array_rest g xs = array_rest g ys"
  using array_rest_first [of g xs] array_rest_first [of g ys] int_str_cancel by (auto simp: int_str_eq)

lemma array_rest_single: "array_rest g [x] = array_rest g [y] \<longleftrightarrow> json_text g x = json_text g y"
  by (simp add: array_rest_def)

lemma pipeline_wire_eq:
  assumes "PipelineTarget_Valid p" "PipelineTarget_Valid q" "json_text g (pipeline_wire p) = json_text g (pipeline_wire q)"
    and "list_all plain_char (ptDigest p)" "list_all plain_char (ptDigest q)"
  shows "p = q"
proof -
  have "list_all plain_char (ptID p)" "list_all plain_char (ptID q)"
    using assms(1,2) Identifier_plain by (auto simp: PipelineTarget_Valid_def)
  with assms(3-5) show ?thesis
    by (simp add: pipeline_wire_def json_string_cancel json_string_eq int_str_cancel)
qed

subsection \<open>Canonical digests\<close>

lemma hex_digit_small: "n < 16 \<Longrightarrow> hex_val (hex_digit (int n)) = Some n \<and> lower_hex (hex_digit (int n))"
proof -
  have "list_all (\<lambda>n. hex_val (hex_digit (int n)) = Some n \<and> lower_hex (hex_digit (int n))) [0..<16]" by code_simp
  then show "n < 16 \<Longrightarrow> hex_val (hex_digit (int n)) = Some n \<and> lower_hex (hex_digit (int n))"
    by (simp add: list_all_iff)
qed

lemma lower_hex_digit:
  assumes "lower_hex c"
  shows "\<exists>n < 16. hex_val c = Some n \<and> hex_digit (int n) = c"
proof -
  have a: "list_all (\<lambda>c. lower_hex c \<longrightarrow> c \<in> set (''0123456789abcdef'')) Enum.enum" by code_simp
  have b: "list_all (\<lambda>c. \<exists>n \<in> set [0..<16]. hex_val c = Some n \<and> hex_digit (int n) = c) ''0123456789abcdef''" by code_simp
  have "c \<in> set ''0123456789abcdef''"
    using a [unfolded list_all_iff enum_UNIV, THEN bspec, OF UNIV_I] assms by (rule mp)
  from b [unfolded list_all_iff, THEN bspec, OF this] show ?thesis
    by (simp only: set_upt) (blast dest: atLeastLessThan_iff [THEN iffD1])
qed

lemma hex_val_less: "hex_val c = Some n \<Longrightarrow> n < 16"
  by (auto simp: hex_val_def split: if_splits)

lemma DecodeString_bytes: "DecodeString s = Some b \<Longrightarrow> list_all (\<lambda>n. n < 256) b \<and> length s = 2 * length b"
proof (induction s arbitrary: b rule: DecodeString.induct)
  case (3 x y s)
  then show ?case
    using hex_val_less [of x] hex_val_less [of y] by (fastforce split: option.splits)
qed auto

lemma Decode_Encode: "list_all (\<lambda>n. n < 256) b \<Longrightarrow> DecodeString (EncodeToString b) = Some b"
proof (induction b)
  case (Cons n b)
  then have "n div 16 < 16" by auto
  with Cons show ?case using hex_digit_small [of "n div 16"] hex_digit_small [of "n mod 16"] by simp
qed simp

lemma Encode_lower: "list_all (\<lambda>n. n < 256) b \<Longrightarrow> list_all lower_hex (EncodeToString b)"
proof (induction b)
  case (Cons n b)
  then have "n div 16 < 16" by auto
  with Cons show ?case using hex_digit_small [of "n div 16"] hex_digit_small [of "n mod 16"] by simp
qed simp

lemma Encode_Decode:
  "list_all lower_hex s \<Longrightarrow> even (length s) \<Longrightarrow> \<exists>b. DecodeString s = Some b \<and> EncodeToString b = s"
proof (induction s rule: DecodeString.induct)
  case (3 x y s)
  then obtain b where "DecodeString s = Some b" "EncodeToString b = s" by auto
  moreover obtain m n where "m < 16" "hex_val x = Some m" "hex_digit (int m) = x"
    "n < 16" "hex_val y = Some n" "hex_digit (int n) = y"
    using 3(2) lower_hex_digit [of x] lower_hex_digit [of y] by auto
  ultimately show ?case by simp
qed auto

lemma canonical_digest_iff: "canonical_digest s \<longleftrightarrow> length s = 64 \<and> list_all lower_hex s"
proof
  assume "canonical_digest s"
  then obtain b where b: "DecodeString s = Some b" "length b = 32" "EncodeToString b = s"
    by (auto simp: canonical_digest_def split: option.splits)
  with DecodeString_bytes [OF b(1)] Encode_lower [of b] show "length s = 64 \<and> list_all lower_hex s" by simp
next
  assume s: "length s = 64 \<and> list_all lower_hex s"
  then obtain b where b: "DecodeString s = Some b" "EncodeToString b = s" using Encode_Decode [of s] by auto
  with s DecodeString_bytes [OF b(1)] show "canonical_digest s" by (simp add: canonical_digest_def)
qed

lemma canonical_digest_plain: "canonical_digest s \<Longrightarrow> list_all plain_char s"
  by (auto simp: canonical_digest_iff list_all_iff lower_hex_plain)

text \<open>
  C30: the two checks of a digest agree. Decoding the hexadecimal text of 32 bytes and encoding it again gives
  the text itself exactly for the 64 lower-case hexadecimal digits that the check of the reporting
  values asks for, and every sequence of bytes is read back from its text.
\<close>

theorem digest_checks_agree:
  "canonical_digest s = reportingHash s \<and>
   (list_all (\<lambda>n. n < 256) b \<longrightarrow> DecodeString (EncodeToString b) = Some b)"
  by (simp add: canonical_digest_iff reportingHash_def Decode_Encode)

theorem digest_checks_agree_witness:
  "canonical_digest (replicate 64 (CHR ''f'')) = reportingHash (replicate 64 (CHR ''f'')) \<and>
   DecodeString (EncodeToString [0, 171, 255]) = Some [0, 171, 255]"
  using digest_checks_agree [of "replicate 64 (CHR ''f'')" "[0, 171, 255]"] by simp

subsection \<open>The seal of a manifest\<close>

text \<open>Times with an encoding, and a schedule that is absent or named by an identifier.\<close>

definition sealable :: "job \<Rightarrow> bool" where
  "sealable j \<longleftrightarrow> list_all time_encodable [jobDue j, jobWindowStart j, jobWindowEnd j, jobCutoff j] \<and>
     (jobSchedule j = [] \<or> Identifier (jobSchedule j))"

text \<open>What the format of times promises: printable text, different for different instants.\<close>

definition time_format :: "golib \<Rightarrow> bool" where
  "time_format g \<longleftrightarrow> (\<forall>t. time_encodable t \<longrightarrow> list_all plain_char (RFC3339Nano_text g t)) \<and>
     inj_on (RFC3339Nano_text g) {t. time_encodable t}"

definition manifest_text :: "golib \<Rightarrow> job \<Rightarrow> string" where
  "manifest_text g j = json_text g (JArr (manifest_parts g j))"

definition manifest_tail :: "job \<Rightarrow> json list" where
  "manifest_tail j = (case jobPipeline j of None \<Rightarrow> [] | Some p \<Rightarrow> [pipeline_wire p])
     @ (case jobReporting j of None \<Rightarrow> [] | Some d \<Rightarrow> [dispatch_wire d])"

lemma manifest_text_fields:
  "manifest_text g j =
     CHR ''['' # json_string ''chartworks-operation-v1'' @ CHR '','' # json_string (jobTenant j) @ CHR '','' # json_string (jobID j)
     @ CHR '','' # json_string (jobKind j) @ CHR '','' # json_string (jobBinding j) @ CHR '','' # json_string (jobExecutor j)
     @ CHR '','' # json_string (jobInitiator j) @ CHR '','' # json_string (jobSession j) @ CHR '','' # int_str (jobPolicy j)
     @ CHR '','' # json_string (RFC3339Nano_text g (jobDue j)) @ CHR '','' # json_string (RFC3339Nano_text g (jobWindowStart j))
     @ CHR '','' # json_string (RFC3339Nano_text g (jobWindowEnd j)) @ CHR '','' # json_string (RFC3339Nano_text g (jobCutoff j))
     @ CHR '','' # int_str (jobBatch j) @ CHR '','' # json_string (jobSchedule j) @ CHR '','' # int_str (jobScheduleRevision j)
     @ array_rest g (manifest_tail j)"
  unfolding manifest_text_def manifest_parts_def append_Cons append_Nil array_text array_rest_Cons manifest_tail_def
  unfolding json_text.simps time_wire_def by simp

lemma kind_plain: "job_shape j \<Longrightarrow> list_all plain_char (jobKind j)"
  by (drule job_shape_kind) (elim insertE emptyE; simp only:; code_simp)

lemma sealed_texts_plain:
  assumes "Job_Valid g j" "sealable j" "time_format g"
  shows "list_all plain_char (jobTenant j)" "list_all plain_char (jobID j)" "list_all plain_char (jobKind j)"
    "list_all plain_char (jobBinding j)" "list_all plain_char (jobExecutor j)" "list_all plain_char (jobInitiator j)"
    "list_all plain_char (jobSession j)" "list_all plain_char (jobSchedule j)"
    "list_all plain_char (RFC3339Nano_text g (jobDue j))" "list_all plain_char (RFC3339Nano_text g (jobWindowStart j))"
    "list_all plain_char (RFC3339Nano_text g (jobWindowEnd j))" "list_all plain_char (RFC3339Nano_text g (jobCutoff j))"
  using assms Job_Valid_parts [OF assms(1)]
  by (auto simp: sealable_def time_format_def kind_plain simp del: list_all_append intro: Identifier_plain Executor_plain)

text \<open>The coordinates a manifest fixes.\<close>

definition same_coordinates :: "job \<Rightarrow> job \<Rightarrow> bool" where
  "same_coordinates j k \<longleftrightarrow>
     jobTenant j = jobTenant k \<and> jobID j = jobID k \<and> jobKind j = jobKind k \<and> jobBinding j = jobBinding k \<and>
     jobExecutor j = jobExecutor k \<and> jobInitiator j = jobInitiator k \<and> jobSession j = jobSession k \<and>
     jobPolicy j = jobPolicy k \<and> jobDue j = jobDue k \<and> jobWindowStart j = jobWindowStart k \<and>
     jobWindowEnd j = jobWindowEnd k \<and> jobCutoff j = jobCutoff k \<and> jobBatch j = jobBatch k \<and>
     jobSchedule j = jobSchedule k \<and> jobScheduleRevision j = jobScheduleRevision k"

lemma manifest_text_eq:
  assumes "Job_Valid g j" "Job_Valid g k" "sealable j" "sealable k" "time_format g" "manifest_text g j = manifest_text g k"
  shows "same_coordinates j k" "array_rest g (manifest_tail j) = array_rest g (manifest_tail k)"
proof -
  note p = sealed_texts_plain [OF assms(1,3,5)] sealed_texts_plain [OF assms(2,4,5)]
  have inj: "RFC3339Nano_text g s = RFC3339Nano_text g t \<longleftrightarrow> s = t" if "time_encodable s" "time_encodable t" for s t
    using assms(5) that by (auto simp: time_format_def dest: inj_onD)
  from assms(6) show "same_coordinates j k" "array_rest g (manifest_tail j) = array_rest g (manifest_tail k)"
    using assms(3,4)
    unfolding manifest_text_fields
    by (simp_all add: p json_string_cancel int_str_cancel int_rest_cancel inj sealable_def same_coordinates_def)
qed

lemma manifest_tail_eq:
  assumes "Job_Valid g j" "Job_Valid g k" "jobKind j = jobKind k"
    and "array_rest g (manifest_tail j) = array_rest g (manifest_tail k)"
  shows "jobPipeline j = jobPipeline k"
    "map_option (\<lambda>d. json_text g (dispatch_wire d)) (jobReporting j) = map_option (\<lambda>d. json_text g (dispatch_wire d)) (jobReporting k)"
proof -
  note shape = Job_Valid_parts(4) [OF assms(1)] Job_Valid_parts(4) [OF assms(2)]
  have "jobPipeline j = jobPipeline k \<and>
    map_option (\<lambda>d. json_text g (dispatch_wire d)) (jobReporting j) = map_option (\<lambda>d. json_text g (dispatch_wire d)) (jobReporting k)"
    using shape assms(3,4) pipeline_wire_eq [of _ _ g]
    by (auto simp: job_shape_def manifest_tail_def array_rest_single canonical_digest_plain PipelineTarget_Valid_def
        split: option.splits)
  then show "jobPipeline j = jobPipeline k"
    "map_option (\<lambda>d. json_text g (dispatch_wire d)) (jobReporting j) = map_option (\<lambda>d. json_text g (dispatch_wire d)) (jobReporting k)"
    by simp_all
qed


lemma sample_time_format: "time_format sample_lib"
  using int_str_chars
  by (auto simp: time_format_def sample_lib_def inj_on_def int_str_eq list_all_iff number_char_plain)


subsection \<open>Authority of an invocation\<close>

lemma lift_access_Inr [simp]: "lift_access r = Inr u \<longleftrightarrow> r = Inr u"
  by (simp add: lift_access_def split: sum.splits)

lemma RequestInput_Require_valid: "RequestInput_Require now r e = Inr u \<Longrightarrow> Envelope_Valid now e"
  by (auto simp: RequestInput_Require_def Require_iff Let_def split: if_splits prod.splits)

lemma RequestTask_Require_Inr:
  "RequestTask_Require g now t e = Inr u \<longleftrightarrow>
     RequestTask_Valid g t \<and> rqTenant t = envTenant e \<and> rqActor t = envUser e \<and> rqSession t = envSession e \<and>
     RequestInput_Require now (rqInput t) e = Inr ()"
  by (auto simp: RequestTask_Require_def)

lemma Invocation_Current_Inr:
  "Invocation_Current g now (Invocation l e owned parent) kind target hash = Inr x \<longleftrightarrow>
     x = e \<and> Invocation_Valid g (Invocation l e owned parent) \<and> bound_to l kind target hash \<and>
     RequestTask_Require g now (rlTask l) e = Inr () \<and>
     (\<forall>p. parent = Some p \<longrightarrow> (\<exists>y. Invocation_Current g now p (riKind (rqInput (rlTask (invLease p))))
        (riTarget (rqInput (rlTask (invLease p)))) (riInputHash (rqInput (rlTask (invLease p)))) = Inr y))"
  by (auto simp: Let_def split: option.splits sum.splits)

text \<open>What a current claim without regard to its parent guarantees.\<close>

definition acting :: "golib \<Rightarrow> go_time \<Rightarrow> invocation \<Rightarrow> bool" where
  "acting g now i \<longleftrightarrow>
     (let t = rlTask (invLease i); e = invAuthority i in
      invOwned i \<and> Envelope_Valid now e \<and> RequestTask_Valid g t \<and> rqTenant t = envTenant e \<and> rqActor t = envUser e \<and>
      rqSession t = envSession e \<and> RequestInput_Require now (rqInput t) e = Inr ())"

lemma Invocation_Current_acting:
  assumes "Invocation_Current g now i kind target hash = Inr x"
  shows "x = invAuthority i" "acting g now i" "bound_to (invLease i) kind target hash"
  using assms
  by (cases i; cases "invParent i"; auto simp: Invocation_Current_Inr acting_def Let_def RequestTask_Require_Inr
      owned_claim_def split: if_splits dest: RequestInput_Require_valid)+

text \<open>
  C32: no effect without current authority, and delegation adds none. When a claim is accepted for an effect, the
  envelope it acts under is its own and not expired, its task is intact and belongs to that
  tenant, user and session, the effect is the one the task was admitted for, and the signed scopes cover it at
  this moment. A delegated claim is a block run under a report or dashboard run that is itself accepted
  at this moment in the same tenant, for the same user and session, and that was not delegated in turn.
\<close>

theorem invocation_authority:
  assumes "Invocation_Current g now i kind target hash = Inr e"
  shows "e = invAuthority i \<and> acting g now i \<and> bound_to (invLease i) kind target hash \<and>
    (\<forall>p. invParent i = Some p \<longrightarrow>
       invParent p = None \<and> acting g now p \<and> root_kind (invLease p) \<and> kind = ''reporting.run'' \<and>
       envTenant (invAuthority p) = envTenant e \<and> envUser (invAuthority p) = envUser e \<and>
       envSession (invAuthority p) = envSession e)"
proof -
  note own = Invocation_Current_acting [OF assms]
  have "invParent p = None \<and> acting g now p \<and> root_kind (invLease p) \<and> kind = ''reporting.run'' \<and>
       envTenant (invAuthority p) = envTenant e \<and> envUser (invAuthority p) = envUser e \<and>
       envSession (invAuthority p) = envSession e" if p: "invParent i = Some p" for p
  proof -
    obtain l a w where i: "i = Invocation l a w (Some p)" using p by (cases i) auto
    from assms have v: "Invocation_Valid g (Invocation l a w (Some p))"
      and "\<exists>y k t h. Invocation_Current g now p k t h = Inr y"
      unfolding i Invocation_Current_Inr by blast+
    then have "acting g now p" using Invocation_Current_acting(2) by blast
    with v own show ?thesis
      by (auto simp: i acting_def Let_def bound_to_def split: if_splits)
  qed
  with own show ?thesis by blast
qed

subsection \<open>From an occurrence to its effect\<close>

lemma dispatch_invocation_Inr:
  assumes "dispatch_invocation kind g now proof l t = Inr ivc"
  obtains d where "rqDispatch t = Some d" "AssertExecution g now proof (jlJob l) = Inr ()" "jobKind (jlJob l) = kind"
    "RequestTask_Valid g t" "jobManifest d = jobManifest (jlJob l)" "Invocation_Valid g ivc"
    "ivc = Invocation \<lparr>rlTask = t, rlOwner = jlOwner l, rlFence = jlFence l, rlAttempt = jlAttempt l, rlUntil = jlUntil l\<rparr>
       (epEnvelope proof) True None"
  using assms by (auto simp: dispatch_invocation_def Let_def is_ok_iff split: option.splits if_splits)

lemma dispatched_task:
  assumes "RequestTask_Valid g t" "rqDispatch t = Some d"
  shows "Job_Valid g d" "rqSession t = jobID d" "rqActor t = jobExecutor d" "rqTenant t = jobTenant d"
    "jobKind d = ''pipeline.run'' \<Longrightarrow> jobPipeline d = Some p \<Longrightarrow>
       rqInput t = \<lparr>riKind = ''pipeline.run'', riTarget = ptID p, riContext = [], riInputHash = ptDigest p\<rparr>"
  using assms by (auto simp: RequestTask_Valid_def validDispatchedRequest_def split: if_splits option.splits)


definition sample_task :: request_task where
  "sample_task =
     \<lparr>rqID = ''job1'', rqTenant = ''acme'', rqActor = ''svc:chartworks:nightly'', rqSession = ''job1'',
      rqInput = \<lparr>riKind = ''pipeline.run'', riTarget = ''p1'', riContext = [], riInputHash = replicate 64 (CHR ''a'')\<rparr>,
      rqState = Running, rqCode = [], rqAttempts = 1, rqMaxAttempts = 3, rqCreated = 5, rqExpires = 90,
      rqManifest = jobManifest sample_job, rqDispatch = Some sample_job\<rparr>"

definition sample_envelope :: envelope where
  "sample_envelope =
     (case FromVerified 0 ''acme'' ''svc:chartworks:nightly'' ''job1'' sample_scopes 100 of Inl _ \<Rightarrow> zero_envelope | Inr e \<Rightarrow> e)"

lemma sample_envelope_code [code]:
  "sample_envelope =
     \<lparr>envTenant = ''acme'', envUser = ''svc:chartworks:nightly'', envSession = ''job1'', envScopes = sample_scopes,
      envReach = [\<lparr>reachKind = ''source'', reachPermission = ''write'', reachID = ''p1''\<rparr>,
        \<lparr>reachKind = ''execution_binding'', reachPermission = ''use'', reachID = ''nightly''\<rparr>,
        \<lparr>reachKind = ''run'', reachPermission = ''execute'', reachID = ''job1''\<rparr>], envUntil = 100, envClock = True\<rparr>"
  by code_simp

definition sample_proof :: exec_proof where
  "sample_proof = \<lparr>epEnvelope = sample_envelope, epBinding = ''nightly'', epJob = ''job1'', epManifest = jobManifest sample_job\<rparr>"

definition sample_job_lease :: job_lease where
  "sample_job_lease = \<lparr>jlJob = sample_job, jlOwner = ''w1'', jlFence = 1, jlAttempt = 1, jlUntil = 50\<rparr>"

lemma sample_assert: "AssertExecution sample_lib 8 sample_proof sample_job = Inr ()"
  unfolding AssertExecution_iff by (intro conjI sample_job_valid) code_simp+

lemma sample_task_fields:
  "rqDispatch sample_task = Some sample_job" "jlJob sample_job_lease = sample_job" "epEnvelope sample_proof = sample_envelope"
  by (simp_all only: sample_task_def sample_job_lease_def sample_proof_def request_task.simps job_lease.simps exec_proof.simps)

lemma sample_pipeline: "jobPipeline sample_job = Some \<lparr>ptID = ''p1'', ptVersion = 2, ptDigest = replicate 64 (CHR ''a'')\<rparr>"
  by (simp add: sample_job_def seal_def unsealed_job_def)

lemma sample_task_valid: "RequestTask_Valid sample_lib sample_task"
proof -
  have j: "jobKind sample_job = ''pipeline.run''" "rqID sample_task = jobID sample_job" "rqTenant sample_task = jobTenant sample_job"
    "rqActor sample_task = jobExecutor sample_job" "rqSession sample_task = jobID sample_job"
    "rqMaxAttempts sample_task = jobMaxAttempts sample_job" "rqManifest sample_task = jobManifest sample_job"
    "rqCreated sample_task \<noteq> zero_time" "rqExpires sample_task > rqCreated sample_task"
    "rqInput sample_task = \<lparr>riKind = ''pipeline.run'', riTarget = ''p1'', riContext = [], riInputHash = replicate 64 (CHR ''a'')\<rparr>"
    "Identifier (jobExecutor sample_job)" "RequestInput_Valid (rqInput sample_task)"
    "1 \<le> jobMaxAttempts sample_job" "jobMaxAttempts sample_job \<le> 8" "0 \<le> rqAttempts sample_task" "rqAttempts sample_task \<le> jobMaxAttempts sample_job"
    by code_simp+
  then show ?thesis
    using sample_job_valid Job_Valid_parts [OF sample_job_valid]
    by (simp add: RequestTask_Valid_def validDispatchedRequest_def RequestTask_Digest_def sample_task_fields sample_pipeline)
qed


definition sample_child :: "invocation \<Rightarrow> invocation" where
  "sample_child p = Invocation
     \<lparr>rlTask = (let t = \<lparr>rqID = ''r2'', rqTenant = ''acme'', rqActor = ''ana'', rqSession = ''s1'',
          rqInput = \<lparr>riKind = ''reporting.run'', riTarget = ''b1'', riContext = [], riInputHash = replicate 64 (CHR ''c'')\<rparr>,
          rqState = Running, rqCode = [], rqAttempts = 1, rqMaxAttempts = 3, rqCreated = 5, rqExpires = 90,
          rqManifest = [], rqDispatch = None\<rparr> in t\<lparr>rqManifest := RequestTask_Digest sample_lib t\<rparr>),
      rlOwner = ''w1'', rlFence = 1, rlAttempt = 1, rlUntil = 50\<rparr> (invAuthority p) True (Some p)"

definition sample_parent :: invocation where
  "sample_parent = Invocation
     \<lparr>rlTask = (let t = \<lparr>rqID = ''r1'', rqTenant = ''acme'', rqActor = ''ana'', rqSession = ''s1'',
          rqInput = \<lparr>riKind = ''report.run'', riTarget = ''weekly'', riContext = [], riInputHash = replicate 64 (CHR ''b'')\<rparr>,
          rqState = Running, rqCode = [], rqAttempts = 1, rqMaxAttempts = 3, rqCreated = 5, rqExpires = 90,
          rqManifest = [], rqDispatch = None\<rparr> in t\<lparr>rqManifest := RequestTask_Digest sample_lib t\<rparr>),
      rlOwner = ''w1'', rlFence = 1, rlAttempt = 1, rlUntil = 50\<rparr>
     (case FromVerified 0 ''acme'' ''ana'' ''s1'' [''reporting.execute'', ''cw.report.execute:weekly'', ''cw.block.execute:b1''] 100 of
        Inl _ \<Rightarrow> zero_envelope | Inr e \<Rightarrow> e) True None"

theorem invocation_authority_witness:
  "Invocation_Current sample_lib 8 (sample_child sample_parent) ''reporting.run'' ''b1'' (replicate 64 (CHR ''c''))
     = Inr (invAuthority sample_parent) \<and>
   acting sample_lib 8 sample_parent \<and> envUser (invAuthority sample_parent) = ''ana''"
proof -
  have c: "Invocation_Current sample_lib 8 (sample_child sample_parent) ''reporting.run'' ''b1'' (replicate 64 (CHR ''c''))
     = Inr (invAuthority sample_parent)"
    by code_simp
  have "envUser (invAuthority sample_parent) = ''ana''" by code_simp
  moreover have "invParent (sample_child sample_parent) = Some sample_parent" by (simp add: sample_child_def)
  ultimately show ?thesis using invocation_authority [OF c] c by blast
qed

end
