(* ===== verification/Queue.thy ===== *)
theory Queue
  imports Jobs
begin

text \<open>
  The durable job queue (\<^verbatim>\<open>internal/store/postgres/jobs.go\<close>) on top of the operation ledger: the pinned
  queue limits, admission under the capacity bounds, listing, cancellation, claiming under the
  concurrency bounds, heartbeat, failure and completion. The mutable columns of the table of operations are the rows
  of the ledger; the columns a queued row adds, which no statement changes, are a second list with the same
  key. Database times are microseconds, Go times nanoseconds. Admission runs under one advisory lock, so
  the handlers of a run are a sequence. Reporting definitions are resolved by a function the handlers take as
  an argument; column checks that the inserted values satisfy by construction are not repeated.
\<close>

subsection \<open>Tables\<close>

record job_columns =
  jcTenant :: string
  jcID :: string
  jcBinding :: string
  jcInitiator :: string
  jcSession :: string
  jcDue :: int
  jcWindowStart :: int
  jcWindowEnd :: int
  jcSchedule :: "string option"
  jcScheduleRevision :: "int option"
  jcDispatch :: "job option"
  jcRequest :: "request_input option"
  jcParent :: "string option"
  jcParentFence :: "int option"
  jcCreated :: int

record pipeline_version_row =
  pvTenant :: string
  pvPipeline :: string
  pvVersion :: int
  pvPublished :: bool
  pvManifest :: string

record delivery_row =
  dvTenant :: string
  dvOp :: string
  dvKind :: string
  dvQueryLimit :: int
  dvCallLimit :: int
  dvTokenLimit :: int

record schedule_request =
  srTarget :: submission
  srSpec :: spec

record schedule_row =
  shTenant :: string
  shID :: string
  shRevision :: int
  shEnabled :: bool
  shCreator :: string
  shSession :: string
  shKey :: string
  shRequest :: schedule_request
  shPrevious :: "int option"
  shNext :: "int option"
  shRetired :: bool
  shChange :: "(string \<times> string \<times> string \<times> int) option"

record history_row =
  hrTenant :: string
  hrSchedule :: string
  hrRevision :: int
  hrEnabled :: bool
  hrRetired :: bool
  hrRequest :: schedule_request
  hrRecorded :: int

record occurrence_row =
  ocTenant :: string
  ocSchedule :: string
  ocDue :: int
  ocWindowStart :: int
  ocWindowEnd :: int
  ocThrough :: "int option"
  ocDisposition :: string
  ocOp :: "string option"

record route_row =
  rtwTenant :: string
  rtwSchedule :: string
  rtwStream :: string
  rtwCohort :: string
  rtwRevision :: int

record cutover_row =
  cuTenant :: string
  cuCohort :: string
  cuRoute :: string
  cuGeneration :: int
  cuStream :: string
  cuResumeAfter :: int

record admission_row =
  amTenant :: string
  amStream :: string
  amDue :: int
  amCohort :: string
  amGeneration :: int
  amSchedule :: string

record bundle_row =
  bnTenant :: string
  bnActor :: string
  bnSession :: string
  bnID :: string
  bnUntil :: int

text \<open>
  \<open>qLimits\<close> is the single row of queue limits: the fingerprint and the time zone database, if known;
  \<open>qReports\<close> are tenant and identifier of the reports that are neither archived nor deleted.
\<close>

record queue_db =
  qLedger :: database
  qColumns :: "job_columns list"
  qLimits :: "(string \<times> string option) option"
  qPipelines :: "pipeline_version_row list"
  qDeliveries :: "delivery_row list"
  qSchedules :: "schedule_row list"
  qHistory :: "history_row list"
  qReports :: "(string \<times> string) list"
  qOccurrences :: "occurrence_row list"
  qRoutes :: "route_row list"
  qCutovers :: "cutover_row list"
  qAdmissions :: "admission_row list"
  qBundles :: "bundle_row list"

definition q_transaction :: "(queue_db \<Rightarrow> fault + 'a \<times> queue_db) \<Rightarrow> queue_db \<Rightarrow> (fault + 'a) \<times> queue_db" where
  "q_transaction fn d = (case fn d of Inl err \<Rightarrow> (Inl err, d) | Inr (x, d') \<Rightarrow> (Inr x, d'))"

text \<open>A transition of the ledger inside a transaction of the queue.\<close>

definition on_ledger :: "(database \<Rightarrow> store_error + 'a \<times> database) \<Rightarrow> queue_db \<Rightarrow> fault + 'a \<times> queue_db" where
  "on_ledger fn d = (case fn (qLedger d) of Inl err \<Rightarrow> Inl (FStore err) | Inr (x, l) \<Rightarrow> Inr (x, d\<lparr>qLedger := l\<rparr>))"

definition columns_of :: "queue_db \<Rightarrow> op_row \<Rightarrow> job_columns option" where
  "columns_of d r = find (\<lambda>c. jcTenant c = opTenant r \<and> jcID c = opID r) (qColumns d)"

abbreviation q_ops :: "queue_db \<Rightarrow> op_row list" where
  "q_ops d \<equiv> dbOps (qLedger d)"

subsection \<open>Reading jobs\<close>

definition row_job :: "op_row \<Rightarrow> job_columns \<Rightarrow> job" where
  "row_job r c =
     \<lparr>jobDelivery = None, jobID = opID r, jobTenant = opTenant r, jobKind = opKind r, jobBinding = jcBinding c,
      jobExecutor = opActor r, jobInitiator = jcInitiator c, jobSession = jcSession c, jobState = opStatus r, jobError = opError r,
      jobPolicy = opPolicy r, jobDue = 1000 * jcDue c, jobWindowStart = 1000 * jcWindowStart c,
      jobWindowEnd = 1000 * jcWindowEnd c, jobCutoff = 1000 * opCutoff r, jobBatch = opLimit r, jobAttempts = opAttempts r,
      jobMaxAttempts = opMaxAttempts r, jobSchedule = (case jcSchedule c of None \<Rightarrow> [] | Some x \<Rightarrow> x),
      jobScheduleRevision = (case jcScheduleRevision c of None \<Rightarrow> 0 | Some x \<Rightarrow> x),
      jobManifest = (case opManifest r of None \<Rightarrow> [] | Some x \<Rightarrow> x),
      jobDeletedEvents = opDeletedEvents r, jobDeletedOps = opDeletedOps r, jobPipeline = None, jobReporting = None\<rparr>"

text \<open>\<^verbatim>\<open>scanJob\<close>: a row without its columns is not a queued row.\<close>

definition scanJob :: "golib \<Rightarrow> queue_db \<Rightarrow> op_row \<Rightarrow> fault + job" where
  "scanJob g d r =
     (case columns_of d r of
        None \<Rightarrow> Inl (FStore StoreErrUnavailable)
      | Some c \<Rightarrow>
          let j = row_job r c in
          (case jcDispatch c of
             None \<Rightarrow> Inr j
           | Some accepted \<Rightarrow>
               if \<not> Job_Valid g accepted then Inl (FStore StoreErrInvalid)
               else
                 let j = j\<lparr>jobPipeline := jobPipeline accepted, jobReporting := jobReporting accepted\<rparr> in
                 if Job_Digest g j \<noteq> jobManifest accepted \<or> jobManifest j \<noteq> jobManifest accepted then Inl (FStore StoreErrInvalid)
                 else Inr j))"

subsection \<open>Queue limits and capacity\<close>

definition calendars_Version :: string where
  "calendars_Version = ''go1.26.4-sha256:8f55634d05f8bca1f7bc7c69c5933428c69357e0bdf565e5ba224e3f88ff12e8''"

definition queueLock :: "golib \<Rightarrow> limits \<Rightarrow> queue_db \<Rightarrow> fault + queue_db" where
  "queueLock g l d =
     (if \<not> is_ok (Limits_Validate l) then Inl (FJobs JInvalid)
      else
        let row = (case qLimits d of None \<Rightarrow> (QueueFingerprint g l, None) | Some row \<Rightarrow> row);
            zone = (case snd row of None \<Rightarrow> calendars_Version | Some v \<Rightarrow> v)
        in if zone \<noteq> calendars_Version then Inl (FStore StoreErrConflict)
           else if fst row \<noteq> QueueFingerprint g l then Inl (FStore StoreErrConflict)
           else Inr (d\<lparr>qLimits := Some (fst row, Some zone)\<rparr>))"

definition ConfigureQueue :: "golib \<Rightarrow> limits \<Rightarrow> queue_db \<Rightarrow> (fault + unit) \<times> queue_db" where
  "ConfigureQueue g l = q_transaction (\<lambda>d. case queueLock g l d of Inl err \<Rightarrow> Inl err | Inr d \<Rightarrow> Inr ((), d))"

text \<open>Rows of the two dispatched modes; those a live parent already accounts for are not roots.\<close>

definition dispatched_mode :: "op_row \<Rightarrow> bool" where
  "dispatched_mode r \<longleftrightarrow> opMode r = ''queued'' \<or> opMode r = ''request''"

definition live :: "int \<Rightarrow> op_row \<Rightarrow> bool" where
  "live now r \<longleftrightarrow> opStatus r = Running \<and> (case opUntil r of None \<Rightarrow> False | Some t \<Rightarrow> t > now) \<and> opExpires r > now"

definition parent_live :: "int \<Rightarrow> queue_db \<Rightarrow> op_row \<Rightarrow> bool" where
  "parent_live now d r =
     (case columns_of d r of
        None \<Rightarrow> False
      | Some c \<Rightarrow> list_ex (\<lambda>p. opTenant p = opTenant r \<and> jcParent c = Some (opID p) \<and>
            (case columns_of d p of None \<Rightarrow> True | Some pc \<Rightarrow> jcParent pc = None) \<and>
            live now p \<and> jcParentFence c = Some (opFence p)) (q_ops d))"

definition active_root :: "int \<Rightarrow> queue_db \<Rightarrow> op_row \<Rightarrow> bool" where
  "active_root now d r \<longleftrightarrow> dispatched_mode r \<and> live now r \<and> \<not> parent_live now d r"

definition has_parent :: "queue_db \<Rightarrow> op_row \<Rightarrow> bool" where
  "has_parent d r = (case columns_of d r of None \<Rightarrow> False | Some c \<Rightarrow> jcParent c \<noteq> None)"

definition pending_root :: "int \<Rightarrow> queue_db \<Rightarrow> op_row \<Rightarrow> bool" where
  "pending_root now d r \<longleftrightarrow> dispatched_mode r \<and> opStatus r \<in> {Pending, Retry, Running} \<and>
     (\<not> has_parent d r \<or> live now r \<and> \<not> parent_live now d r)"

definition roots :: "(op_row \<Rightarrow> bool) \<Rightarrow> queue_db \<Rightarrow> int" where
  "roots p d = int (length (filter p (q_ops d)))"

definition queueCapacity :: "int \<Rightarrow> string \<Rightarrow> limits \<Rightarrow> queue_db \<Rightarrow> fault + unit" where
  "queueCapacity now tenant l d =
     (if roots (pending_root now d) d \<ge> MaxPending l \<or>
         roots (\<lambda>r. pending_root now d r \<and> opTenant r = tenant) d \<ge> MaxPendingPerTenant l
      then Inl (FJobs JBusy) else Inr ())"

definition digestValue :: "golib \<Rightarrow> json \<Rightarrow> string" where
  "digestValue g v = sha256_hex g (json_text g v)"

definition auditJob :: "string \<Rightarrow> int \<Rightarrow> store_scope \<Rightarrow> string \<Rightarrow> string \<Rightarrow> queue_db \<Rightarrow> fault + queue_db" where
  "auditJob event now s action ident d =
     (case insert_audit \<lparr>auTenant = scopeTenant s, auID = event, auActor = scopeActor s, auAction = action,
              auResource = ident, auOp = None, auCreated = now\<rparr> (qLedger d) of
        Inl err \<Rightarrow> Inl (FStore err)
      | Inr l \<Rightarrow> Inr (d\<lparr>qLedger := l\<rparr>))"

subsection \<open>Wire form of a job\<close>

definition status_text :: "op_status \<Rightarrow> string" where
  "status_text st = (case st of Pending \<Rightarrow> ''pending'' | Running \<Rightarrow> ''running'' | Retry \<Rightarrow> ''retry'' | Succeeded \<Rightarrow> ''succeeded''
     | Expired \<Rightarrow> ''expired'' | Failed \<Rightarrow> ''failed'' | Blocked \<Rightarrow> ''blocked'' | Cancelled \<Rightarrow> ''cancelled'')"

definition receipt_wire :: "reporting_receipt \<Rightarrow> json" where
  "receipt_wire r = JObj ([(''query'', JStr (rcQuery r)), (''artifact'', JStr (rcArtifact r)), (''catalog'', JStr (rcCatalog r)),
     (''notification'', JStr (rcNotification r))] @ opt_str ''artifact_id'' (rcArtifactID r)
     @ [(''kind'', JStr (rcKind r)), (''reserved'', JObj [(''queries'', JInt (chQueries (rcReserved r))),
        (''model_calls'', JInt (chModelCalls (rcReserved r))), (''model_tokens'', JInt (chModelTokens (rcReserved r)))])])"

definition job_wire :: "golib \<Rightarrow> job \<Rightarrow> json" where
  "job_wire g j = JObj (opt_ptr ''delivery'' (map_option receipt_wire (jobDelivery j))
     @ [(''id'', JStr (jobID j)), (''tenant'', JStr (jobTenant j)), (''kind'', JStr (jobKind j)), (''binding_id'', JStr (jobBinding j)),
        (''executor'', JStr (jobExecutor j)), (''initiator'', JStr (jobInitiator j)), (''initiator_session'', JStr (jobSession j)),
        (''state'', JStr (status_text (jobState j)))]
     @ opt_str ''error_code'' (jobError j)
     @ [(''policy_revision'', JInt (jobPolicy j)), (''due_at'', time_wire g (jobDue j)), (''window_start'', time_wire g (jobWindowStart j)),
        (''window_end'', time_wire g (jobWindowEnd j)), (''cutoff'', time_wire g (jobCutoff j)), (''batch'', JInt (jobBatch j)),
        (''attempts'', JInt (jobAttempts j)), (''max_attempts'', JInt (jobMaxAttempts j))]
     @ opt_str ''schedule_id'' (jobSchedule j) @ opt_int ''schedule_revision'' (jobScheduleRevision j)
     @ [(''manifest_hash'', JStr (jobManifest j)), (''deleted_events'', JInt (jobDeletedEvents j)),
        (''deleted_operations'', JInt (jobDeletedOps j))]
     @ opt_ptr ''pipeline'' (map_option pipeline_wire (jobPipeline j)) @ opt_ptr ''reporting'' (map_option dispatch_wire (jobReporting j)))"

text \<open>\<^verbatim>\<open>Truncate(time.Microsecond)\<close>.\<close>

definition micro :: "go_time \<Rightarrow> go_time" where
  "micro t = t - t mod 1000"

definition reportingWindow :: "job \<Rightarrow> reporting_dispatch \<Rightarrow> bool" where
  "reportingWindow j dsp \<longleftrightarrow> jobDue j \<noteq> zero_time \<and> jobWindowEnd j = jobDue j \<and> \<not> jobWindowStart j > jobWindowEnd j \<and>
     jobDue j = micro (jobDue j) \<and> \<not> contains (rtTimezone (rdTarget dsp)) ''..''"

definition reportingDispatchJSON :: "golib \<Rightarrow> job \<Rightarrow> fault + job \<times> request_input" where
  "reportingDispatchJSON g j =
     (case jobReporting j of
        None \<Rightarrow> Inl (FJobs JInvalid)
      | Some dsp \<Rightarrow>
          if jobKind j \<noteq> ''reporting.scheduled'' \<or> rdInput dsp \<noteq> ReportingInput g j \<or> \<not> Job_Valid g j \<or> \<not> reportingWindow j dsp
          then Inl (FJobs JInvalid)
          else if \<not> list_all time_encodable [jobDue j, jobWindowStart j, jobWindowEnd j, jobCutoff j] \<or> json_len g (job_wire g j) > 64 * 2 ^ 10
          then Inl (FJobs JInvalid)
          else Inr (j, rdInput dsp))"

subsection \<open>Admission\<close>

definition client_key :: "golib \<Rightarrow> store_scope \<Rightarrow> string \<Rightarrow> string" where
  "client_key g s key = digestValue g (JArr [JStr ''queued-v1'', JStr (scopeActor s), JStr key])"

definition request_hash :: "golib \<Rightarrow> submission \<Rightarrow> limits \<Rightarrow> string \<Rightarrow> int \<Rightarrow> string" where
  "request_hash g request l sid srev = digestValue g (JArr [submission_wire request, JInt (Batch l), JStr sid, JInt srev])"

definition initiated_by :: "queue_db \<Rightarrow> string \<Rightarrow> op_row \<Rightarrow> bool" where
  "initiated_by d actor r = (case columns_of d r of None \<Rightarrow> False | Some c \<Rightarrow> jcInitiator c = actor)"

definition accepted_row :: "queue_db \<Rightarrow> store_scope \<Rightarrow> string \<Rightarrow> string \<Rightarrow> op_row \<Rightarrow> bool" where
  "accepted_row d s kind key r \<longleftrightarrow> opTenant r = scopeTenant s \<and> initiated_by d (scopeActor s) r \<and> opKind r = kind \<and>
     opKey r = key \<and> opMode r = ''queued''"

definition of_schedule :: "queue_db \<Rightarrow> string \<Rightarrow> op_row \<Rightarrow> bool" where
  "of_schedule d sid r = (case columns_of d r of None \<Rightarrow> False | Some c \<Rightarrow> jcSchedule c = Some sid)"

definition activeSchedule :: "string \<Rightarrow> string \<Rightarrow> queue_db \<Rightarrow> bool" where
  "activeSchedule tenant sid d = list_ex (\<lambda>r. opTenant r = tenant \<and> of_schedule d sid r \<and> opMode r = ''queued'' \<and>
     opStatus r \<in> {Pending, Retry, Running}) (q_ops d)"

definition schedule_named :: "string \<Rightarrow> string \<Rightarrow> schedule_row \<Rightarrow> bool" where
  "schedule_named tenant sid sh \<longleftrightarrow> shTenant sh = tenant \<and> shID sh = sid"

definition overlap_guard :: "string \<Rightarrow> string \<Rightarrow> queue_db \<Rightarrow> fault + unit" where
  "overlap_guard tenant sid d =
     (if sid = [] then Inr ()
      else case find (schedule_named tenant sid) (qSchedules d) of
             None \<Rightarrow> Inl (FStore StoreErrNotFound)
           | Some sh \<Rightarrow>
               if Overlap (srSpec (shRequest sh)) = ''skip'' \<and> activeSchedule tenant sid d then Inl (FStore StoreErrConflict)
               else Inr ())"

text \<open>The job before its reporting target is resolved and its manifest sealed.\<close>

definition base_job ::
  "string \<Rightarrow> store_scope \<Rightarrow> string \<Rightarrow> submission \<Rightarrow> limits \<Rightarrow> go_time \<Rightarrow> go_time \<Rightarrow> string \<Rightarrow> int \<Rightarrow> revision_row \<Rightarrow> job" where
  "base_job newid s session request l due start sid srev rv =
     \<lparr>jobDelivery = None, jobID = newid, jobTenant = scopeTenant s, jobKind = subKind request, jobBinding = subBinding request,
      jobExecutor = Executor (subBinding request), jobInitiator = scopeActor s, jobSession = session, jobState = Pending,
      jobError = [], jobPolicy = rvRevision rv, jobDue = micro due, jobWindowStart = micro start, jobWindowEnd = micro due,
      jobCutoff = micro due - rvAuditDays rv * 24 * 3600 * second, jobBatch = Batch l, jobAttempts = 0,
      jobMaxAttempts = MaxAttempts l, jobSchedule = sid, jobScheduleRevision = srev, jobManifest = [], jobDeletedEvents = 0,
      jobDeletedOps = 0, jobPipeline = subPipeline request, jobReporting = None\<rparr>"

definition seal_job ::
  "golib \<Rightarrow> (string \<Rightarrow> reporting_target \<Rightarrow> fault + reporting_dispatch) \<Rightarrow> submission \<Rightarrow> job \<Rightarrow> fault + job" where
  "seal_job g resolve request j =
     (case (case subReporting request of
              None \<Rightarrow> Inr j
            | Some t \<Rightarrow>
                (case resolve (jobTenant j) t of
                   Inl err \<Rightarrow> Inl err
                 | Inr dsp \<Rightarrow> Inr (j\<lparr>jobReporting := Some (dsp\<lparr>rdInput := ReportingInput g (j\<lparr>jobReporting := Some dsp\<rparr>)\<rparr>)\<rparr>))) of
        Inl err \<Rightarrow> Inl err
      | Inr j \<Rightarrow>
          let j = seal g j in if \<not> Job_Valid g j then Inl (FJobs JInvalid) else Inr j)"

text \<open>The retained manifest and request input: none for a sweep; a pipeline must be the published version.\<close>

definition dispatch_columns :: "golib \<Rightarrow> job \<Rightarrow> queue_db \<Rightarrow> fault + (job option \<times> request_input option)" where
  "dispatch_columns g j d =
     (case jobReporting j of
        Some _ \<Rightarrow> (case reportingDispatchJSON g j of Inl err \<Rightarrow> Inl err | Inr (m, i) \<Rightarrow> Inr (Some m, Some i))
      | None \<Rightarrow>
          (case jobPipeline j of
             None \<Rightarrow> Inr (None, None)
           | Some p \<Rightarrow>
               (case find (\<lambda>v. pvTenant v = jobTenant j \<and> pvPipeline v = ptID p \<and> pvVersion v = ptVersion p) (qPipelines d) of
                  None \<Rightarrow> Inl (FStore StoreErrNotFound)
                | Some v \<Rightarrow>
                    if \<not> (pvPublished v \<and> pvManifest v = ptDigest p) then Inl (FStore StoreErrConflict)
                    else Inr (Some j, Some \<lparr>riKind = ''pipeline.run'', riTarget = ptID p, riContext = [], riInputHash = ptDigest p\<rparr>))))"

definition job_row :: "int \<Rightarrow> int \<Rightarrow> string \<Rightarrow> string \<Rightarrow> job \<Rightarrow> op_row" where
  "job_row now hours key hash j =
     \<lparr>opTenant = jobTenant j, opID = jobID j, opActor = jobExecutor j, opKind = jobKind j, opMode = ''queued'', opKey = key,
      opHash = hash, opPolicy = jobPolicy j, opCutoff = jobCutoff j div 1000, opLimit = jobBatch j, opExpires = now + hours * hour,
      opStatus = Pending, opFence = 0, opOwner = None, opUntil = None, opFinished = None, opDeletedEvents = 0, opDeletedOps = 0,
      opManifest = Some (jobManifest j), opAttempts = 0, opMaxAttempts = jobMaxAttempts j, opNextAttempt = jobDue j div 1000,
      opError = []\<rparr>"

definition columns_row :: "int \<Rightarrow> job option \<Rightarrow> request_input option \<Rightarrow> job \<Rightarrow> job_columns" where
  "columns_row now m i j =
     \<lparr>jcTenant = jobTenant j, jcID = jobID j, jcBinding = jobBinding j, jcInitiator = jobInitiator j, jcSession = jobSession j,
      jcDue = jobDue j div 1000, jcWindowStart = jobWindowStart j div 1000, jcWindowEnd = jobDue j div 1000,
      jcSchedule = (if jobSchedule j = [] then None else Some (jobSchedule j)),
      jcScheduleRevision = (if jobScheduleRevision j = 0 then None else Some (jobScheduleRevision j)),
      jcDispatch = m, jcRequest = i, jcParent = None, jcParentFence = None, jcCreated = now\<rparr>"

text \<open>The primary key and the unique indexes on a key within an actor and within an initiator.\<close>

definition insert_job ::
  "int \<Rightarrow> int \<Rightarrow> string \<Rightarrow> string \<Rightarrow> job option \<Rightarrow> request_input option \<Rightarrow> job \<Rightarrow> queue_db \<Rightarrow> fault + queue_db" where
  "insert_job now hours key hash m i j d =
     (if list_ex (\<lambda>r. opTenant r = jobTenant j \<and>
           (opID r = jobID j \<or> opActor r = jobExecutor j \<and> opKind r = jobKind j \<and> opKey r = key \<or>
            opMode r = ''queued'' \<and> initiated_by d (jobInitiator j) r \<and> opKey r = key)) (q_ops d)
      then Inl (FStore StoreErrConflict)
      else Inr (d\<lparr>qLedger := (qLedger d)\<lparr>dbOps := q_ops d @ [job_row now hours key hash j]\<rparr>,
                  qColumns := qColumns d @ [columns_row now m i j]\<rparr>))"

definition insertReportingDelivery :: "job \<Rightarrow> queue_db \<Rightarrow> fault + queue_db" where
  "insertReportingDelivery j d =
     (case jobReporting j of
        None \<Rightarrow> Inr d
      | Some dsp \<Rightarrow>
          if jobKind j \<noteq> ''reporting.scheduled'' then Inr d
          else if list_ex (\<lambda>v. dvTenant v = jobTenant j \<and> dvOp v = jobID j) (qDeliveries d) then Inl (FStore StoreErrConflict)
          else
            let b = rtBudget (rdTarget dsp) in
            Inr (d\<lparr>qDeliveries := qDeliveries d @ [\<lparr>dvTenant = jobTenant j, dvOp = jobID j, dvKind = ResourceKind (rdTarget dsp),
                     dvQueryLimit = QueryAttempts b, dvCallLimit = ModelCalls b, dvTokenLimit = ModelTokens b\<rparr>]\<rparr>))"

text \<open>What the handlers read from outside: fresh identifiers, the clock, and the resolver of reporting targets.\<close>

record ambient =
  newID :: string
  eventID :: string
  clock :: int
  resolver :: "string \<Rightarrow> reporting_target \<Rightarrow> fault + reporting_dispatch"

definition admit_new ::
  "golib \<Rightarrow> ambient \<Rightarrow> store_scope \<Rightarrow> string \<Rightarrow> string \<Rightarrow> submission \<Rightarrow> limits \<Rightarrow> go_time \<Rightarrow> go_time \<Rightarrow> string \<Rightarrow> int
   \<Rightarrow> queue_db \<Rightarrow> fault + job \<times> queue_db" where
  "admit_new g a s session key request l due start sid srev d =
     (case overlap_guard (scopeTenant s) sid d of Inl err \<Rightarrow> Inl err | Inr _ \<Rightarrow>
     (case queueCapacity (clock a) (scopeTenant s) l d of Inl err \<Rightarrow> Inl err | Inr _ \<Rightarrow>
     (case current_policy (scopeTenant s) (qLedger d) of None \<Rightarrow> Inl (FStore StoreErrNotFound) | Some rv \<Rightarrow>
     (case seal_job g (resolver a) request (base_job (newID a) s session request l due start sid srev rv) of
        Inl err \<Rightarrow> Inl err
      | Inr j \<Rightarrow>
     (case dispatch_columns g j d of Inl err \<Rightarrow> Inl err | Inr (m, i) \<Rightarrow>
     (case insert_job (clock a) (rvOperationHours rv) (client_key g s key) (request_hash g request l sid srev) m i j d of
        Inl err \<Rightarrow> Inl err
      | Inr d \<Rightarrow>
     (case insertReportingDelivery j d of Inl err \<Rightarrow> Inl err | Inr d \<Rightarrow>
     (case auditJob (eventID a) (clock a) s ''job.accepted'' (jobID j) d of Inl err \<Rightarrow> Inl err | Inr d \<Rightarrow> Inr (j, d)))))))))"

text \<open>The replay lookup comes first: a retried key returns its receipt.\<close>

definition admitJob ::
  "golib \<Rightarrow> ambient \<Rightarrow> store_scope \<Rightarrow> string \<Rightarrow> string \<Rightarrow> submission \<Rightarrow> limits \<Rightarrow> go_time \<Rightarrow> go_time \<Rightarrow> string \<Rightarrow> int
   \<Rightarrow> queue_db \<Rightarrow> fault + job \<times> queue_db" where
  "admitJob g a s session key request l due start sid srev d =
     (case find (accepted_row d s (subKind request) (client_key g s key)) (q_ops d) of
        Some r \<Rightarrow>
          (case scanJob g d r of
             Inl err \<Rightarrow> Inl err
           | Inr j \<Rightarrow>
               if opHash r \<noteq> request_hash g request l sid srev then Inl (FStore StoreErrConflict)
               else if jobState j = Expired then Inl (FStore StoreErrExpired)
               else Inr (j, d))
      | None \<Rightarrow> admit_new g a s session key request l due start sid srev d)"

definition AdmitJob ::
  "golib \<Rightarrow> ambient \<Rightarrow> store_scope \<Rightarrow> string \<Rightarrow> string \<Rightarrow> submission \<Rightarrow> limits \<Rightarrow> queue_db \<Rightarrow> (fault + job) \<times> queue_db" where
  "AdmitJob g a s session key request l d =
     (if \<not> Scope_Valid s \<or> \<not> Identifier session \<or> \<not> Identifier key \<or> \<not> is_ok (Submission_Validate g request) \<or> \<not> is_ok (Limits_Validate l)
      then (Inl (FJobs JInvalid), d)
      else q_transaction (\<lambda>d. case queueLock g l d of Inl err \<Rightarrow> Inl err | Inr d \<Rightarrow>
             admitJob g a s session key request l (1000 * clock a) (1000 * clock a) [] 0 d) d)"

subsection \<open>Reading and cancelling\<close>

definition queued_op :: "string \<Rightarrow> string \<Rightarrow> op_row \<Rightarrow> bool" where
  "queued_op tenant ident r \<longleftrightarrow> named tenant ident r \<and> opMode r = ''queued''"

text \<open>The delivery receipt of a reporting job is read by a function of the reporting store, an argument here.\<close>

definition with_receipt :: "(job \<Rightarrow> fault + reporting_receipt option) \<Rightarrow> job \<Rightarrow> fault + job" where
  "with_receipt receipt j = (case receipt j of Inl err \<Rightarrow> Inl err | Inr x \<Rightarrow> Inr (j\<lparr>jobDelivery := x\<rparr>))"

definition ReadJob ::
  "golib \<Rightarrow> (job \<Rightarrow> fault + reporting_receipt option) \<Rightarrow> store_scope \<Rightarrow> string \<Rightarrow> queue_db \<Rightarrow> (fault + job) \<times> queue_db" where
  "ReadJob g receipt s ident d =
     (if \<not> Scope_Valid s \<or> \<not> Identifier ident then (Inl (FStore StoreErrScope), d)
      else q_transaction (\<lambda>d.
        case find (queued_op (scopeTenant s) ident) (q_ops d) of
          None \<Rightarrow> Inl (FStore StoreErrNotFound)
        | Some r \<Rightarrow>
            (case scanJob g d r of Inl err \<Rightarrow> Inl err | Inr j \<Rightarrow>
            (case with_receipt receipt j of Inl err \<Rightarrow> Inl err | Inr j \<Rightarrow> Inr (j, d)))) d)"

fun map_res :: "('a \<Rightarrow> 'e + 'b) \<Rightarrow> 'a list \<Rightarrow> 'e + 'b list" where
  "map_res f [] = Inr []"
| "map_res f (x # xs) =
     (case f x of Inl err \<Rightarrow> Inl err | Inr y \<Rightarrow> (case map_res f xs of Inl err \<Rightarrow> Inl err | Inr ys \<Rightarrow> Inr (y # ys)))"

definition created_at :: "queue_db \<Rightarrow> op_row \<Rightarrow> int" where
  "created_at d r = (case columns_of d r of None \<Rightarrow> 0 | Some c \<Rightarrow> jcCreated c)"

text \<open>Newest first, then by identifier; the limit follows the authority predicate.\<close>

definition listed :: "go_time \<Rightarrow> store_scope \<Rightarrow> selection \<Rightarrow> int \<Rightarrow> queue_db \<Rightarrow> op_row list" where
  "listed now s sel limit d =
     take (nat limit) (sort_key (\<lambda>r. (- created_at d r, opID r))
       (filter (\<lambda>r. opTenant r = scopeTenant s \<and> opMode r = ''queued'' \<and> (Selection_All now sel \<or> opID r \<in> set (Selection_IDs now sel)))
         (q_ops d)))"

definition ListJobs ::
  "golib \<Rightarrow> (job \<Rightarrow> fault + reporting_receipt option) \<Rightarrow> go_time \<Rightarrow> store_scope \<Rightarrow> selection \<Rightarrow> int \<Rightarrow> queue_db
   \<Rightarrow> (fault + job list) \<times> queue_db" where
  "ListJobs g receipt now s sel limit d =
     (if \<not> Scope_Valid s \<or> Selection_Tenant now sel \<noteq> scopeTenant s \<or> \<not> Selection_All now sel \<and> length (Selection_IDs now sel) = 0
         \<or> limit < 1 \<or> limit > 100
      then (Inl (FStore StoreErrScope), d)
      else q_transaction (\<lambda>d.
        case map_res (scanJob g d) (listed now s sel limit d) of Inl err \<Rightarrow> Inl err | Inr js \<Rightarrow>
        (case map_res (with_receipt receipt) js of Inl err \<Rightarrow> Inl err | Inr js \<Rightarrow> Inr (js, d))) d)"

definition CancelJob :: "golib \<Rightarrow> ambient \<Rightarrow> store_scope \<Rightarrow> string \<Rightarrow> queue_db \<Rightarrow> (fault + job) \<times> queue_db" where
  "CancelJob g a s ident d =
     (if \<not> Scope_Valid s \<or> \<not> Identifier ident then (Inl (FStore StoreErrScope), d)
      else q_transaction (\<lambda>d.
        case find (queued_op (scopeTenant s) ident) (q_ops d) of
          None \<Rightarrow> Inl (FStore StoreErrNotFound)
        | Some r \<Rightarrow>
            (case scanJob g d r of Inl err \<Rightarrow> Inl err | Inr j \<Rightarrow>
             if jobState j = Cancelled then Inr (j, d)
             else if jobState j \<noteq> Pending \<and> jobState j \<noteq> Running \<and> jobState j \<noteq> Retry then Inl (FStore StoreErrConflict)
             else
               let led = qLedger d;
                   led = led\<lparr>dbAttempts := close_attempts (of_op (scopeTenant s) ident) AttemptCancelled ''cancelled'' (clock a) (dbAttempts led)\<rparr>;
                   led = led\<lparr>dbOps := update_where (named (scopeTenant s) ident)
                     (\<lambda>r. r\<lparr>opStatus := Cancelled, opError := ''cancelled'', opFinished := Some (clock a), opOwner := None, opUntil := None\<rparr>)
                     (dbOps led)\<rparr>
               in (case auditJob (eventID a) (clock a) s ''job.cancelled'' ident (d\<lparr>qLedger := led\<rparr>) of
                     Inl err \<Rightarrow> Inl err
                   | Inr d \<Rightarrow> Inr (j\<lparr>jobState := Cancelled, jobError := ''cancelled''\<rparr>, d)))) d)"

subsection \<open>Claiming\<close>

text \<open>Abandoned jobs past their expiry or their attempts, at most a hundred; \<open>skip\<close> are rows locked elsewhere.\<close>

definition overdue :: "int \<Rightarrow> (string \<times> string \<Rightarrow> bool) \<Rightarrow> op_row \<Rightarrow> bool" where
  "overdue now skip r \<longleftrightarrow> opMode r = ''queued'' \<and> opStatus r \<in> {Pending, Retry, Running} \<and> unleased now r \<and>
     (opExpires r \<le> now \<or> opAttempts r \<ge> opMaxAttempts r) \<and> \<not> skip (op_pk r)"

definition close_overdue :: "int \<Rightarrow> op_row \<Rightarrow> op_row" where
  "close_overdue now r = r\<lparr>opStatus := (if opExpires r \<le> now then Expired else Failed),
     opError := (if opExpires r \<le> now then ''operation_expired'' else ''attempts_exhausted''),
     opFinished := Some now, opOwner := None, opUntil := None\<rparr>"

definition sweep_overdue :: "int \<Rightarrow> (string \<times> string \<Rightarrow> bool) \<Rightarrow> database \<Rightarrow> database" where
  "sweep_overdue now skip led =
     (let keys = map op_pk (take 100 (sort_key opNextAttempt (filter (overdue now skip) (dbOps led)))) in
      led\<lparr>dbOps := update_where (\<lambda>r. op_pk r \<in> set keys) (close_overdue now) (dbOps led)\<rparr>)"

definition orphaned :: "op_row list \<Rightarrow> attempt_row \<Rightarrow> bool" where
  "orphaned rows a \<longleftrightarrow> atState a = Acquiring \<and>
     list_ex (\<lambda>r. of_op (opTenant r) (opID r) a \<and> opMode r = ''queued'' \<and> opStatus r \<in> {Expired, Failed}) rows"

definition at_pk :: "attempt_row \<Rightarrow> string \<times> string \<times> int" where
  "at_pk a = (atTenant a, atOp a, atFence a)"

definition sweep_attempts :: "int \<Rightarrow> (string \<times> string \<times> int \<Rightarrow> bool) \<Rightarrow> database \<Rightarrow> database" where
  "sweep_attempts now skip led =
     (let keys = map at_pk (take 100 (filter (\<lambda>a. orphaned (dbOps led) a \<and> \<not> skip (at_pk a)) (dbAttempts led))) in
      led\<lparr>dbAttempts := update_where (\<lambda>a. at_pk a \<in> set keys)
        (\<lambda>a. a\<lparr>atState := Abandoned, atError := ''lease_lost'', atFinished := Some now\<rparr>) (dbAttempts led)\<rparr>)"

text \<open>A schedule under a migration cutover dispatches only occurrences admitted for its current route.\<close>

definition route_of :: "string \<Rightarrow> string \<Rightarrow> queue_db \<Rightarrow> route_row option" where
  "route_of tenant sid d = find (\<lambda>x. rtwTenant x = tenant \<and> rtwSchedule x = sid) (qRoutes d)"

definition cutover_of :: "string \<Rightarrow> string \<Rightarrow> queue_db \<Rightarrow> cutover_row option" where
  "cutover_of tenant cohort d = find (\<lambda>x. cuTenant x = tenant \<and> cuCohort x = cohort) (qCutovers d)"

definition routed :: "queue_db \<Rightarrow> op_row \<Rightarrow> job_columns \<Rightarrow> bool" where
  "routed d r c =
     (case jcSchedule c of
        None \<Rightarrow> True
      | Some sid \<Rightarrow>
          (case route_of (opTenant r) sid d of
             None \<Rightarrow> True
           | Some x \<Rightarrow>
               (case cutover_of (opTenant r) (rtwCohort x) d of
                  None \<Rightarrow> False
                | Some u \<Rightarrow>
                    list_ex (\<lambda>m. amTenant m = opTenant r \<and> amCohort m = rtwCohort x \<and> amStream m = rtwStream x \<and>
                        amSchedule m = sid \<and> amDue m = jcDue c \<and> amGeneration m = cuGeneration u \<and> amStream m = cuStream u) (qAdmissions d)
                    \<and> cuRoute u = sid \<and> jcScheduleRevision c = Some (rtwRevision x) \<and> jcDue c > cuResumeAfter u)))"

definition schedule_busy :: "int \<Rightarrow> queue_db \<Rightarrow> op_row \<Rightarrow> job_columns \<Rightarrow> bool" where
  "schedule_busy now d r c =
     (case jcSchedule c of
        None \<Rightarrow> False
      | Some sid \<Rightarrow> list_ex (\<lambda>x. opTenant x = opTenant r \<and> of_schedule d sid x \<and> opID x \<noteq> opID r \<and> opStatus x = Running \<and>
          (case opUntil x of None \<Rightarrow> False | Some t \<Rightarrow> t > now)) (q_ops d))"

definition eligible :: "int \<Rightarrow> (string \<times> string \<Rightarrow> bool) \<Rightarrow> limits \<Rightarrow> queue_db \<Rightarrow> op_row \<Rightarrow> bool" where
  "eligible now skip l d r =
     (case columns_of d r of
        None \<Rightarrow> False
      | Some c \<Rightarrow>
          opMode r = ''queued'' \<and> opStatus r \<in> {Pending, Retry, Running} \<and> opNextAttempt r \<le> now \<and> jcDue c \<le> now \<and> opExpires r > now \<and>
          opAttempts r < opMaxAttempts r \<and> unleased now r \<and>
          roots (\<lambda>x. active_root now d x \<and> opTenant x = opTenant r) d < TenantConcurrency l \<and>
          \<not> schedule_busy now d r c \<and> routed d r c \<and> \<not> skip (op_pk r))"

definition due_at :: "queue_db \<Rightarrow> op_row \<Rightarrow> int" where
  "due_at d r = (case columns_of d r of None \<Rightarrow> 0 | Some c \<Rightarrow> jcDue c)"

definition next_job :: "int \<Rightarrow> (string \<times> string \<Rightarrow> bool) \<Rightarrow> limits \<Rightarrow> queue_db \<Rightarrow> op_row option" where
  "next_job now skip l d =
     (case sort_key (\<lambda>r. (opNextAttempt r, due_at d r, opID r)) (filter (eligible now skip l d) (q_ops d)) of
        [] \<Rightarrow> None | r # _ \<Rightarrow> Some r)"

text \<open>Readings of the clock: the two sweeps and the selection, then the claim; an empty queue still commits the sweeps.\<close>

definition claim_tx ::
  "golib \<Rightarrow> int \<Rightarrow> int \<Rightarrow> (string \<times> string \<Rightarrow> bool) \<Rightarrow> (string \<times> string \<times> int \<Rightarrow> bool) \<Rightarrow> string \<Rightarrow> limits \<Rightarrow> queue_db
   \<Rightarrow> fault + job_lease option \<times> queue_db" where
  "claim_tx g now1 now2 skip skipA owner l d =
     (case queueLock g l d of Inl err \<Rightarrow> Inl err | Inr d \<Rightarrow>
      let d = d\<lparr>qLedger := sweep_attempts now1 skipA (sweep_overdue now1 skip (qLedger d))\<rparr> in
      if roots (active_root now1 d) d \<ge> GlobalConcurrency l then Inr (None, d)
      else case next_job now1 skip l d of
             None \<Rightarrow> Inr (None, d)
           | Some r \<Rightarrow>
               (case scanJob g d r of Inl err \<Rightarrow> Inl err | Inr j \<Rightarrow>
                if \<not> Job_Valid g j then Inl (FJobs JInvalid)
                else case on_ledger (claimOperationLease now2 (jobTenant j) (jobID j) owner (LeaseTime l div millisecond)) d of
                       Inl err \<Rightarrow> Inl err
                     | Inr ((fence, attempt, til), d) \<Rightarrow>
                         Inr (Some \<lparr>jlJob = j\<lparr>jobAttempts := attempt, jobState := Running\<rparr>, jlOwner = owner, jlFence = fence,
                                jlAttempt = attempt, jlUntil = 1000 * til\<rparr>, d)))"

definition ClaimJob ::
  "golib \<Rightarrow> int \<Rightarrow> int \<Rightarrow> (string \<times> string \<Rightarrow> bool) \<Rightarrow> (string \<times> string \<times> int \<Rightarrow> bool) \<Rightarrow> string \<Rightarrow> limits \<Rightarrow> queue_db
   \<Rightarrow> (fault + job_lease) \<times> queue_db" where
  "ClaimJob g now1 now2 skip skipA owner l d =
     (if \<not> Identifier owner \<or> \<not> is_ok (Limits_Validate l) then (Inl (FJobs JInvalid), d)
      else case q_transaction (claim_tx g now1 now2 skip skipA owner l) d of
             (Inl err, d) \<Rightarrow> (Inl err, d)
           | (Inr None, d) \<Rightarrow> (Inl (FJobs JEmpty), d)
           | (Inr (Some lease), d) \<Rightarrow> (Inr lease, d))"

subsection \<open>Working on a lease\<close>

definition queue_lease :: "job_lease \<Rightarrow> operation_lease" where
  "queue_lease l = \<lparr>olTenant = jobTenant (jlJob l), olOp = jobID (jlJob l), olOwner = jlOwner l,
     olManifest = jobManifest (jlJob l), olMode = ''queued'', olFence = jlFence l\<rparr>"

definition HeartbeatJob :: "golib \<Rightarrow> int \<Rightarrow> job_lease \<Rightarrow> int \<Rightarrow> queue_db \<Rightarrow> (fault + unit) \<times> queue_db" where
  "HeartbeatJob g now l ttl d =
     (if \<not> Job_Valid g (jlJob l) \<or> \<not> Identifier (jlOwner l) \<or> jlFence l < 1 \<or> ttl < second \<or> ttl > 60 * second
      then (Inl (FJobs JInvalid), d)
      else q_transaction (on_ledger (renewOperationLease now (queue_lease l) (ttl div millisecond))) d)"

definition attempt_codes :: "string list" where
  "attempt_codes = [''authority_blocked'', ''attempt_failed'', ''attempt_timeout'', ''definition_changed'', ''reporting_budget'',
     ''reporting_attention'']"

definition FinishAttempt ::
  "golib \<Rightarrow> int \<Rightarrow> int \<Rightarrow> job_lease \<Rightarrow> string \<Rightarrow> bool \<Rightarrow> int \<Rightarrow> queue_db \<Rightarrow> (fault + unit) \<times> queue_db" where
  "FinishAttempt g now1 now2 l err permanent delay d =
     (if \<not> Job_Valid g (jlJob l) \<or> jlFence l < 1 \<or> \<not> Identifier (jlOwner l) \<or> delay < 0 \<or> delay > 60 * second
      then (Inl (FJobs JInvalid), d)
      else if err \<notin> set attempt_codes then (Inl (FJobs JInvalid), d)
      else q_transaction (on_ledger (failOperationLease now1 now2 (queue_lease l) err permanent (delay div millisecond))) d)"

text \<open>The retention effect of a queued sweep: events past the cutoff, then results expired at the due time.\<close>

definition sweepRows ::
  "(string \<Rightarrow> bool) \<Rightarrow> (string \<Rightarrow> bool) \<Rightarrow> string \<Rightarrow> string \<Rightarrow> int \<Rightarrow> int \<Rightarrow> int \<Rightarrow> database \<Rightarrow> (int \<times> int) \<times> database" where
  "sweepRows skipA skipO tenant opid cutoff limit asof led =
     (let (events, led) = delete_events tenant (old_events skipA tenant cutoff limit led) led;
          (results, led) = expire_results tenant (old_results skipO tenant opid asof limit led) led
      in ((events, results), led))"

text \<open>Context bundles whose retention ended by the due time, oldest first.\<close>

definition bn_pk :: "bundle_row \<Rightarrow> string \<times> string \<times> string \<times> string" where
  "bn_pk b = (bnTenant b, bnActor b, bnSession b, bnID b)"

definition sweep_bundles ::
  "(string \<times> string \<times> string \<times> string \<Rightarrow> bool) \<Rightarrow> string \<Rightarrow> int \<Rightarrow> int \<Rightarrow> bundle_row list \<Rightarrow> bundle_row list" where
  "sweep_bundles skip tenant asof limit bundles =
     (let keys = map bn_pk (take (nat limit) (sort_key (\<lambda>b. (bnUntil b, bnID b))
            (filter (\<lambda>b. bnTenant b = tenant \<and> bnUntil b \<le> asof \<and> \<not> skip (bn_pk b)) bundles)))
      in filter (\<lambda>b. bn_pk b \<notin> set keys) bundles)"

definition running_lease :: "int \<Rightarrow> job_lease \<Rightarrow> op_row \<Rightarrow> bool" where
  "running_lease now l r \<longleftrightarrow> named (jobTenant (jlJob l)) (jobID (jlJob l)) r \<and> opStatus r = Running \<and>
     holds now (jlOwner l) (jlFence l) r"

definition complete_tx ::
  "golib \<Rightarrow> string \<Rightarrow> int \<Rightarrow> int \<Rightarrow> (string \<Rightarrow> bool) \<Rightarrow> (string \<Rightarrow> bool) \<Rightarrow> (string \<times> string \<times> string \<times> string \<Rightarrow> bool)
   \<Rightarrow> job_lease \<Rightarrow> exec_proof \<Rightarrow> queue_db \<Rightarrow> fault + job \<times> queue_db" where
  "complete_tx g event now1 now2 skipA skipO skipB l proof d =
     (case find (\<lambda>r. opMode r = ''queued'' \<and> running_lease now1 l r) (q_ops d) of
        None \<Rightarrow> Inl (FStore StoreErrConflict)
      | Some r \<Rightarrow>
          (case scanJob g d r of Inl err \<Rightarrow> Inl err | Inr j \<Rightarrow>
           if jobManifest j \<noteq> jobManifest (jlJob l) \<or> \<not> is_ok (AssertExecution g (1000 * now1) proof j) then Inl (FJobs JAuthority)
           else case map_of (dbPolicies (qLedger d)) (jobTenant (jlJob l)) of
             None \<Rightarrow> Inl (FStore StoreErrNotFound)
           | Some current \<Rightarrow>
               if current \<noteq> jobPolicy j then Inl (FStore StoreErrConflict)
               else
                 let ((events, results), led) = sweepRows skipA skipO (jobTenant (jlJob l)) (jobID j) (jobCutoff j div 1000) (jobBatch j)
                       (jobDue j div 1000) (qLedger d) in
                 if \<not> Envelope_Valid (1000 * now2) (epEnvelope proof) then Inl (FJobs JAuthority)
                 else if affected (running_lease now2 l) (dbOps led) \<noteq> 1 then Inl (FStore StoreErrConflict)
                 else
                   let led = led\<lparr>dbOps := update_where (running_lease now2 l)
                         (\<lambda>r. r\<lparr>opStatus := Succeeded, opFinished := Some now2, opOwner := None, opUntil := None, opError := [],
                                opDeletedEvents := events, opDeletedOps := results\<rparr>) (dbOps led)\<rparr>
                   in (case insert_audit \<lparr>auTenant = jobTenant (jlJob l), auID = event, auActor = envUser (epEnvelope proof),
                               auAction = ''retention.sweep'', auResource = jobID j, auOp = Some (jobID j), auCreated = now2\<rparr> led of
                         Inl err \<Rightarrow> Inl (FStore err)
                       | Inr led \<Rightarrow>
                           let led = led\<lparr>dbAttempts := update_where (\<lambda>a. of_op (jobTenant (jlJob l)) (jobID j) a \<and> atFence a = jlFence l
                                 \<and> atState a = Acquiring) (\<lambda>a. a\<lparr>atState := AttemptSucceeded, atExecutor := Some (envUser (epEnvelope proof)),
                                   atFinished := Some now2\<rparr>) (dbAttempts led)\<rparr>
                           in Inr (j\<lparr>jobState := Succeeded, jobDeletedEvents := events, jobDeletedOps := results\<rparr>,
                                   d\<lparr>qLedger := led, qBundles := sweep_bundles skipB (jobTenant (jlJob l)) (jobDue j div 1000)
                                     (jobBatch j) (qBundles d)\<rparr>))))"

definition CompleteJob ::
  "golib \<Rightarrow> string \<Rightarrow> int \<Rightarrow> int \<Rightarrow> int \<Rightarrow> (string \<Rightarrow> bool) \<Rightarrow> (string \<Rightarrow> bool)
   \<Rightarrow> (string \<times> string \<times> string \<times> string \<Rightarrow> bool) \<Rightarrow> job_lease \<Rightarrow> exec_proof \<Rightarrow> queue_db \<Rightarrow> (fault + job) \<times> queue_db" where
  "CompleteJob g event now0 now1 now2 skipA skipO skipB l proof d =
     (if \<not> is_ok (AssertExecution g (1000 * now0) proof (jlJob l)) then (Inl (FJobs JAuthority), d)
      else if jobKind (jlJob l) \<noteq> ''retention.sweep'' then (Inl (FJobs JInvalid), d)
      else case NewScope (envTenant (epEnvelope proof)) (envUser (epEnvelope proof)) of
             Inl err \<Rightarrow> (Inl (FStore err), d)
           | Inr _ \<Rightarrow> q_transaction (complete_tx g event now1 now2 skipA skipO skipB l proof) d)"

subsection \<open>Runs of the queue\<close>

text \<open>
  Replicas call the handlers in any order as time passes; a state is the last clock reading and the database.
  Every replica may come with limits of its own.
\<close>

inductive queue_step :: "golib \<Rightarrow> int \<times> queue_db \<Rightarrow> int \<times> queue_db \<Rightarrow> bool" for g where
  pass: "t \<le> t' \<Longrightarrow> queue_step g (t, d) (t', d)"
| configure: "queue_step g (t, d) (t, snd (ConfigureQueue g l d))"
| admit: "t \<le> clock a \<Longrightarrow> queue_step g (t, d) (clock a, snd (AdmitJob g a s session key request l d))"
| cancel: "t \<le> clock a \<Longrightarrow> queue_step g (t, d) (clock a, snd (CancelJob g a s ident d))"
| claim: "t \<le> now1 \<Longrightarrow> now1 \<le> now2 \<Longrightarrow> queue_step g (t, d) (now2, snd (ClaimJob g now1 now2 skip skipA owner l d))"
| heartbeat: "t \<le> now \<Longrightarrow> queue_step g (t, d) (now, snd (HeartbeatJob g now lease ttl d))"
| finish: "t \<le> now1 \<Longrightarrow> now1 \<le> now2 \<Longrightarrow> queue_step g (t, d) (now2, snd (FinishAttempt g now1 now2 lease err permanent delay d))"
| complete: "t \<le> now0 \<Longrightarrow> now0 \<le> now1 \<Longrightarrow> now1 \<le> now2 \<Longrightarrow>
    queue_step g (t, d) (now2, snd (CompleteJob g event now0 now1 now2 skipA skipO skipB lease proof d))"

text \<open>Keys are unique, every row is well formed, columns belong to one row and no row here is a nested one.\<close>

definition jc_pk :: "job_columns \<Rightarrow> string \<times> string" where
  "jc_pk c = (jcTenant c, jcID c)"

definition queue_ok :: "queue_db \<Rightarrow> bool" where
  "queue_ok d \<longleftrightarrow> distinct (map op_pk (q_ops d)) \<and> (\<forall>r \<in> set (q_ops d). row_ok r) \<and>
     jc_pk ` set (qColumns d) \<subseteq> op_pk ` set (q_ops d) \<and> (\<forall>c \<in> set (qColumns d). jcParent c = None)"

definition waiting :: "op_row \<Rightarrow> bool" where
  "waiting r \<longleftrightarrow> dispatched_mode r \<and> opStatus r \<in> {Pending, Retry, Running}"

definition busy :: "int \<Rightarrow> op_row \<Rightarrow> bool" where
  "busy now r \<longleftrightarrow> dispatched_mode r \<and> live now r"

lemma columns_in: "columns_of d r = Some c \<Longrightarrow> c \<in> set (qColumns d) \<and> jc_pk c = op_pk r"
  by (auto simp: columns_of_def jc_pk_def op_pk_def find_Some_iff)

lemma no_parents:
  assumes "\<forall>c \<in> set (qColumns d). jcParent c = None"
  shows "\<not> has_parent d r" "\<not> parent_live now d r"
  using assms columns_in [of d r]
  by (auto simp: has_parent_def parent_live_def list_ex_iff split: option.splits)

lemma roots_plain:
  assumes "\<forall>c \<in> set (qColumns d). jcParent c = None"
  shows "active_root now d = busy now" "pending_root now d = waiting"
  using no_parents [OF assms] by (auto simp: active_root_def busy_def pending_root_def waiting_def)

text \<open>The bounds of the limits a queue was configured with.\<close>

definition count_rows :: "(op_row \<Rightarrow> bool) \<Rightarrow> op_row list \<Rightarrow> int" where
  "count_rows p rows = int (length (filter p rows))"

definition in_tenant :: "string \<Rightarrow> (op_row \<Rightarrow> bool) \<Rightarrow> op_row \<Rightarrow> bool" where
  "in_tenant tenant p r \<longleftrightarrow> p r \<and> opTenant r = tenant"

definition bounded :: "limits \<Rightarrow> int \<Rightarrow> op_row list \<Rightarrow> bool" where
  "bounded l now rows \<longleftrightarrow>
     count_rows waiting rows \<le> MaxPending l \<and> (\<forall>tenant. count_rows (in_tenant tenant waiting) rows \<le> MaxPendingPerTenant l) \<and>
     count_rows (busy now) rows \<le> GlobalConcurrency l \<and>
     (\<forall>tenant. count_rows (in_tenant tenant (busy now)) rows \<le> TenantConcurrency l)"

definition single_flight :: "int \<Rightarrow> queue_db \<Rightarrow> bool" where
  "single_flight now d \<longleftrightarrow> (\<forall>r \<in> set (q_ops d). \<forall>x \<in> set (q_ops d). \<forall>sid.
     busy now r \<and> busy now x \<and> opTenant r = opTenant x \<and> of_schedule d sid r \<and> of_schedule d sid x \<longrightarrow> opID r = opID x)"

definition pinned :: "golib \<Rightarrow> limits \<Rightarrow> queue_db \<Rightarrow> bool" where
  "pinned g l d \<longleftrightarrow> (\<exists>z. qLimits d = Some (QueueFingerprint g l, z))"

definition controlled :: "golib \<Rightarrow> limits \<Rightarrow> int \<times> queue_db \<Rightarrow> bool" where
  "controlled g l st \<longleftrightarrow> (case st of (now, d) \<Rightarrow> queue_ok d \<and> pinned g l d \<and> bounded l now (q_ops d) \<and> single_flight now d)"

subsection \<open>Fingerprints\<close>

definition fingerprint_text :: "golib \<Rightarrow> limits \<Rightarrow> string" where
  "fingerprint_text g l = json_text g (JArr (map JInt [GlobalConcurrency l, TenantConcurrency l, MaxPending l, MaxPendingPerTenant l]))"

lemma fingerprint_text_eq:
  "fingerprint_text g l = fingerprint_text g k \<longleftrightarrow> GlobalConcurrency l = GlobalConcurrency k \<and>
     TenantConcurrency l = TenantConcurrency k \<and> MaxPending l = MaxPending k \<and> MaxPendingPerTenant l = MaxPendingPerTenant k"
  unfolding fingerprint_text_def list.map array_text array_rest_Cons json_text.simps
  by (auto simp: int_str_cancel int_rest_cancel int_str_eq)

text \<open>No other valid limits hash to the fingerprint of these.\<close>

definition collision_free :: "golib \<Rightarrow> limits \<Rightarrow> bool" where
  "collision_free g l \<longleftrightarrow> (\<forall>k. is_ok (Limits_Validate k) \<and> sha256_hex g (fingerprint_text g k) = sha256_hex g (fingerprint_text g l)
     \<longrightarrow> fingerprint_text g k = fingerprint_text g l)"

lemma same_bounds:
  assumes "collision_free g l" "Limits_Validate k = Inr ()" "QueueFingerprint g k = QueueFingerprint g l"
  shows "GlobalConcurrency k = GlobalConcurrency l" "TenantConcurrency k = TenantConcurrency l" "MaxPending k = MaxPending l"
    "MaxPendingPerTenant k = MaxPendingPerTenant l"
proof -
  have "fingerprint_text g k = fingerprint_text g l"
    using assms unfolding collision_free_def QueueFingerprint_def fingerprint_text_def [symmetric] by (simp add: is_ok_iff)
  then show "GlobalConcurrency k = GlobalConcurrency l" "TenantConcurrency k = TenantConcurrency l" "MaxPending k = MaxPending l"
    "MaxPendingPerTenant k = MaxPendingPerTenant l" by (simp_all add: fingerprint_text_eq)
qed

lemma queueLock_Inr:
  assumes "queueLock g l d = Inr d'"
  shows "Limits_Validate l = Inr ()" "pinned g l d'" "pinned g k d \<Longrightarrow> QueueFingerprint g l = QueueFingerprint g k"
    "\<exists>row. d' = d\<lparr>qLimits := row\<rparr>" "qLimits d' = Some (QueueFingerprint g l, Some calendars_Version)"
proof -
  obtain f z where row: "(case qLimits d of None \<Rightarrow> (QueueFingerprint g l, None) | Some row \<Rightarrow> row) = (f, z)" by fastforce
  have "is_ok (Limits_Validate l)" "(case z of None \<Rightarrow> calendars_Version | Some v \<Rightarrow> v) = calendars_Version" "f = QueueFingerprint g l"
    and d': "d' = d\<lparr>qLimits := Some (f, Some calendars_Version)\<rparr>"
    using assms unfolding queueLock_def row Let_def by (auto split: if_splits)
  then show "Limits_Validate l = Inr ()" "pinned g l d'" "\<exists>row. d' = d\<lparr>qLimits := row\<rparr>"
    "qLimits d' = Some (QueueFingerprint g l, Some calendars_Version)"
    by (auto simp: is_ok_iff pinned_def)
  show "QueueFingerprint g l = QueueFingerprint g k" if "pinned g k d"
    using that row \<open>f = QueueFingerprint g l\<close> by (auto simp: pinned_def)
qed

subsection \<open>Steps that only calm the queue\<close>

text \<open>A row update that keeps the row well formed and makes it neither wait nor run when it did not before.\<close>

definition calmer :: "int \<Rightarrow> int \<Rightarrow> (op_row \<Rightarrow> op_row) \<Rightarrow> op_row \<Rightarrow> bool" where
  "calmer now now' f r \<longleftrightarrow> op_pk (f r) = op_pk r \<and> opMode (f r) = opMode r \<and> row_ok (f r) \<and>
     (waiting (f r) \<longrightarrow> waiting r) \<and> (live now' (f r) \<longrightarrow> live now r)"

lemma count_rows_map:
  "(\<And>r. r \<in> set rows \<Longrightarrow> p (f r) \<Longrightarrow> q r) \<Longrightarrow> count_rows p (map f rows) \<le> count_rows q rows"
  unfolding count_rows_def by (induction rows) auto

lemma columns_of_pk: "op_pk r' = op_pk r \<Longrightarrow> qColumns d' = qColumns d \<Longrightarrow> columns_of d' r' = columns_of d r"
  by (simp add: columns_of_def op_pk_def)

lemma of_schedule_pk: "op_pk r' = op_pk r \<Longrightarrow> qColumns d' = qColumns d \<Longrightarrow> of_schedule d' sid r' = of_schedule d sid r"
  using columns_of_pk [of r' r d' d] by (simp add: of_schedule_def)

lemma live_mono: "live now' r \<Longrightarrow> now \<le> now' \<Longrightarrow> live now r"
  by (auto simp: live_def split: option.splits)

lemma live_later: "now \<le> now' \<Longrightarrow> live now' r \<longrightarrow> live now r"
  by (blast intro: live_mono)

lemma calm_bounded:
  assumes "bounded l now rows" "\<forall>r \<in> set rows. calmer now now' f r"
  shows "bounded l now' (map f rows)"
proof -
  have "waiting (f r) \<Longrightarrow> waiting r" "busy now' (f r) \<Longrightarrow> busy now r" "opTenant (f r) = opTenant r" if "r \<in> set rows" for r
    using assms(2) that by (auto simp: calmer_def busy_def dispatched_mode_def op_pk_def)
  then have "count_rows waiting (map f rows) \<le> count_rows waiting rows" "count_rows (busy now') (map f rows) \<le> count_rows (busy now) rows"
    "count_rows (in_tenant t waiting) (map f rows) \<le> count_rows (in_tenant t waiting) rows"
    "count_rows (in_tenant t (busy now')) (map f rows) \<le> count_rows (in_tenant t (busy now)) rows" for t
    by (auto intro!: count_rows_map simp: in_tenant_def)
  with assms(1) show ?thesis unfolding bounded_def by (meson order_trans)
qed

lemma calm_step:
  assumes "controlled g l (now, d)" and ops: "q_ops d' = map f (q_ops d)" and calm: "\<forall>r \<in> set (q_ops d). calmer now now' f r"
    and cols: "qColumns d' = qColumns d" and pin: "pinned g l d'"
  shows "controlled g l (now', d')"
proof -
  have ok: "queue_ok d" "bounded l now (q_ops d)" "single_flight now d" using assms(1) by (simp_all add: controlled_def)
  have pk: "\<forall>r \<in> set (q_ops d). op_pk (f r) = op_pk r" using calm by (simp add: calmer_def)
  then have "map op_pk (q_ops d') = map op_pk (q_ops d)" by (simp add: ops)
  moreover have "op_pk ` set (q_ops d') = op_pk ` set (q_ops d)" using pk by (simp add: ops image_image)
  moreover have "\<forall>r \<in> set (q_ops d'). row_ok r" using calm by (simp add: ops calmer_def)
  ultimately have "queue_ok d'" using ok(1) unfolding queue_ok_def cols by simp
  moreover have "bounded l now' (q_ops d')" unfolding ops by (rule calm_bounded [OF ok(2) calm])
  moreover have "single_flight now' d'"
    unfolding single_flight_def
  proof (intro ballI allI impI)
    fix r' x' sid
    assume "r' \<in> set (q_ops d')" "x' \<in> set (q_ops d')"
    then obtain r x where rx: "r \<in> set (q_ops d)" "r' = f r" "x \<in> set (q_ops d)" "x' = f x" by (auto simp: ops)
    assume h: "busy now' r' \<and> busy now' x' \<and> opTenant r' = opTenant x' \<and> of_schedule d' sid r' \<and> of_schedule d' sid x'"
    have "op_pk r' = op_pk r" "op_pk x' = op_pk x" "busy now r" "busy now x"
      using calm rx h by (auto simp: calmer_def busy_def dispatched_mode_def)
    moreover from this have "of_schedule d sid r" "of_schedule d sid x"
      using h of_schedule_pk [OF _ cols] by blast+
    ultimately show "opID r' = opID x'"
      using ok(3) rx h unfolding single_flight_def op_pk_def by (metis prod.inject)
  qed
  ultimately show ?thesis using pin by (simp add: controlled_def)
qed

lemma calm_update:
  assumes "controlled g l (now, d)" "q_ops d' = update_where p f (q_ops d)" "now \<le> now'"
    and "\<And>r. r \<in> set (q_ops d) \<Longrightarrow> p r \<Longrightarrow> row_ok r \<Longrightarrow> calmer now now' f r"
    and "qColumns d' = qColumns d" "pinned g l d'"
  shows "controlled g l (now', d')"
proof (rule calm_step [OF assms(1) _ _ assms(5,6)])
  show "q_ops d' = map (\<lambda>r. if p r then f r else r) (q_ops d)" using assms(2) by (simp add: update_where_def)
  have "row_ok r" if "r \<in> set (q_ops d)" for r using assms(1) that by (simp add: controlled_def queue_ok_def)
  then show "\<forall>r \<in> set (q_ops d). calmer now now' (\<lambda>r. if p r then f r else r) r"
    using assms(3,4) live_later by (auto simp: calmer_def)
qed

lemma calm_same:
  assumes "controlled g l (now, d)" "q_ops d' = q_ops d" "now \<le> now'" "qColumns d' = qColumns d" "pinned g l d'"
  shows "controlled g l (now', d')"
  by (rule calm_update [OF assms(1) _ assms(3) _ assms(4,5), where p = "\<lambda>_. False" and f = id])
     (simp_all add: assms(2) update_where_def)

lemma pass_step: "controlled g l (now, d) \<Longrightarrow> now \<le> now' \<Longrightarrow> controlled g l (now', d)"
  by (rule calm_same) (simp_all add: controlled_def)

text \<open>The updates of the handlers.\<close>

lemma calmer_renew:
  assumes "row_ok r" "held now' lease r" "now \<le> now'"
  shows "calmer now now' (\<lambda>r. r\<lparr>opUntil := Some (min (opExpires r) x)\<rparr>) r"
proof -
  have "live now' r" using assms(2) by (auto simp: held_def holds_def live_def)
  with assms show ?thesis
    using live_mono [of now' r now]
    by (auto simp: calmer_def op_pk_def row_ok_def waiting_def dispatched_mode_def held_def)
qed

lemma calmer_release:
  assumes "row_ok r" "opOwner r \<noteq> None" "st \<noteq> Running"
  shows "calmer now now' (\<lambda>r. r\<lparr>opStatus := st, opError := e, opOwner := None, opUntil := None, opFinished := fin, opNextAttempt := n\<rparr>) r"
  using assms by (auto simp: calmer_def op_pk_def row_ok_def waiting_def dispatched_mode_def live_def)

lemma calmer_close:
  assumes "row_ok r" "st \<notin> {Pending, Retry, Running}"
  shows "calmer now now' (\<lambda>r. r\<lparr>opStatus := st, opError := e, opFinished := fin, opOwner := None, opUntil := None\<rparr>) r"
  using assms by (auto simp: calmer_def op_pk_def row_ok_def waiting_def live_def)

subsection \<open>Every handler keeps the bounds\<close>

lemma snd_q_transaction: "snd (q_transaction fn d) = (case fn d of Inl _ \<Rightarrow> d | Inr (_, d') \<Rightarrow> d')"
  by (auto simp: q_transaction_def split: sum.splits prod.splits)

lemma q_transaction_step:
  assumes "controlled g l (t, d)" "t \<le> t'" "\<And>x d'. fn d = Inr (x, d') \<Longrightarrow> controlled g l (t', d')"
  shows "controlled g l (t', snd (q_transaction fn d))"
  using assms(3) pass_step [OF assms(1,2)] by (auto simp: snd_q_transaction split: sum.splits)

lemma lock_step:
  assumes "controlled g l (t, d)" "queueLock g k d = Inr d'"
  shows "controlled g l (t, d')" "QueueFingerprint g k = QueueFingerprint g l" "qColumns d' = qColumns d" "qLedger d' = qLedger d"
proof -
  note q = queueLock_Inr [OF assms(2)]
  show eq: "QueueFingerprint g k = QueueFingerprint g l" using q(3) [of l] assms(1) by (simp add: controlled_def)
  obtain row where d': "d' = d\<lparr>qLimits := row\<rparr>" using q(4) by blast
  then show "qColumns d' = qColumns d" "qLedger d' = qLedger d" by simp_all
  show "controlled g l (t, d')" by (rule calm_same [OF assms(1)]) (use q(2) eq in \<open>simp_all add: d' pinned_def\<close>)
qed

lemma ConfigureQueue_step: "controlled g l (t, d) \<Longrightarrow> controlled g l (t, snd (ConfigureQueue g k d))"
  unfolding ConfigureQueue_def by (rule q_transaction_step) (auto dest: lock_step(1) split: sum.splits)

lemma on_ledger_Inr:
  "on_ledger fn d = Inr (x, d') \<longleftrightarrow> (\<exists>led. fn (qLedger d) = Inr (x, led) \<and> d' = d\<lparr>qLedger := led\<rparr>)"
  by (auto simp: on_ledger_def split: sum.splits)

lemma pinned_ledger [simp]: "pinned g l (d\<lparr>qLedger := led\<rparr>) = pinned g l d"
  by (simp add: pinned_def)

lemma controlled_pinned: "controlled g l (t, d) \<Longrightarrow> pinned g l d"
  by (simp add: controlled_def)

lemma auditJob_Inr:
  "auditJob event now s action ident d = Inr d' \<Longrightarrow> q_ops d' = q_ops d \<and> qColumns d' = qColumns d \<and> qLimits d' = qLimits d"
  by (auto simp: auditJob_def dest: insert_audit_same split: sum.splits)

lemma ledger_tx_step:
  assumes "controlled g l (t, d)" "\<And>x led. fn (qLedger d) = Inr (x, led) \<Longrightarrow> controlled g l (t, d\<lparr>qLedger := led\<rparr>)"
  shows "controlled g l (t, snd (q_transaction (on_ledger fn) d))"
  using assms by (auto simp: on_ledger_Inr intro!: q_transaction_step [OF assms(1) order_refl])

lemma HeartbeatJob_step:
  assumes "controlled g l (t, d)" "t \<le> now"
  shows "controlled g l (now, snd (HeartbeatJob g now lease ttl d))"
proof -
  have p: "controlled g l (now, d)" by (rule pass_step [OF assms])
  have "controlled g l (now, d\<lparr>qLedger := led\<rparr>)"
    if "renewOperationLease now (queue_lease lease) ms (qLedger d) = Inr (x, led)" for x led ms
    by (rule calm_update [OF p, where p = "held now (queue_lease lease)" and
          f = "\<lambda>r. r\<lparr>opUntil := Some (min (opExpires r) (now + ms * 1000))\<rparr>"])
       (use that controlled_pinned [OF p] in \<open>auto simp: renewOperationLease_def calmer_renew split: if_splits\<close>)
  then have "controlled g l (now, snd (q_transaction (on_ledger (renewOperationLease now (queue_lease lease) ms)) d))" for ms
    by (rule ledger_tx_step [OF p])
  then show ?thesis using p by (simp add: HeartbeatJob_def)
qed

lemma FinishAttempt_step:
  assumes "controlled g l (t, d)" "t \<le> now1" "now1 \<le> now2"
  shows "controlled g l (now2, snd (FinishAttempt g now1 now2 lease err permanent delay d))"
proof -
  have p: "controlled g l (now2, d)" using assms by (intro pass_step [OF assms(1)]) simp
  have "controlled g l (now2, d\<lparr>qLedger := led\<rparr>)"
    if "failOperationLease now1 now2 ol err permanent ms (qLedger d) = Inr (x, led)" for x led ms ol
  proof -
    from that obtain r where r: "find (held now1 ol) (q_ops d) = Some r"
      by (auto simp: failOperationLease_def split: option.splits)
    define st where "st = (if permanent then Blocked else if opAttempts r \<ge> opMaxAttempts r then Failed else Retry)"
    have ops: "dbOps led = update_where
        (\<lambda>r. named (olTenant ol) (olOp ol) r \<and> opOwner r = Some (olOwner ol) \<and> opFence r = olFence ol)
        (\<lambda>r. r\<lparr>opStatus := st, opError := err, opOwner := None, opUntil := None,
           opFinished := (if st = Retry then None else Some now2), opNextAttempt := now2 + ms * 1000\<rparr>) (q_ops d)"
      using that unfolding failOperationLease_def r st_def by (auto simp: Let_def)
    have "st \<noteq> Running" by (simp add: st_def)
    then show ?thesis
      by (intro calm_update [OF p, where p = "\<lambda>r. named (olTenant ol) (olOp ol) r \<and> opOwner r = Some (olOwner ol) \<and> opFence r = olFence ol"
            and f = "\<lambda>r. r\<lparr>opStatus := st, opError := err, opOwner := None, opUntil := None,
              opFinished := (if st = Retry then None else Some now2), opNextAttempt := now2 + ms * 1000\<rparr>"])
         (use ops controlled_pinned [OF p] in \<open>auto intro!: calmer_release\<close>)
  qed
  then have "controlled g l (now2, snd (q_transaction (on_ledger (failOperationLease now1 now2 ol err permanent ms)) d))" for ol ms
    by (rule ledger_tx_step [OF p])
  then show ?thesis using p by (simp add: FinishAttempt_def)
qed

lemma CancelJob_step:
  assumes "controlled g l (t, d)" "t \<le> clock a"
  shows "controlled g l (clock a, snd (CancelJob g a s ident d))"
proof -
  have p: "controlled g l (clock a, d)" by (rule pass_step [OF assms])
  have audit: "controlled g l (clock a, d')"
    if "auditJob (eventID a) (clock a) s ''job.cancelled'' ident (d\<lparr>qLedger := led\<rparr>) = Inr d'"
      "dbOps led = update_where (named (scopeTenant s) ident) (\<lambda>r. r\<lparr>opStatus := Cancelled, opError := ''cancelled'',
         opFinished := Some (clock a), opOwner := None, opUntil := None\<rparr>) (q_ops d)" for d' led
    by (rule calm_update [OF p, where p = "named (scopeTenant s) ident" and f = "\<lambda>r. r\<lparr>opStatus := Cancelled,
          opError := ''cancelled'', opFinished := Some (clock a), opOwner := None, opUntil := None\<rparr>"])
       (use that auditJob_Inr [OF that(1)] controlled_pinned [OF p] in \<open>auto simp: pinned_def intro!: calmer_close\<close>)
  show ?thesis
  proof (cases "\<not> Scope_Valid s \<or> \<not> Identifier ident")
    case True
    with p show ?thesis by (auto simp: CancelJob_def)
  next
    case False
    then show ?thesis
      unfolding CancelJob_def if_not_P [OF False]
      by (intro q_transaction_step [OF p order_refl])
         (use p in \<open>auto simp: Let_def split: option.splits sum.splits if_splits elim!: audit\<close>)
  qed
qed

text \<open>Completion: the retention effect leaves dispatched rows alone, then the row itself is closed.\<close>

lemma controlled_ops: "controlled g l (t, d) \<Longrightarrow> queue_ok d"
  by (simp add: controlled_def)

lemma queue_pk_unique:
  "queue_ok d \<Longrightarrow> r \<in> set (q_ops d) \<Longrightarrow> x \<in> set (q_ops d) \<Longrightarrow> op_pk r = op_pk x \<Longrightarrow> r = x"
  by (auto simp: queue_ok_def distinct_map dest: inj_onD)

lemma sweepRows_step:
  assumes "controlled g l (t, d)" "sweepRows skipA skipO tenant opid cutoff limit asof (qLedger d) = (n, led)"
  shows "controlled g l (t, d\<lparr>qLedger := led\<rparr>)"
proof -
  obtain n1 led1 where e: "delete_events tenant (old_events skipA tenant cutoff limit (qLedger d)) (qLedger d) = (n1, led1)"
    and ops1: "dbOps led1 = q_ops d" by (auto simp: delete_events_def Let_def)
  define ids where "ids = old_results skipO tenant opid asof limit led1"
  have led: "dbOps led = update_where (\<lambda>r. opTenant r = tenant \<and> opID r \<in> set ids)
      (\<lambda>r. r\<lparr>opStatus := Expired, opDeletedEvents := 0, opDeletedOps := 0\<rparr>) (q_ops d)"
    using assms(2) e ops1 by (auto simp: sweepRows_def expire_results_def ids_def Let_def)
  have st: "opStatus r = Succeeded" if "r \<in> set (q_ops d)" "opTenant r = tenant" "opID r \<in> set ids" for r
  proof -
    from that(3) obtain x where x: "x \<in> set (q_ops d)" "opTenant x = tenant" "opID x = opID r" "opStatus x = Succeeded"
      by (auto simp: ids_def old_results_def ops1 dest!: in_set_takeD)
    have "x = r" by (rule queue_pk_unique [OF controlled_ops [OF assms(1)] x(1) that(1)]) (simp add: op_pk_def x that(2))
    with x show ?thesis by simp
  qed
  show ?thesis
    by (rule calm_update [OF assms(1), where p = "\<lambda>r. opTenant r = tenant \<and> opID r \<in> set ids"
          and f = "\<lambda>r. r\<lparr>opStatus := Expired, opDeletedEvents := 0, opDeletedOps := 0\<rparr>"])
       (use led st controlled_pinned [OF assms(1)] in \<open>auto simp: calmer_def op_pk_def row_ok_def waiting_def live_def\<close>)
qed

lemma CompleteJob_step:
  assumes "controlled g l (t, d)" "t \<le> now0" "now0 \<le> now1" "now1 \<le> now2"
  shows "controlled g l (now2, snd (CompleteJob g event now0 now1 now2 skipA skipO skipB lease proof d))"
proof -
  have p: "controlled g l (now2, d)" using assms by (intro pass_step [OF assms(1)]) simp
  have close: "controlled g l (now2, d\<lparr>qLedger := led'\<lparr>dbAttempts := as\<rparr>, qBundles := bs\<rparr>)"
    if "sweepRows skipA skipO tenant opid cutoff limit asof (qLedger d) = (n, led)"
      "insert_audit ar (led\<lparr>dbOps := update_where (running_lease now2 lease) (\<lambda>r. r\<lparr>opStatus := Succeeded, opFinished := Some now2,
         opOwner := None, opUntil := None, opError := [], opDeletedEvents := n1, opDeletedOps := n2\<rparr>) (dbOps led)\<rparr>) = Inr led'"
    for tenant opid cutoff limit asof n led ar n1 n2 led' as bs
    by (rule calm_update [OF sweepRows_step [OF p that(1)], where p = "running_lease now2 lease" and f = "\<lambda>r. r\<lparr>opStatus := Succeeded,
          opFinished := Some now2, opOwner := None, opUntil := None, opError := [], opDeletedEvents := n1, opDeletedOps := n2\<rparr>"])
       (use insert_audit_same [OF that(2)] controlled_pinned [OF p] in
         \<open>auto simp: calmer_def op_pk_def row_ok_def waiting_def live_def pinned_def\<close>)
  have "controlled g l (now2, d')" if "complete_tx g event now1 now2 skipA skipO skipB lease proof d = Inr (x, d')" for x d'
    using that unfolding complete_tx_def
    by (auto simp: Let_def split: option.splits sum.splits if_splits prod.splits elim: close)
  from q_transaction_step [OF p order_refl this] show ?thesis
    using p by (auto simp: CompleteJob_def split: sum.splits)
qed

text \<open>Admission: the capacity check leaves room for the one row inserted, which runs nothing.\<close>

lemma insert_job_Inr:
  assumes "insert_job now hours key hash m i j d = Inr d'"
  shows "q_ops d' = q_ops d @ [job_row now hours key hash j]" "qColumns d' = qColumns d @ [columns_row now m i j]"
    "qLimits d' = qLimits d" "(jobTenant j, jobID j) \<notin> op_pk ` set (q_ops d)"
  using assms by (auto simp: insert_job_def list_ex_iff op_pk_def split: if_splits)

lemma columns_of_append:
  assumes "qColumns d' = qColumns d @ [c]" "jc_pk c \<noteq> op_pk r"
  shows "columns_of d' r = columns_of d r"
  using assms by (auto simp: columns_of_def find_append jc_pk_def op_pk_def split: option.splits)

lemma insert_step:
  assumes c: "controlled g l (now, d)" and i: "insert_job now hours key hash m i j d = Inr d'"
    and cap: "queueCapacity now (jobTenant j) k d = Inr ()"
    and k: "MaxPending k = MaxPending l" "MaxPendingPerTenant k = MaxPendingPerTenant l" and max: "0 \<le> jobMaxAttempts j"
  shows "controlled g l (now, d')"
proof -
  note e = insert_job_Inr [OF i]
  let ?row = "job_row now hours key hash j"
  have ok: "queue_ok d" "bounded l now (q_ops d)" "single_flight now d" "pinned g l d" using c by (simp_all add: controlled_def)
  have np: "\<forall>c \<in> set (qColumns d). jcParent c = None" using ok(1) by (simp add: queue_ok_def)
  have row: "op_pk ?row = (jobTenant j, jobID j)" "\<not> busy now ?row" "row_ok ?row" "opTenant ?row = jobTenant j"
    using max by (simp_all add: op_pk_def job_row_def busy_def live_def row_ok_def)
  have new: "jc_pk (columns_row now m i j) = (jobTenant j, jobID j)" "jcParent (columns_row now m i j) = None"
    by (simp_all add: jc_pk_def columns_row_def)
  have "queue_ok d'" using ok(1) e row new by (auto simp: queue_ok_def)
  moreover have "bounded l now (q_ops d')"
    using ok(2) cap k row unfolding bounded_def queueCapacity_def roots_plain [OF np] roots_def
    by (auto simp: e(1) count_rows_def in_tenant_def [abs_def] split: if_splits)
  moreover have "single_flight now d'"
    unfolding single_flight_def
  proof (intro ballI allI impI)
    fix r x sid
    assume "r \<in> set (q_ops d')" "x \<in> set (q_ops d')"
      and h: "busy now r \<and> busy now x \<and> opTenant r = opTenant x \<and> of_schedule d' sid r \<and> of_schedule d' sid x"
    then have rx: "r \<in> set (q_ops d)" "x \<in> set (q_ops d)" using row(2) by (auto simp: e(1))
    then have "op_pk r \<noteq> (jobTenant j, jobID j)" "op_pk x \<noteq> (jobTenant j, jobID j)" using e(4) by (metis imageI)+
    then have "of_schedule d sid r" "of_schedule d sid x"
      using h columns_of_append [OF e(2)] new(1) by (auto simp: of_schedule_def)
    with h rx ok(3) show "opID r = opID x" by (auto simp: single_flight_def)
  qed
  ultimately show ?thesis using ok(4) e(3) by (simp add: controlled_def pinned_def)
qed

lemma insertReportingDelivery_Inr:
  "insertReportingDelivery j d = Inr d' \<Longrightarrow> q_ops d' = q_ops d \<and> qColumns d' = qColumns d \<and> qLimits d' = qLimits d"
  by (auto simp: insertReportingDelivery_def Let_def split: option.splits if_splits)

lemma seal_job_fields:
  assumes "seal_job g resolve request j0 = Inr j"
  shows "jobID j = jobID j0" "jobTenant j = jobTenant j0" "jobMaxAttempts j = jobMaxAttempts j0" "jobKind j = jobKind j0"
    "jobBinding j = jobBinding j0" "jobExecutor j = jobExecutor j0" "jobInitiator j = jobInitiator j0" "jobSession j = jobSession j0"
    "jobPolicy j = jobPolicy j0" "jobDue j = jobDue j0" "jobWindowStart j = jobWindowStart j0" "jobWindowEnd j = jobWindowEnd j0"
    "jobCutoff j = jobCutoff j0" "jobBatch j = jobBatch j0" "jobSchedule j = jobSchedule j0"
    "jobScheduleRevision j = jobScheduleRevision j0" "jobDelivery j = jobDelivery j0" "jobState j = jobState j0" "jobError j = jobError j0"
    "jobAttempts j = jobAttempts j0" "jobDeletedEvents j = jobDeletedEvents j0" "jobDeletedOps j = jobDeletedOps j0"
    "jobPipeline j = jobPipeline j0" "Job_Valid g j"
  using assms by (auto simp: seal_job_def seal_def Let_def split: option.splits sum.splits if_splits)

lemma admit_new_Inr:
  assumes "admit_new g a s session key request l due start sid srev d = Inr (j, d')"
  obtains rv m i d1 d2 where "overlap_guard (scopeTenant s) sid d = Inr ()" "queueCapacity (clock a) (scopeTenant s) l d = Inr ()"
    "current_policy (scopeTenant s) (qLedger d) = Some rv"
    "seal_job g (resolver a) request (base_job (newID a) s session request l due start sid srev rv) = Inr j"
    "dispatch_columns g j d = Inr (m, i)"
    "insert_job (clock a) (rvOperationHours rv) (client_key g s key) (request_hash g request l sid srev) m i j d = Inr d1"
    "insertReportingDelivery j d1 = Inr d2" "auditJob (eventID a) (clock a) s ''job.accepted'' (jobID j) d2 = Inr d'"
  using assms unfolding admit_new_def
  by (auto split: sum.splits option.splits prod.splits intro: that)

lemma admitJob_step:
  assumes "controlled g l (clock a, d)" "admitJob g a s session key request k due start sid srev d = Inr (j, d')"
    and "MaxPending k = MaxPending l" "MaxPendingPerTenant k = MaxPendingPerTenant l" "1 \<le> MaxAttempts k"
  shows "controlled g l (clock a, d')"
proof (cases "find (accepted_row d s (subKind request) (client_key g s key)) (q_ops d)")
  case (Some r)
  then show ?thesis using assms(1,2) by (auto simp: admitJob_def split: sum.splits if_splits)
next
  case None
  then have "admit_new g a s session key request k due start sid srev d = Inr (j, d')" using assms(2) by (simp add: admitJob_def)
  then obtain rv m i d1 d2 where cap: "queueCapacity (clock a) (scopeTenant s) k d = Inr ()"
    and j: "seal_job g (resolver a) request (base_job (newID a) s session request k due start sid srev rv) = Inr j"
    and ins: "insert_job (clock a) (rvOperationHours rv) (client_key g s key) (request_hash g request k sid srev) m i j d = Inr d1"
    and rep: "insertReportingDelivery j d1 = Inr d2" and aud: "auditJob (eventID a) (clock a) s ''job.accepted'' (jobID j) d2 = Inr d'"
    by (rule admit_new_Inr)
  have "jobTenant j = scopeTenant s" "0 \<le> jobMaxAttempts j" using seal_job_fields [OF j] assms(5) by (simp_all add: base_job_def)
  then have "controlled g l (clock a, d1)" using insert_step [OF assms(1) ins _ assms(3,4)] cap by simp
  then show ?thesis
    by (rule calm_same)
       (use insertReportingDelivery_Inr [OF rep] auditJob_Inr [OF aud] insert_job_Inr(3) [OF ins] controlled_pinned [OF assms(1)]
         in \<open>simp_all add: pinned_def\<close>)
qed

lemma AdmitJob_step:
  assumes "collision_free g l" "controlled g l (t, d)" "t \<le> clock a"
  shows "controlled g l (clock a, snd (AdmitJob g a s session key request k d))"
proof -
  have p: "controlled g l (clock a, d)" by (rule pass_step [OF assms(2,3)])
  have "controlled g l (clock a, d')"
    if lock: "queueLock g k d = Inr d1" and adm: "admitJob g a s session key request k due start sid srev d1 = Inr (j, d')"
    for d1 due start sid srev j d'
  proof (rule admitJob_step [OF lock_step(1) [OF p lock] adm])
    note b = same_bounds [OF assms(1) queueLock_Inr(1) [OF lock] lock_step(2) [OF p lock]]
    show "MaxPending k = MaxPending l" "MaxPendingPerTenant k = MaxPendingPerTenant l" by (fact b)+
    show "1 \<le> MaxAttempts k" using queueLock_Inr(1) [OF lock] by (simp add: Limits_Validate_def split: if_splits)
  qed
  then have "controlled g l (clock a, snd (q_transaction (\<lambda>d. case queueLock g k d of Inl err \<Rightarrow> Inl err | Inr d \<Rightarrow>
      admitJob g a s session key request k due start sid srev d) d))" for due start sid srev
    by (intro q_transaction_step [OF p order_refl]) (auto split: sum.splits)
  then show ?thesis using p by (simp add: AdmitJob_def)
qed

subsection \<open>Claiming keeps the bounds\<close>

lemma sweep_overdue_step:
  assumes "controlled g l (t, d)"
  shows "controlled g l (t, d\<lparr>qLedger := sweep_attempts now skipA (sweep_overdue now skip (qLedger d))\<rparr>)"
proof -
  obtain keys where ops: "dbOps (sweep_attempts now skipA (sweep_overdue now skip (qLedger d)))
      = update_where (\<lambda>r. op_pk r \<in> keys) (close_overdue now) (q_ops d)"
    by (simp add: sweep_attempts_def sweep_overdue_def Let_def)
  show ?thesis
    by (rule calm_update [OF assms, where p = "\<lambda>r. op_pk r \<in> keys" and f = "close_overdue now"])
       (use ops controlled_pinned [OF assms] in \<open>auto simp: calmer_def close_overdue_def op_pk_def row_ok_def waiting_def live_def\<close>)
qed

lemma count_rows_one:
  assumes "distinct rows" "\<And>x. x \<in> set rows \<Longrightarrow> p (f x) \<Longrightarrow> q x \<or> x = r"
  shows "count_rows p (map f rows) \<le> count_rows q rows + 1"
proof -
  have "count_rows p (map f rows) \<le> count_rows (\<lambda>x. q x \<or> x = r) rows" using assms(2) by (rule count_rows_map)
  also have "\<dots> \<le> count_rows q rows + count_rows (\<lambda>x. x = r) rows"
    unfolding count_rows_def by (induction rows) auto
  also have "count_rows (\<lambda>x. x = r) rows \<le> 1"
  proof -
    have "set (filter (\<lambda>x. x = r) rows) \<subseteq> {r}" by auto
    then have "card (set (filter (\<lambda>x. x = r) rows)) \<le> 1" by (metis card.empty card.insert card_mono empty_iff finite.intros One_nat_def)
    moreover have "distinct (filter (\<lambda>x. x = r) rows)" using assms(1) by simp
    ultimately show ?thesis unfolding count_rows_def using distinct_card by fastforce
  qed
  finally show ?thesis by simp
qed

lemma next_job_eligible: "next_job now skip l d = Some r \<Longrightarrow> r \<in> set (q_ops d) \<and> eligible now skip l d r"
proof -
  assume "next_job now skip l d = Some r"
  then obtain rest where "sort_key (\<lambda>r. (opNextAttempt r, due_at d r, opID r)) (filter (eligible now skip l d) (q_ops d)) = r # rest"
    by (auto simp: next_job_def split: list.splits)
  then have "r \<in> set (sort_key (\<lambda>r. (opNextAttempt r, due_at d r, opID r)) (filter (eligible now skip l d) (q_ops d)))" by simp
  then show ?thesis by simp
qed

lemma claimed_rows:
  assumes "on_ledger (claimOperationLease now tenant opid owner ms) d = Inr ((fence, attempt, til), d')"
  shows "q_ops d' = map (\<lambda>r. if dispatchable now tenant opid r then claimed_row now owner ms r else r) (q_ops d)"
    "qColumns d' = qColumns d" "qLimits d' = qLimits d"
  using assms by (auto simp: on_ledger_Inr claimOperationLease_def claimed_row_def insert_attempt_def Let_def update_where_def
      split: option.splits if_splits)

lemma eligible_facts:
  assumes "eligible now skip l d r"
  obtains c where "columns_of d r = Some c" "opMode r = ''queued''" "unleased now r"
    "roots (\<lambda>x. active_root now d x \<and> opTenant x = opTenant r) d < TenantConcurrency l" "\<not> schedule_busy now d r c"
  using assms by (auto simp: eligible_def split: option.splits)

text \<open>A change of the rows under which only the row \<open>r\<close> may become live, and none starts to wait.\<close>

definition claims_one :: "int \<Rightarrow> int \<Rightarrow> op_row \<Rightarrow> (op_row \<Rightarrow> op_row) \<Rightarrow> op_row list \<Rightarrow> bool" where
  "claims_one now1 now2 r F rows \<longleftrightarrow> distinct rows \<and> (\<forall>x. op_pk (F x) = op_pk x) \<and>
     (\<forall>x \<in> set rows. (waiting (F x) \<longrightarrow> waiting x) \<and> (busy now2 (F x) \<longrightarrow> busy now1 x \<or> x = r))"

lemma claims_one_bounded:
  assumes one: "claims_one now1 now2 r F rows" and b: "bounded l now1 rows"
    and room: "count_rows (busy now1) rows < GlobalConcurrency l" "count_rows (in_tenant (opTenant r) (busy now1)) rows < TenantConcurrency l"
  shows "bounded l now2 (map F rows)"
proof -
  have ten: "opTenant (F x) = opTenant x" for x using one by (simp add: claims_one_def op_pk_def)
  have wait: "waiting x" if "x \<in> set rows" "waiting (F x)" for x using one that by (simp add: claims_one_def)
  have busy: "busy now1 x \<or> x = r" if "x \<in> set rows" "busy now2 (F x)" for x using one that by (simp add: claims_one_def)
  have dist: "distinct rows" using one by (simp add: claims_one_def)
  have "count_rows waiting (map F rows) \<le> count_rows waiting rows"
    "count_rows (in_tenant t waiting) (map F rows) \<le> count_rows (in_tenant t waiting) rows" for t
    by (rule count_rows_map, use wait in \<open>simp add: in_tenant_def ten\<close>)+
  moreover have "count_rows (busy now2) (map F rows) \<le> count_rows (busy now1) rows + 1"
    by (rule count_rows_one [OF dist busy])
  moreover have "count_rows (in_tenant t (busy now2)) (map F rows) \<le> TenantConcurrency l" for t
  proof (cases "t = opTenant r")
    case True
    have "count_rows (in_tenant t (busy now2)) (map F rows) \<le> count_rows (in_tenant t (busy now1)) rows + 1"
      by (rule count_rows_one [OF dist, where r = r]) (use busy in \<open>auto simp: in_tenant_def ten\<close>)
    with room(2) True show ?thesis by simp
  next
    case False
    have "count_rows (in_tenant t (busy now2)) (map F rows) \<le> count_rows (in_tenant t (busy now1)) rows"
      by (rule count_rows_map) (use busy False in \<open>auto simp: in_tenant_def ten\<close>)
    with b show ?thesis unfolding bounded_def by (meson order_trans)
  qed
  ultimately show ?thesis using b room(1) unfolding bounded_def by (smt (verit))
qed

lemma claims_one_single:
  assumes one: "claims_one now1 now2 r F (q_ops d)" and ops: "q_ops d' = map F (q_ops d)" and cols: "qColumns d' = qColumns d"
    and single: "single_flight now1 d" and free: "columns_of d r = Some rc" "\<not> schedule_busy now1 d r rc"
  shows "single_flight now2 d'"
  unfolding single_flight_def
proof (intro ballI allI impI)
  fix y' x' sid
  assume "y' \<in> set (q_ops d')" "x' \<in> set (q_ops d')"
  then obtain y x where yx: "y \<in> set (q_ops d)" "y' = F y" "x \<in> set (q_ops d)" "x' = F x" unfolding ops by fastforce
  assume h: "busy now2 y' \<and> busy now2 x' \<and> opTenant y' = opTenant x' \<and> of_schedule d' sid y' \<and> of_schedule d' sid x'"
  have pk: "op_pk (F z) = op_pk z" for z using one by (simp add: claims_one_def)
  then have keys: "opTenant y' = opTenant y" "opID y' = opID y" "opTenant x' = opTenant x" "opID x' = opID x"
    by (simp_all add: op_pk_def yx)
  have sched: "of_schedule d sid y" "of_schedule d sid x" using h of_schedule_pk [OF pk cols] yx by auto
  have other: "opID z = opID r" if "z \<in> set (q_ops d)" "busy now1 z" "of_schedule d sid z" "opTenant z = opTenant r" "of_schedule d sid r" for z
    using free that by (auto simp: schedule_busy_def of_schedule_def list_ex_iff busy_def live_def split: option.splits)
  from one h yx have "busy now1 y \<or> y = r" "busy now1 x \<or> x = r" by (simp_all add: claims_one_def)
  then show "opID y' = opID x'"
    using single yx keys sched h other [of x] other [of y] unfolding single_flight_def by metis
qed

lemma claim_step:
  assumes c: "controlled g l (now1, d)" and r: "next_job now1 skip k d = Some r" and le: "now1 \<le> now2"
    and glob: "roots (active_root now1 d) d < GlobalConcurrency k"
    and k: "GlobalConcurrency k = GlobalConcurrency l" "TenantConcurrency k = TenantConcurrency l"
    and cl: "on_ledger (claimOperationLease now2 (opTenant r) (opID r) owner ms) d = Inr ((fence, attempt, til), d')"
  shows "controlled g l (now2, d')"
proof -
  have ok: "queue_ok d" "bounded l now1 (q_ops d)" "single_flight now1 d" "pinned g l d" using c by (simp_all add: controlled_def)
  have np: "\<forall>c \<in> set (qColumns d). jcParent c = None" using ok(1) by (simp add: queue_ok_def)
  have rin: "r \<in> set (q_ops d)" using next_job_eligible [OF r] by blast
  obtain rc where rc: "columns_of d r = Some rc" "opMode r = ''queued''" "unleased now1 r"
    "roots (\<lambda>x. active_root now1 d x \<and> opTenant x = opTenant r) d < TenantConcurrency k" "\<not> schedule_busy now1 d r rc"
    by (rule eligible_facts [OF next_job_eligible [OF r, THEN conjunct2]])
  let ?p = "dispatchable now2 (opTenant r) (opID r)"
  define F where "F = (\<lambda>x. if ?p x then claimed_row now2 owner ms x else x)"
  note rows = claimed_rows [OF cl, folded F_def]
  have only: "x = r" if "x \<in> set (q_ops d)" "?p x" for x
    using queue_pk_unique [OF ok(1) that(1) rin] that(2) by (simp add: dispatchable_def named_def op_pk_def)
  have pk: "op_pk (F x) = op_pk x" for x by (simp add: F_def)
  have one: "claims_one now1 now2 r F (q_ops d)"
    using ok(1) only live_mono [OF _ le]
    by (auto simp: claims_one_def pk queue_ok_def distinct_map F_def busy_def waiting_def dispatched_mode_def dispatchable_def split: if_splits)
  have "map op_pk (q_ops d') = map op_pk (q_ops d)" using pk by (simp add: rows(1) comp_def)
  moreover from arg_cong [OF this, of set] have "op_pk ` set (q_ops d') = op_pk ` set (q_ops d)" by simp
  moreover have "\<forall>x \<in> set (q_ops d'). row_ok x"
    using ok(1) by (auto simp: rows(1) F_def claimed_row_def queue_ok_def row_ok_def dispatchable_def)
  ultimately have "queue_ok d'" using ok(1) unfolding queue_ok_def rows(2) by simp
  moreover have "count_rows (busy now1) (q_ops d) < GlobalConcurrency l" "count_rows (in_tenant (opTenant r) (busy now1)) (q_ops d) < TenantConcurrency l"
    using glob rc(4) k by (simp_all add: roots_plain [OF np] roots_def count_rows_def in_tenant_def [abs_def])
  then have "bounded l now2 (q_ops d')" unfolding rows(1) by (rule claims_one_bounded [OF one ok(2)])
  moreover have "single_flight now2 d'" by (rule claims_one_single [OF one rows(1,2) ok(3) rc(1,5)])
  ultimately show ?thesis using ok(4) rows(3) by (simp add: controlled_def pinned_def)
qed

lemma scanJob_key: "scanJob g d r = Inr j \<Longrightarrow> jobTenant j = opTenant r \<and> jobID j = opID r"
  by (auto simp: scanJob_def row_job_def Let_def split: option.splits if_splits)

lemma ClaimJob_step:
  assumes "collision_free g l" "controlled g l (t, d)" "t \<le> now1" "now1 \<le> now2"
  shows "controlled g l (now2, snd (ClaimJob g now1 now2 skip skipA owner k d))"
proof -
  have p: "controlled g l (now1, d)" by (rule pass_step [OF assms(2,3)])
  have "controlled g l (now2, d')" if tx: "claim_tx g now1 now2 skip skipA owner k d = Inr (x, d')" for x d'
  proof -
    from tx obtain d1 where lock: "queueLock g k d = Inr d1" by (auto simp: claim_tx_def split: sum.splits)
    define d2 where "d2 = d1\<lparr>qLedger := sweep_attempts now1 skipA (sweep_overdue now1 skip (qLedger d1))\<rparr>"
    have c2: "controlled g l (now1, d2)" unfolding d2_def by (rule sweep_overdue_step [OF lock_step(1) [OF p lock]])
    note b = same_bounds [OF assms(1) queueLock_Inr(1) [OF lock] lock_step(2) [OF p lock]]
    consider "d' = d2"
      | r j fence attempt til where "roots (active_root now1 d2) d2 < GlobalConcurrency k" "next_job now1 skip k d2 = Some r"
          "scanJob g d2 r = Inr j"
          "on_ledger (claimOperationLease now2 (jobTenant j) (jobID j) owner (LeaseTime k div millisecond)) d2 = Inr ((fence, attempt, til), d')"
      using tx unfolding claim_tx_def lock sum.case d2_def [symmetric] Let_def
      by (auto split: if_splits option.splits sum.splits prod.splits)
    then show ?thesis
    proof cases
      case 1
      then show ?thesis using pass_step [OF c2 assms(4)] by simp
    next
      case 2
      from claim_step [OF c2 2(2) assms(4) 2(1) b(1,2)] 2(4) scanJob_key [OF 2(3)] show ?thesis by simp
    qed
  qed
  moreover have "controlled g l (now2, d)" by (rule pass_step [OF p assms(4)])
  ultimately have "controlled g l (now2, snd (q_transaction (claim_tx g now1 now2 skip skipA owner k) d))"
    by (intro q_transaction_step [OF _ order_refl])
  then show ?thesis
    using \<open>controlled g l (now2, d)\<close> by (auto simp: ClaimJob_def split: prod.splits sum.splits option.splits)
qed

lemma queue_step_controlled:
  assumes "collision_free g l" "queue_step g st st'" "controlled g l st"
  shows "controlled g l st'"
  using assms(2,3)
  by (cases rule: queue_step.cases)
     (blast intro: pass_step ConfigureQueue_step AdmitJob_step [OF assms(1)] CancelJob_step ClaimJob_step [OF assms(1)]
       HeartbeatJob_step FinishAttempt_step CompleteJob_step)+

interpretation queue_run: invariant_run "queue_step g" "\<lambda>st. collision_free g l \<longrightarrow> controlled g l st" for g l
  by unfold_locales (blast intro: queue_step_controlled)

text \<open>
  C34: the limits hold across all replicas. From a queue configured with some limits and within them, any sequence of
  admissions, cancellations, claims, heartbeats, failures and completions, by any number of replicas with
  whatever limits, as time passes, keeps the database well formed, the pinned limits unchanged, the waiting jobs
  within the pending bounds of the queue and of every tenant, the jobs with a live lease within the concurrency
  bounds of the queue and of every tenant, and at most one live job per schedule.
\<close>

theorem queue_limits_hold:
  assumes "collision_free g l" "(queue_step g)\<^sup>*\<^sup>* st st'" "controlled g l st"
  shows "controlled g l st'"
  using queue_run.run_keeps [OF assms(2)] assms(1,3) by blast

definition queue_lib :: golib where
  "queue_lib = sample_lib\<lparr>sha256_hex := \<lambda>s. s\<rparr>"

definition empty_queue :: queue_db where
  "empty_queue =
     \<lparr>qLedger = \<lparr>dbOps = [], dbAttempts = [], dbAudits = [], dbPolicies = [(''acme'', 1)],
        dbRevisions = [\<lparr>rvTenant = ''acme'', rvRevision = 1, rvAuditDays = 30, rvOperationHours = 24, rvBy = ''ana''\<rparr>]\<rparr>,
      qColumns = [], qLimits = None, qPipelines = [], qDeliveries = [], qSchedules = [], qHistory = [], qReports = [], qOccurrences = [], qRoutes = [],
      qCutovers = [], qAdmissions = [], qBundles = []\<rparr>"

definition configured_queue :: queue_db where
  "configured_queue = snd (ConfigureQueue queue_lib Defaults empty_queue)"

definition sweep_submission :: submission where
  "sweep_submission = \<lparr>subKind = ''retention.sweep'', subBinding = ''nightly'', subPipeline = None, subReporting = None\<rparr>"

definition sample_ambient :: ambient where
  "sample_ambient = \<lparr>newID = ''job1'', eventID = ''ev1'', clock = 1000, resolver = \<lambda>_ _. Inl (FJobs JInvalid)\<rparr>"

definition admitted_queue :: queue_db where
  "admitted_queue = snd (AdmitJob queue_lib sample_ambient \<lparr>scopeTenant = ''acme'', scopeActor = ''ana''\<rparr> ''s1'' ''k1'' sweep_submission Defaults
     configured_queue)"

definition claimed_queue :: queue_db where
  "claimed_queue = snd (ClaimJob queue_lib 2000 2001 (\<lambda>_. False) (\<lambda>_. False) ''w1'' Defaults admitted_queue)"

lemma configured_controlled: "controlled queue_lib Defaults (0, configured_queue)"
proof -
  have "q_ops configured_queue = []" "qColumns configured_queue = []" by code_simp+
  moreover have "qLimits configured_queue = Some (QueueFingerprint queue_lib Defaults, Some calendars_Version)" by code_simp
  ultimately show ?thesis
    by (simp add: controlled_def queue_ok_def pinned_def bounded_def single_flight_def count_rows_def Defaults_def)
qed

theorem queue_limits_hold_witness:
  "(queue_step queue_lib)\<^sup>*\<^sup>* (0, configured_queue) (2001, claimed_queue) \<and> map opStatus (q_ops claimed_queue) = [Running] \<and>
   controlled queue_lib Defaults (2001, claimed_queue)"
proof -
  have c: "clock sample_ambient = 1000" by (simp add: sample_ambient_def)
  have "queue_step queue_lib (0, configured_queue) (1000, admitted_queue)"
    using queue_step.admit [of 0 sample_ambient queue_lib configured_queue] unfolding admitted_queue_def c by simp
  moreover have "queue_step queue_lib (1000, admitted_queue) (2001, claimed_queue)"
    unfolding claimed_queue_def by (rule queue_step.claim) simp_all
  ultimately have run: "(queue_step queue_lib)\<^sup>*\<^sup>* (0, configured_queue) (2001, claimed_queue)" by simp
  have "collision_free queue_lib Defaults" by (simp add: collision_free_def queue_lib_def)
  from queue_limits_hold [OF this run configured_controlled] have "controlled queue_lib Defaults (2001, claimed_queue)" .
  moreover have "map opStatus (q_ops claimed_queue) = [Running]" by code_simp
  ultimately show ?thesis using run by blast
qed

subsection \<open>Replayed admissions\<close>

lemma micro_times: "1000 * (micro t div 1000) = micro t" "1000 * ((micro t - 86400000000000 * n) div 1000) = micro t - 86400000000000 * n"
proof -
  have "(1000 :: int) dvd micro t" by (simp add: micro_def dvd_minus_mod)
  moreover from this have "(1000 :: int) dvd micro t - 86400000000000 * n"
    by (intro dvd_diff dvd_mult2) simp_all
  ultimately show "1000 * (micro t div 1000) = micro t"
    "1000 * ((micro t - 86400000000000 * n) div 1000) = micro t - 86400000000000 * n" by simp_all
qed

lemma reportingDispatchJSON_Inr: "reportingDispatchJSON g j = Inr (m, i) \<Longrightarrow> m = j"
  by (auto simp: reportingDispatchJSON_def split: option.splits if_splits)

lemma scan_admitted:
  assumes seal: "seal_job g resolve request (base_job newid s session request l due start sid srev rv) = Inr j"
    and disp: "dispatch_columns g j d = Inr (m, i)"
    and cols: "columns_of d' (job_row now hours key hash j) = Some (columns_row now m i j)"
  shows "scanJob g d' (job_row now hours key hash j) = Inr j"
proof -
  note f = seal_job_fields [OF seal]
  have row: "row_job (job_row now hours key hash j) (columns_row now m i j) = j\<lparr>jobPipeline := None, jobReporting := None\<rparr>"
    unfolding row_job_def job_row_def columns_row_def
    by (rule job.equality) (simp_all add: f base_job_def micro_times)
  have "m = None \<and> jobPipeline j = None \<and> jobReporting j = None \<or> m = Some j"
    using disp by (auto simp: dispatch_columns_def dest: reportingDispatchJSON_Inr split: option.splits sum.splits if_splits)
  moreover have "Job_Digest g j = jobManifest j" using Job_Valid_parts [OF f(24)] by simp
  moreover have "jcDispatch (columns_row now m i j) = m" by (simp add: columns_row_def)
  moreover have "j\<lparr>jobPipeline := jobPipeline j, jobReporting := jobReporting j\<rparr> = j" by simp
  ultimately show ?thesis
    using f(24) by (auto simp: scanJob_def cols row Let_def)
qed

lemma find_snoc: "find p xs = None \<Longrightarrow> find p (xs @ [x]) = (if p x then Some x else None)"
  by (induction xs) (auto split: if_splits)

text \<open>The database after a fresh admission: one more row, which the replay lookup finds.\<close>

lemma admit_new_row:
  assumes ok: "queue_ok d" and none: "find (accepted_row d s (subKind request) (client_key g s key)) (q_ops d) = None"
    and new: "admit_new g a s session key request l due start sid srev d = Inr (j, d')"
  obtains r where "find (accepted_row d' s (subKind request) (client_key g s key)) (q_ops d') = Some r" "scanJob g d' r = Inr j"
    "opHash r = request_hash g request l sid srev" "jobState j = Pending" "qLimits d' = qLimits d"
  using new
proof (rule admit_new_Inr)
  fix rv :: revision_row and m i d1 d2
  let ?key = "client_key g s key" and ?hash = "request_hash g request l sid srev" and ?hours = "rvOperationHours rv"
  let ?row = "job_row (clock a) ?hours ?key ?hash j" and ?col = "columns_row (clock a) m i j"
  assume seal: "seal_job g (resolver a) request (base_job (newID a) s session request l due start sid srev rv) = Inr j"
    and disp: "dispatch_columns g j d = Inr (m, i)" and ins: "insert_job (clock a) ?hours ?key ?hash m i j d = Inr d1"
    and rep: "insertReportingDelivery j d1 = Inr d2" and aud: "auditJob (eventID a) (clock a) s ''job.accepted'' (jobID j) d2 = Inr d'"
  note e = insert_job_Inr [OF ins] and f = seal_job_fields [OF seal]
  have ops: "q_ops d' = q_ops d @ [?row]" and cols: "qColumns d' = qColumns d @ [?col]" and lim: "qLimits d' = qLimits d"
    using e insertReportingDelivery_Inr [OF rep] auditJob_Inr [OF aud] by simp_all
  have pk: "jc_pk ?col = (jobTenant j, jobID j)" "op_pk ?row = (jobTenant j, jobID j)"
    by (simp_all add: jc_pk_def columns_row_def op_pk_def job_row_def)
  have "jc_pk c \<noteq> op_pk ?row" if "c \<in> set (qColumns d)" for c using ok that e(4) pk by (force simp: queue_ok_def)
  then have "find (\<lambda>c. jcTenant c = opTenant ?row \<and> jcID c = opID ?row) (qColumns d) = None"
    by (auto simp: find_None_iff jc_pk_def op_pk_def)
  then have col: "columns_of d' ?row = Some ?col"
    using pk by (simp add: columns_of_def cols find_snoc jc_pk_def op_pk_def)
  have "columns_of d' x = columns_of d x" if "x \<in> set (q_ops d)" for x
    by (rule columns_of_append [OF cols]) (use that e(4) pk in \<open>metis imageI\<close>)
  then have "accepted_row d' s (subKind request) ?key x = accepted_row d s (subKind request) ?key x" if "x \<in> set (q_ops d)" for x
    using that by (simp add: accepted_row_def initiated_by_def)
  with none have none': "find (accepted_row d' s (subKind request) ?key) (q_ops d) = None" by (auto simp: find_None_iff)
  have acc: "accepted_row d' s (subKind request) ?key ?row"
    by (simp add: accepted_row_def initiated_by_def col, simp add: job_row_def columns_row_def f base_job_def)
  show thesis
  proof (rule that)
    show "find (accepted_row d' s (subKind request) ?key) (q_ops d') = Some ?row" by (simp add: ops find_snoc [OF none'] acc)
    show "scanJob g d' ?row = Inr j" by (rule scan_admitted [OF seal disp col])
    show "opHash ?row = ?hash" by (simp add: job_row_def)
    show "jobState j = Pending" by (simp add: f base_job_def)
    show "qLimits d' = qLimits d" by (fact lim)
  qed
qed

text \<open>
  C35: a repeated key returns its receipt. Once a job is admitted, presenting the same key again, from any session
  at any later time with whatever fresh identifier, returns the very same job and changes nothing, while
  another request of that kind under the key is a conflict and changes nothing either.
\<close>

theorem admit_replay:
  assumes ok: "queue_ok d" and adm: "AdmitJob g a s session key request l d = (Inr j, d')" and ses: "Identifier session2"
  shows "AdmitJob g b s session2 key request l d' = (Inr j, d') \<and>
    (is_ok (Submission_Validate g other) \<and> subKind other = subKind request \<and>
       request_hash g other l [] 0 \<noteq> request_hash g request l [] 0 \<longrightarrow>
     AdmitJob g b s session2 key other l d' = (Inl (FStore StoreErrConflict), d'))"
proof -
  have guards: "Scope_Valid s" "Identifier key" "is_ok (Submission_Validate g request)" "is_ok (Limits_Validate l)"
    using adm by (auto simp: AdmitJob_def split: if_splits)
  obtain d1 where lock: "queueLock g l d = Inr d1"
    and inner: "admitJob g a s session key request l (1000 * clock a) (1000 * clock a) [] 0 d1 = Inr (j, d')"
    using adm by (auto simp: AdmitJob_def q_transaction_def split: if_splits sum.splits)
  note q = queueLock_Inr [OF lock]
  from q(4) ok have ok1: "queue_ok d1" unfolding queue_ok_def by (elim exE) simp
  obtain r where r: "find (accepted_row d' s (subKind request) (client_key g s key)) (q_ops d') = Some r" "scanJob g d' r = Inr j"
    "opHash r = request_hash g request l [] 0" "jobState j \<noteq> Expired" "qLimits d' = qLimits d1"
  proof (cases "find (accepted_row d1 s (subKind request) (client_key g s key)) (q_ops d1)")
    case (Some r)
    with inner have "d' = d1" "scanJob g d1 r = Inr j" "opHash r = request_hash g request l [] 0" "jobState j \<noteq> Expired"
      by (auto simp: admitJob_def split: sum.splits if_splits)
    with Some that show ?thesis by blast
  next
    case None
    with inner have "admit_new g a s session key request l (1000 * clock a) (1000 * clock a) [] 0 d1 = Inr (j, d')"
      by (simp add: admitJob_def)
    from admit_new_row [OF ok1 None this] that show ?thesis by fastforce
  qed
  have lock': "queueLock g l d' = Inr d'" using r(5) q(5) guards by (simp add: queueLock_def)
  show ?thesis
    using guards ses r by (simp add: AdmitJob_def q_transaction_def lock' admitJob_def)
qed

definition other_submission :: submission where
  "other_submission = sweep_submission\<lparr>subBinding := ''hourly''\<rparr>"

theorem admit_replay_witness:
  "\<exists>j. AdmitJob queue_lib sample_ambient \<lparr>scopeTenant = ''acme'', scopeActor = ''ana''\<rparr> ''s1'' ''k1'' sweep_submission Defaults configured_queue
         = (Inr j, admitted_queue) \<and>
     AdmitJob queue_lib (sample_ambient\<lparr>newID := ''job2''\<rparr>) \<lparr>scopeTenant = ''acme'', scopeActor = ''ana''\<rparr> ''s2'' ''k1'' sweep_submission
       Defaults admitted_queue = (Inr j, admitted_queue) \<and>
     AdmitJob queue_lib (sample_ambient\<lparr>newID := ''job2''\<rparr>) \<lparr>scopeTenant = ''acme'', scopeActor = ''ana''\<rparr> ''s2'' ''k1'' other_submission
       Defaults admitted_queue = (Inl (FStore StoreErrConflict), admitted_queue)"
proof -
  let ?s = "\<lparr>scopeTenant = ''acme'', scopeActor = ''ana''\<rparr>"
  have ok: "queue_ok configured_queue" using configured_controlled by (simp add: controlled_def)
  have "is_ok (fst (AdmitJob queue_lib sample_ambient ?s ''s1'' ''k1'' sweep_submission Defaults configured_queue))" by code_simp
  then obtain j where j: "AdmitJob queue_lib sample_ambient ?s ''s1'' ''k1'' sweep_submission Defaults configured_queue = (Inr j, admitted_queue)"
    unfolding admitted_queue_def by (cases "AdmitJob queue_lib sample_ambient ?s ''s1'' ''k1'' sweep_submission Defaults configured_queue")
      (auto split: sum.splits simp: is_ok_def)
  have ses: "Identifier ''s2''" and sub: "is_ok (Submission_Validate queue_lib other_submission)"
    and kind: "subKind other_submission = subKind sweep_submission"
    and hash: "request_hash queue_lib other_submission Defaults [] 0 \<noteq> request_hash queue_lib sweep_submission Defaults [] 0"
    by code_simp+
  from admit_replay [OF ok j ses] sub kind hash j show ?thesis by blast
qed

subsection \<open>Claiming serves the first eligible job\<close>

definition tidied :: "int \<Rightarrow> (string \<times> string \<Rightarrow> bool) \<Rightarrow> (string \<times> string \<times> int \<Rightarrow> bool) \<Rightarrow> queue_db \<Rightarrow> queue_db" where
  "tidied now skip skipA d = d\<lparr>qLedger := sweep_attempts now skipA (sweep_overdue now skip (qLedger d))\<rparr>"

lemma tidied_same [simp]:
  "qColumns (tidied now skip skipA d) = qColumns d" "columns_of (tidied now skip skipA d) r = columns_of d r"
  "of_schedule (tidied now skip skipA d) sid r = of_schedule d sid r" "routed (tidied now skip skipA d) r c = routed d r c"
  "due_at (tidied now skip skipA d) r = due_at d r" "scanJob g (tidied now skip skipA d) r = scanJob g d r"
  by (simp_all add: tidied_def columns_of_def of_schedule_def routed_def route_of_def cutover_of_def due_at_def scanJob_def
      cong: option.case_cong)

text \<open>The sweep closes only overdue rows, which are neither live nor eligible.\<close>

lemma tidied_rows:
  assumes "queue_ok d"
  obtains F where "q_ops (tidied now skip skipA d) = map F (q_ops d)"
    "\<And>r. r \<in> set (q_ops d) \<Longrightarrow> F r = r \<or> overdue now skip r \<and> F r = close_overdue now r"
proof
  define keys where "keys = map op_pk (take 100 (sort_key opNextAttempt (filter (overdue now skip) (q_ops d))))"
  let ?F = "\<lambda>r. if op_pk r \<in> set keys then close_overdue now r else r"
  show "q_ops (tidied now skip skipA d) = map ?F (q_ops d)"
    by (simp add: tidied_def sweep_attempts_def sweep_overdue_def Let_def update_where_def keys_def)
  show "?F r = r \<or> overdue now skip r \<and> ?F r = close_overdue now r" if r: "r \<in> set (q_ops d)" for r
  proof (cases "op_pk r \<in> set keys")
    case True
    then obtain x where "x \<in> set (q_ops d)" "overdue now skip x" "op_pk x = op_pk r"
      by (auto simp: keys_def dest!: in_set_takeD)
    with queue_pk_unique [OF assms _ r] True show ?thesis by auto
  qed simp
qed

lemma close_overdue_idle:
  assumes "overdue now skip r"
  shows "\<not> live now r" "\<not> live now (close_overdue now r)" "\<not> eligible now skip' l d r" "\<not> eligible now skip' l d' (close_overdue now r)"
    "op_pk (close_overdue now r) = op_pk r" "opMode (close_overdue now r) = opMode r"
  using assms
  by (auto simp: overdue_def live_def unleased_def eligible_def close_overdue_def op_pk_def split: option.splits)

lemma tidied_queue:
  assumes ok: "queue_ok d"
  shows "roots (active_root now (tidied now skip skipA d)) (tidied now skip skipA d) = roots (active_root now d) d"
    "next_job now skip' l (tidied now skip skipA d) = next_job now skip' l d"
proof -
  let ?d = "tidied now skip skipA d"
  obtain F where F: "q_ops ?d = map F (q_ops d)"
    and row: "\<And>r. r \<in> set (q_ops d) \<Longrightarrow> F r = r \<or> overdue now skip r \<and> F r = close_overdue now r"
    using tidied_rows [OF ok] by blast
  have np: "\<forall>c \<in> set (qColumns d). jcParent c = None" using ok by (simp add: queue_ok_def)
  have pk: "op_pk (F r) = op_pk r" and bz: "busy now (F r) = busy now r" if "r \<in> set (q_ops d)" for r
    using row [OF that] close_overdue_idle [of now skip r] by (auto simp: busy_def dispatched_mode_def)
  have ten: "opTenant (F r) = opTenant r" "opID (F r) = opID r" if "r \<in> set (q_ops d)" for r
    using pk [OF that] by (simp_all add: op_pk_def)
  have count: "length (filter (\<lambda>r. busy now r \<and> q (opTenant r)) (q_ops ?d)) = length (filter (\<lambda>r. busy now r \<and> q (opTenant r)) (q_ops d))" for q
    unfolding F by (simp add: filter_map comp_def) (intro arg_cong [where f = length] filter_cong, simp_all add: bz ten)
  show "roots (active_root now ?d) ?d = roots (active_root now d) d"
    using count [of "\<lambda>_. True"] by (simp add: roots_def roots_plain [OF np] roots_plain [of ?d] np)
  have roots: "roots (\<lambda>x. active_root now ?d x \<and> opTenant x = t) ?d = roots (\<lambda>x. active_root now d x \<and> opTenant x = t) d" for t
    using count [of "\<lambda>x. x = t"] by (simp add: roots_def roots_plain [OF np] roots_plain [of ?d] np)
  have sb: "schedule_busy now ?d r c = schedule_busy now d r c" for r c
  proof -
    have "(opTenant (F x) = opTenant r \<and> of_schedule d sid (F x) \<and> opID (F x) \<noteq> opID r \<and> opStatus (F x) = Running \<and>
         (case opUntil (F x) of None \<Rightarrow> False | Some t \<Rightarrow> now < t)) =
      (opTenant x = opTenant r \<and> of_schedule d sid x \<and> opID x \<noteq> opID r \<and> opStatus x = Running \<and>
         (case opUntil x of None \<Rightarrow> False | Some t \<Rightarrow> now < t))" if "x \<in> set (q_ops d)" for x sid
      using row [OF that] by (auto simp: overdue_def unleased_def close_overdue_def split: option.splits)
    then show ?thesis unfolding schedule_busy_def F by (auto simp: list_ex_iff split: option.splits)
  qed
  have el: "eligible now skip' l ?d (F r) = eligible now skip' l d r" "eligible now skip' l d r \<Longrightarrow> F r = r" if "r \<in> set (q_ops d)" for r
    using row [OF that] close_overdue_idle(3,4) [of now skip r] by (auto simp: eligible_def roots sb cong: option.case_cong)
  have "filter (eligible now skip' l ?d) (q_ops ?d) = map F (filter (eligible now skip' l d) (q_ops d))"
    unfolding F by (simp add: filter_map comp_def) (intro arg_cong [where f = "map F"] filter_cong, simp_all add: el)
  also have "\<dots> = filter (eligible now skip' l d) (q_ops d)" by (rule map_idI) (simp add: el)
  finally show "next_job now skip' l ?d = next_job now skip' l d" by (simp add: next_job_def)
qed

definition claim_order :: "queue_db \<Rightarrow> op_row \<Rightarrow> int \<times> int \<times> string" where
  "claim_order d r = (opNextAttempt r, due_at d r, opID r)"

lemma next_job_first:
  assumes "x \<in> set (q_ops d)" "eligible now skip l d x"
  obtains r where "next_job now skip l d = Some r" "\<forall>y \<in> set (q_ops d). eligible now skip l d y \<longrightarrow> claim_order d r \<le> claim_order d y"
proof -
  let ?es = "sort_key (claim_order d) (filter (eligible now skip l d) (q_ops d))"
  from assms have "x \<in> set ?es" by simp
  then obtain r rest where es: "?es = r # rest" by (cases ?es) auto
  have "sorted (map (claim_order d) ?es)" by simp
  then have "\<forall>y \<in> set ?es. claim_order d r \<le> claim_order d y" unfolding es by auto
  then have "\<forall>y \<in> set (q_ops d). eligible now skip l d y \<longrightarrow> claim_order d r \<le> claim_order d y" by simp
  moreover have "next_job now skip l d = Some r"
    using es by (simp add: next_job_def claim_order_def [abs_def])
  ultimately show thesis using that by blast
qed

text \<open>The attempts on record are numbered up to the counts of their rows.\<close>

definition numbered :: "database \<Rightarrow> bool" where
  "numbered led \<longleftrightarrow> (\<forall>r \<in> set (dbOps led). \<forall>a \<in> set (dbAttempts led). of_op (opTenant r) (opID r) a \<longrightarrow>
     atFence a \<le> opFence r \<and> atAttempt a \<le> opAttempts r)"

lemma claim_accepts:
  assumes ok: "queue_ok d" and r: "r \<in> set (q_ops d)" "dispatchable now (opTenant r) (opID r) r"
    and free: "\<forall>a \<in> set (dbAttempts (qLedger d)). of_op (opTenant r) (opID r) a \<longrightarrow> atFence a \<le> opFence r \<and> atAttempt a \<le> opAttempts r"
  shows "\<exists>d'. on_ledger (claimOperationLease now (opTenant r) (opID r) owner ms) d
    = Inr ((opFence r + 1, opAttempts r + 1, min (opExpires r) (now + ms * 1000)), d')"
proof -
  have "find (dispatchable now (opTenant r) (opID r)) (q_ops d) = Some r"
  proof (cases "find (dispatchable now (opTenant r) (opID r)) (q_ops d)")
    case None
    with r show ?thesis by (simp add: find_None_iff)
  next
    case (Some x)
    then have "x \<in> set (q_ops d)" "named (opTenant r) (opID r) x" by (auto simp: find_Some_iff dispatchable_def)
    with queue_pk_unique [OF ok _ r(1)] Some show ?thesis by (simp add: named_def op_pk_def)
  qed
  moreover have "\<not> list_ex (\<lambda>b. of_op (opTenant r) (opID r) b \<and> (atFence b = opFence r + 1 \<or> atAttempt b = opAttempts r + 1))
      (close_attempts (of_op (opTenant r) (opID r)) Abandoned ''lease_lost'' now (dbAttempts (qLedger d)))"
    using free by (fastforce simp: list_ex_iff close_attempts_def of_op_def)
  ultimately show ?thesis by (simp add: on_ledger_def claimOperationLease_def insert_attempt_def Let_def)
qed

lemma relimit_same [simp]:
  "columns_of (d\<lparr>qLimits := row\<rparr>) = columns_of d" "of_schedule (d\<lparr>qLimits := row\<rparr>) = of_schedule d"
  "active_root now (d\<lparr>qLimits := row\<rparr>) = active_root now d" "routed (d\<lparr>qLimits := row\<rparr>) = routed d"
  "roots p (d\<lparr>qLimits := row\<rparr>) = roots p d"
  by (simp_all add: fun_eq_iff columns_of_def of_schedule_def active_root_def parent_live_def routed_def route_of_def cutover_of_def
      roots_def cong: option.case_cong)

lemma relimit_eligible [simp]: "eligible now skip l (d\<lparr>qLimits := row\<rparr>) = eligible now skip l d"
  by (simp add: fun_eq_iff eligible_def schedule_busy_def cong: option.case_cong)

lemma tidied_attempts:
  assumes "\<forall>a \<in> set (dbAttempts (qLedger d)). of_op t i a \<longrightarrow> atFence a \<le> f \<and> atAttempt a \<le> n"
  shows "\<forall>a \<in> set (dbAttempts (qLedger (tidied now skip skipA d))). of_op t i a \<longrightarrow> atFence a \<le> f \<and> atAttempt a \<le> n"
  using assms by (fastforce simp: tidied_def sweep_attempts_def sweep_overdue_def Let_def of_op_def)

lemma tidied_ok:
  assumes ok: "queue_ok d"
  shows "queue_ok (tidied now skip skipA d)"
proof -
  obtain F where F: "q_ops (tidied now skip skipA d) = map F (q_ops d)"
    and row: "\<And>r. r \<in> set (q_ops d) \<Longrightarrow> F r = r \<or> overdue now skip r \<and> F r = close_overdue now r"
    using tidied_rows [OF ok] by blast
  have pk: "op_pk (F r) = op_pk r" if "r \<in> set (q_ops d)" for r
    using row [OF that] close_overdue_idle(5) [of now skip r] by auto
  let ?d = "tidied now skip skipA d"
  have "row_ok (F r)" if "r \<in> set (q_ops d)" for r
    using ok row [OF that] that by (auto simp: queue_ok_def row_ok_def close_overdue_def split: if_splits)
  then have "\<forall>r \<in> set (q_ops ?d). row_ok r" by (simp add: F)
  moreover have "map op_pk (q_ops ?d) = map op_pk (q_ops d)" using pk by (simp add: F)
  moreover from arg_cong [OF this, of set] have "op_pk ` set (q_ops ?d) = op_pk ` set (q_ops d)" by simp
  ultimately show ?thesis using ok by (simp add: queue_ok_def)
qed



subsection \<open>A settled lease stays settled\<close>

text \<open>Rows only move on: a row runs again under a fence it already had only if it was running.\<close>

definition moves :: "op_row \<Rightarrow> op_row \<Rightarrow> bool" where
  "moves r r' \<longleftrightarrow> op_pk r' = op_pk r \<and> (opFence r < opFence r' \<or> opFence r = opFence r' \<and> (opStatus r' = Running \<longrightarrow> opStatus r = Running))"

definition evolves :: "op_row list \<Rightarrow> op_row list \<Rightarrow> bool" where
  "evolves rows rows' \<longleftrightarrow> (distinct (map op_pk rows) \<longrightarrow> distinct (map op_pk rows')) \<and> (\<forall>r \<in> set rows. \<exists>r' \<in> set rows'. moves r r')"

lemma moves_refl [simp]: "moves r r"
  by (simp add: moves_def)

lemma evolves_refl [simp]: "evolves rows rows"
  by (auto simp: evolves_def intro!: bexI [of _ r for r])

lemma moves_trans: "moves a b \<Longrightarrow> moves b c \<Longrightarrow> moves a c"
  by (auto simp: moves_def)

lemma evolves_trans: "evolves a b \<Longrightarrow> evolves b c \<Longrightarrow> evolves a c"
  unfolding evolves_def by (meson moves_trans)

lemma evolves_update:
  assumes "\<And>r. r \<in> set rows \<Longrightarrow> p r \<Longrightarrow> moves r (f r)"
  shows "evolves rows (update_where p f rows)"
proof -
  let ?f = "\<lambda>r. if p r then f r else r"
  have m: "moves r (?f r)" if "r \<in> set rows" for r using assms that by simp
  then have "map op_pk (update_where p f rows) = map op_pk rows" by (auto simp: update_where_def moves_def)
  moreover have "\<forall>r \<in> set rows. \<exists>r' \<in> set (update_where p f rows). moves r r'" unfolding set_update_where using m by blast
  ultimately show ?thesis by (simp add: evolves_def)
qed

lemma evolves_append: "op_pk r \<notin> op_pk ` set rows \<Longrightarrow> evolves rows (rows @ [r])"
  by (auto simp: evolves_def intro!: bexI [of _ r for r])

lemma ledger_evolves:
  "renewOperationLease now ol ms led = Inr (x, led') \<Longrightarrow> evolves (dbOps led) (dbOps led')"
  "failOperationLease now1 now2 ol err permanent ms led = Inr (x, led') \<Longrightarrow> evolves (dbOps led) (dbOps led')"
  "claimOperationLease now tenant opid owner ms led = Inr (y, led') \<Longrightarrow> evolves (dbOps led) (dbOps led')"
  by (auto simp: renewOperationLease_def failOperationLease_def claimOperationLease_def insert_attempt_def Let_def moves_def op_pk_def
      held_def split: option.splits if_splits intro!: evolves_update)

lemma q_transaction_evolves:
  assumes "\<And>x d'. fn d = Inr (x, d') \<Longrightarrow> evolves (q_ops d) (q_ops d')"
  shows "evolves (q_ops d) (q_ops (snd (q_transaction fn d)))"
  using assms by (auto simp: snd_q_transaction split: sum.splits)

lemma on_ledger_evolves:
  "on_ledger fn d = Inr (x, d') \<Longrightarrow> (\<And>y led. fn (qLedger d) = Inr (y, led) \<Longrightarrow> evolves (q_ops d) (dbOps led)) \<Longrightarrow> evolves (q_ops d) (q_ops d')"
  by (auto simp: on_ledger_Inr)

lemma lock_evolves: "queueLock g l d = Inr d' \<Longrightarrow> q_ops d' = q_ops d"
  using queueLock_Inr(4) by fastforce

lemma AdmitJob_evolves: "evolves (q_ops d) (q_ops (snd (AdmitJob g a s session key request l d)))"
proof -
  have new: "evolves (q_ops d) (q_ops d')" if "admit_new g a s session key request l due start sid srev d = Inr (j, d')"
    for d d' j due start sid srev
    using that
  proof (rule admit_new_Inr)
    fix rv m i d1 d2
    assume ins: "insert_job (clock a) (rvOperationHours rv) (client_key g s key) (request_hash g request l sid srev) m i j d = Inr d1"
      and rep: "insertReportingDelivery j d1 = Inr d2" and aud: "auditJob (eventID a) (clock a) s ''job.accepted'' (jobID j) d2 = Inr d'"
    let ?row = "job_row (clock a) (rvOperationHours rv) (client_key g s key) (request_hash g request l sid srev) j"
    have "q_ops d' = q_ops d @ [?row]" using insert_job_Inr(1) [OF ins] insertReportingDelivery_Inr [OF rep] auditJob_Inr [OF aud] by simp
    moreover have "op_pk ?row \<notin> op_pk ` set (q_ops d)" using insert_job_Inr(4) [OF ins] by (simp add: op_pk_def job_row_def)
    ultimately show ?thesis by (simp add: evolves_append)
  qed
  have adm: "evolves (q_ops d) (q_ops d')" if "admitJob g a s session key request l due start sid srev d = Inr (j, d')"
    for d d' j due start sid srev
    using that new by (auto simp: admitJob_def split: option.splits sum.splits if_splits)
  have "evolves (q_ops d) (q_ops d')" if "(case queueLock g l d of Inl err \<Rightarrow> Inl err | Inr d \<Rightarrow>
      admitJob g a s session key request l due start sid srev d) = Inr (j, d')" for d' j due start sid srev
  proof (cases "queueLock g l d")
    case (Inr d1)
    with that have "admitJob g a s session key request l due start sid srev d1 = Inr (j, d')" by simp
    from adm [OF this] show ?thesis by (simp add: lock_evolves [OF Inr])
  qed (use that in simp)
  then have "evolves (q_ops d) (q_ops (snd (q_transaction (\<lambda>d. case queueLock g l d of Inl err \<Rightarrow> Inl err | Inr d \<Rightarrow>
      admitJob g a s session key request l due start sid srev d) d)))" for due start sid srev
    by (rule q_transaction_evolves)
  then show ?thesis by (simp add: AdmitJob_def)
qed

lemma CancelJob_evolves: "evolves (q_ops d) (q_ops (snd (CancelJob g a s ident d)))"
proof -
  have "evolves (q_ops d) (q_ops d')"
    if "auditJob event now s action ident (d\<lparr>qLedger := led\<rparr>) = Inr d'" "dbOps led = update_where p (\<lambda>r. r\<lparr>opStatus := Cancelled,
      opError := e, opFinished := f, opOwner := None, opUntil := None\<rparr>) (q_ops d)" for d' led event now action p e f
    using auditJob_Inr [OF that(1)] that(2) by (auto simp: moves_def op_pk_def intro!: evolves_update)
  then show ?thesis
    unfolding CancelJob_def
    by (auto simp: Let_def split: option.splits sum.splits if_splits intro!: q_transaction_evolves)
qed

lemma ClaimJob_evolves: "evolves (q_ops d) (q_ops (snd (ClaimJob g now1 now2 skip skipA owner l d)))"
proof -
  have "evolves (q_ops d) (q_ops d')" if tx: "claim_tx g now1 now2 skip skipA owner l d = Inr (x, d')" for x d'
  proof -
    from tx obtain d1 where lock: "queueLock g l d = Inr d1" by (auto simp: claim_tx_def split: sum.splits)
    let ?s = "tidied now1 skip skipA d1"
    have s: "evolves (q_ops d) (q_ops ?s)"
      unfolding lock_evolves [OF lock, symmetric]
      by (auto simp: tidied_def sweep_attempts_def sweep_overdue_def Let_def moves_def close_overdue_def op_pk_def intro!: evolves_update)
    consider "d' = ?s" | tenant opid ms y where "on_ledger (claimOperationLease now2 tenant opid owner ms) ?s = Inr (y, d')"
      using tx unfolding claim_tx_def lock sum.case tidied_def [symmetric] Let_def
      by (auto split: if_splits option.splits sum.splits prod.splits)
    then show ?thesis
    proof cases
      case 2
      have "evolves (q_ops ?s) (q_ops d')" by (rule on_ledger_evolves [OF 2]) (rule ledger_evolves(3))
      with s show ?thesis by (rule evolves_trans)
    qed (use s in simp)
  qed
  then have "evolves (q_ops d) (q_ops (snd (q_transaction (claim_tx g now1 now2 skip skipA owner l) d)))" by (rule q_transaction_evolves)
  then show ?thesis
    by (auto simp: ClaimJob_def split: prod.splits sum.splits option.splits)
qed

lemma sweepRows_evolves:
  assumes "sweepRows skipA skipO tenant opid cutoff limit asof led = (n, led')"
  shows "evolves (dbOps led) (dbOps led')"
  using assms
  by (auto simp: sweepRows_def delete_events_def expire_results_def Let_def moves_def op_pk_def intro!: evolves_update)

definition done_row :: "int \<Rightarrow> int \<Rightarrow> int \<Rightarrow> op_row \<Rightarrow> op_row" where
  "done_row now n1 n2 r = r\<lparr>opStatus := Succeeded, opFinished := Some now, opOwner := None, opUntil := None, opError := [],
     opDeletedEvents := n1, opDeletedOps := n2\<rparr>"

lemma complete_tx_rows:
  assumes "complete_tx g event now1 now2 skipA skipO skipB lease proof d = Inr (j, d')"
  obtains rows n1 n2 where "evolves (q_ops d) rows" "affected (running_lease now2 lease) rows = 1"
    "q_ops d' = update_where (running_lease now2 lease) (done_row now2 n1 n2) rows"
proof -
  define Q where "Q rows' \<longleftrightarrow> (\<exists>rows n1 n2. evolves (q_ops d) rows \<and> affected (running_lease now2 lease) rows = 1 \<and>
      rows' = update_where (running_lease now2 lease) (done_row now2 n1 n2) rows)" for rows'
  have "Q (dbOps led')" if "sweepRows skipA skipO tenant opid cutoff limit asof (qLedger d) = (n, led)"
      "affected (running_lease now2 lease) (dbOps led) = 1"
      "insert_audit ar (led\<lparr>dbOps := update_where (running_lease now2 lease) (done_row now2 n1 n2) (dbOps led)\<rparr>) = Inr led'"
    for tenant opid cutoff limit asof n led ar n1 n2 led'
    using sweepRows_evolves [OF that(1)] that(2) insert_audit_same [OF that(3)] unfolding Q_def
    by - (rule exI [of _ "dbOps led"], rule exI [of _ n1], rule exI [of _ n2], simp)
  then have "Q (q_ops d')"
    using assms unfolding complete_tx_def done_row_def [symmetric]
    by (auto simp: Let_def split: option.splits sum.splits if_splits prod.splits)
  then show thesis using that unfolding Q_def by blast
qed

lemma CompleteJob_evolves: "evolves (q_ops d) (q_ops (snd (CompleteJob g event now0 now1 now2 skipA skipO skipB lease proof d)))"
proof -
  have "evolves (q_ops d) (q_ops d')" if "complete_tx g event now1 now2 skipA skipO skipB lease proof d = Inr (j, d')" for j d'
    using that
  proof (rule complete_tx_rows)
    fix rows n1 n2
    assume "evolves (q_ops d) rows" "q_ops d' = update_where (running_lease now2 lease) (done_row now2 n1 n2) rows"
    moreover have "evolves rows (update_where (running_lease now2 lease) (done_row now2 n1 n2) rows)"
      by (rule evolves_update) (simp add: moves_def done_row_def op_pk_def)
    ultimately show ?thesis by (simp add: evolves_trans)
  qed
  then have "evolves (q_ops d) (q_ops (snd (q_transaction (complete_tx g event now1 now2 skipA skipO skipB lease proof) d)))"
    by (rule q_transaction_evolves)
  then show ?thesis by (simp add: CompleteJob_def split: sum.splits)
qed

lemma FinishAttempt_evolves: "evolves (q_ops d) (q_ops (snd (FinishAttempt g now1 now2 lease err permanent delay d)))"
  by (auto simp: FinishAttempt_def intro!: q_transaction_evolves elim!: on_ledger_evolves ledger_evolves(2))

lemma queue_step_evolves: "queue_step g st st' \<Longrightarrow> evolves (q_ops (snd st)) (q_ops (snd st'))"
proof (induction rule: queue_step.induct)
  case (configure t d l)
  have "evolves (q_ops d) (q_ops (snd (ConfigureQueue g l d)))"
    unfolding ConfigureQueue_def by (rule q_transaction_evolves) (auto dest: lock_evolves split: sum.splits)
  then show ?case by simp
next
  case (heartbeat t now d lease ttl)
  then show ?case
    by (auto simp: HeartbeatJob_def intro!: q_transaction_evolves elim!: on_ledger_evolves ledger_evolves(1))
qed (simp_all add: FinishAttempt_evolves AdmitJob_evolves CancelJob_evolves ClaimJob_evolves CompleteJob_evolves)

interpretation evolving_run: ordered_run "queue_step g" "\<lambda>_. True" "\<lambda>st st'. evolves (q_ops (snd st)) (q_ops (snd st'))" for g
  by unfold_locales (auto intro: evolves_trans queue_step_evolves)

text \<open>A fence is spent when its row has a higher one or no longer runs.\<close>

definition spent :: "string \<Rightarrow> string \<Rightarrow> int \<Rightarrow> op_row list \<Rightarrow> bool" where
  "spent tenant ident fence rows \<longleftrightarrow>
     (\<exists>r \<in> set rows. named tenant ident r \<and> (fence < opFence r \<or> fence = opFence r \<and> opStatus r \<noteq> Running))"

lemma spent_evolves: "spent tenant ident fence rows \<Longrightarrow> evolves rows rows' \<Longrightarrow> spent tenant ident fence rows'"
  unfolding spent_def evolves_def moves_def named_def op_pk_def by (metis order_less_trans prod.inject)

lemma spent_lower: "spent tenant ident fence rows \<Longrightarrow> fence' \<le> fence \<Longrightarrow> spent tenant ident fence' rows"
  unfolding spent_def by (metis leD not_less_iff_gr_or_eq order_less_trans)

lemma spent_powerless:
  assumes "spent tenant ident fence rows" "distinct (map op_pk rows)" "r \<in> set rows" "named tenant ident r" "opStatus r = Running"
  shows "\<not> holds now owner fence r"
proof -
  obtain x where x: "x \<in> set rows" "named tenant ident x" "fence < opFence x \<or> fence = opFence x \<and> opStatus x \<noteq> Running"
    using assms(1) by (auto simp: spent_def)
  have "x = r" by (rule inj_onD [of op_pk "set rows"]) (use assms x in \<open>auto simp: distinct_map named_def op_pk_def\<close>)
  with x assms(5) show ?thesis by (auto simp: holds_def)
qed

lemma FinishAttempt_spends:
  assumes "FinishAttempt g now1 now2 lease err permanent delay d = (Inr u, d')"
  shows "spent (jobTenant (jlJob lease)) (jobID (jlJob lease)) (jlFence lease) (q_ops d')"
proof -
  obtain led where led: "failOperationLease now1 now2 (queue_lease lease) err permanent (delay div millisecond) (qLedger d) = Inr (u, led)"
    and d': "d' = d\<lparr>qLedger := led\<rparr>"
    using assms by (auto simp: FinishAttempt_def q_transaction_def on_ledger_def split: if_splits sum.splits)
  then obtain r where r: "find (held now1 (queue_lease lease)) (q_ops d) = Some r" by (auto simp: failOperationLease_def split: option.splits)
  then have m: "r \<in> set (q_ops d)" and h: "held now1 (queue_lease lease) r" by (auto simp: find_Some_iff)
  then have "named (jobTenant (jlJob lease)) (jobID (jlJob lease)) r" "opOwner r = Some (jlOwner lease)" "opFence r = jlFence lease"
    by (auto simp: held_def holds_def queue_lease_def)
  with led r m show ?thesis
    unfolding spent_def d' failOperationLease_def
    by (intro bexI [of _ "r\<lparr>opStatus := (if permanent then Blocked else if opAttempts r \<ge> opMaxAttempts r then Failed else Retry),
          opError := err, opOwner := None, opUntil := None,
          opFinished := (if (if permanent then Blocked else if opAttempts r \<ge> opMaxAttempts r then Failed else Retry) = Retry
             then None else Some now2), opNextAttempt := now2 + delay div millisecond * 1000\<rparr>"])
       (auto simp: Let_def queue_lease_def named_def image_iff intro!: bexI [of _ r])
qed

lemma CompleteJob_spends:
  assumes "CompleteJob g event now0 now1 now2 skipA skipO skipB lease proof d = (Inr j, d')"
  shows "spent (jobTenant (jlJob lease)) (jobID (jlJob lease)) (jlFence lease) (q_ops d')"
proof -
  have "complete_tx g event now1 now2 skipA skipO skipB lease proof d = Inr (j, d')"
    using assms by (auto simp: CompleteJob_def q_transaction_def split: if_splits sum.splits)
  then show ?thesis
  proof (rule complete_tx_rows)
    fix rows n1 n2
    assume aff: "affected (running_lease now2 lease) rows = 1"
      and ops: "q_ops d' = update_where (running_lease now2 lease) (done_row now2 n1 n2) rows"
    from affected_one [OF aff] obtain r where r: "r \<in> set rows" "running_lease now2 lease r" by blast
    then have "done_row now2 n1 n2 r \<in> set (q_ops d')" by (auto simp: ops)
    moreover have "named (jobTenant (jlJob lease)) (jobID (jlJob lease)) (done_row now2 n1 n2 r)"
      "opFence (done_row now2 n1 n2 r) = jlFence lease" "opStatus (done_row now2 n1 n2 r) \<noteq> Running"
      using r(2) by (auto simp: running_lease_def named_def holds_def done_row_def)
    ultimately show ?thesis unfolding spent_def by metis
  qed
qed

text \<open>
  C37: a lease settles its job once. After a completion or a failed attempt was recorded under a lease,
  whatever the replicas did since, that lease and every older lease on the job are refused for
  good: no heartbeat, no second failure and no second completion succeeds, and the attempt changes nothing.
\<close>

theorem lease_settles_once:
  assumes "distinct (map op_pk (q_ops d))"
    and settled: "CompleteJob g event n0 n1 n2 skipA skipO skipB lease proof d = (Inr j, d1) \<or>
      FinishAttempt g n1 n2 lease err permanent delay d = (Inr u, d1)"
    and run: "(queue_step g)\<^sup>*\<^sup>* (t1, d1) (t2, d2)"
    and old: "jobTenant (jlJob stale) = jobTenant (jlJob lease)" "jobID (jlJob stale) = jobID (jlJob lease)"
      "jlFence stale \<le> jlFence lease"
  shows "\<not> is_ok (fst (HeartbeatJob g now stale ttl d2)) \<and> snd (HeartbeatJob g now stale ttl d2) = d2 \<and>
    \<not> is_ok (fst (FinishAttempt g m1 m2 stale err2 permanent2 delay2 d2)) \<and>
    snd (FinishAttempt g m1 m2 stale err2 permanent2 delay2 d2) = d2 \<and>
    \<not> is_ok (fst (CompleteJob g event2 m0 m1 m2 skipA2 skipO2 skipB2 stale proof2 d2)) \<and>
    snd (CompleteJob g event2 m0 m1 m2 skipA2 skipO2 skipB2 stale proof2 d2) = d2"
proof -
  let ?t = "jobTenant (jlJob stale)" and ?i = "jobID (jlJob stale)"
  have "evolves (q_ops d) (q_ops d1)"
    using settled CompleteJob_evolves FinishAttempt_evolves by (metis snd_conv)
  with evolving_run.run_rel [OF run TrueI] have e: "evolves (q_ops d) (q_ops d2)" "evolves (q_ops d1) (q_ops d2)"
    by (auto intro: evolves_trans)
  have dist: "distinct (map op_pk (q_ops d2))" using e(1) assms(1) by (simp add: evolves_def)
  have "spent ?t ?i (jlFence lease) (q_ops d1)"
    unfolding old using settled by (elim disjE) (erule CompleteJob_spends FinishAttempt_spends)+
  then have sp: "spent ?t ?i (jlFence stale) (q_ops d2)" using spent_evolves [OF _ e(2)] spent_lower old(3) by blast
  have none: "\<not> (opStatus r = Running \<and> holds now (jlOwner stale) (jlFence stale) r)" if "r \<in> set (q_ops d2)" "named ?t ?i r" for r now
    using spent_powerless [OF sp dist that] by blast
  then have h: "\<forall>r \<in> set (q_ops d2). \<not> held now (queue_lease stale) r" "\<forall>r \<in> set (q_ops d2). \<not> running_lease now stale r" for now
    by (auto simp: held_def queue_lease_def running_lease_def)
  then have f: "affected (held now (queue_lease stale)) (q_ops d2) = 0" "find (held now (queue_lease stale)) (q_ops d2) = None"
    "find (\<lambda>r. opMode r = ''queued'' \<and> running_lease now stale r) (q_ops d2) = None" for now
    by (auto simp: affected_def filter_empty_conv find_None_iff)
  show ?thesis
    by (intro conjI)
       (simp_all add: HeartbeatJob_def FinishAttempt_def CompleteJob_def complete_tx_def q_transaction_def on_ledger_def
         renewOperationLease_def failOperationLease_def f is_ok_def split: sum.splits)
qed

theorem lease_settles_once_witness:
  "\<exists>lease d1. ClaimJob queue_lib 2000 2001 (\<lambda>_. False) (\<lambda>_. False) ''w1'' Defaults admitted_queue = (Inr lease, claimed_queue) \<and>
     FinishAttempt queue_lib 3000 3001 lease ''attempt_failed'' False second claimed_queue = (Inr (), d1) \<and>
     \<not> is_ok (fst (FinishAttempt queue_lib 4000 4001 lease ''attempt_failed'' False second d1)) \<and>
     snd (HeartbeatJob queue_lib 4000 lease second d1) = d1"
proof -
  have "is_ok (fst (ClaimJob queue_lib 2000 2001 (\<lambda>_. False) (\<lambda>_. False) ''w1'' Defaults admitted_queue))" by code_simp
  then obtain lease where c: "ClaimJob queue_lib 2000 2001 (\<lambda>_. False) (\<lambda>_. False) ''w1'' Defaults admitted_queue = (Inr lease, claimed_queue)"
    unfolding claimed_queue_def by (cases "ClaimJob queue_lib 2000 2001 (\<lambda>_. False) (\<lambda>_. False) ''w1'' Defaults admitted_queue")
      (auto simp: is_ok_def split: sum.splits)
  have "case ClaimJob queue_lib 2000 2001 (\<lambda>_. False) (\<lambda>_. False) ''w1'' Defaults admitted_queue of
      (Inr l, d) \<Rightarrow> is_ok (fst (FinishAttempt queue_lib 3000 3001 l ''attempt_failed'' False second d)) | _ \<Rightarrow> False" by code_simp
  then have "is_ok (fst (FinishAttempt queue_lib 3000 3001 lease ''attempt_failed'' False second claimed_queue))" by (simp add: c)
  then obtain d1 where f: "FinishAttempt queue_lib 3000 3001 lease ''attempt_failed'' False second claimed_queue = (Inr (), d1)"
    by (cases "FinishAttempt queue_lib 3000 3001 lease ''attempt_failed'' False second claimed_queue")
      (auto simp: is_ok_def split: sum.splits)
  have "distinct (map op_pk (q_ops claimed_queue))" by code_simp
  from lease_settles_once [OF this disjI2 [OF f] rtranclp.rtrancl_refl refl refl order_refl] c f show ?thesis by blast
qed

end
