(* ===== verification/Occurrences.thy ===== *)
theory Occurrences
  imports Queue
begin

text \<open>
  Schedules and their occurrences (\<^verbatim>\<open>internal/store/postgres/schedules.go\<close>, \<^verbatim>\<open>schedule_replace.go\<close>,
  \<^verbatim>\<open>schedule_lifecycle.go\<close>): creation, pause and resume, manual firing, the bounded tick, replacement, retirement and history, as
  transactions on the tables of the queue. Times a handler reads from the database are in UTC. The hash column of a
  schedule, which no statement reads, is left out; a stored request is read back as it was written.
\<close>

subsection \<open>Schedule requests\<close>

text \<open>
  \<^verbatim>\<open>time.Time.MarshalJSON\<close> for a time with a zone: the wall clock of the zone, then the offset in whole minutes,
  which is the letter of the UTC form when it is zero.
\<close>

definition two_digits :: "int \<Rightarrow> string" where
  "two_digits n = (if n < 10 then ''0'' else []) @ int_str n"

definition zone_minutes :: "stamp \<Rightarrow> int" where
  "zone_minutes st = stOffset st sdiv 60"

definition stamp_encodable :: "stamp \<Rightarrow> bool" where
  "stamp_encodable st \<longleftrightarrow> time_encodable (stInstant st + stOffset st * second) \<and> \<bar>zone_minutes st\<bar> div 60 < 24"

definition stamp_wire :: "golib \<Rightarrow> stamp \<Rightarrow> json" where
  "stamp_wire g st =
     (if stOffset st = 0 then time_wire g (stInstant st)
      else JStr (butlast (RFC3339Nano_text g (stInstant st + stOffset st * second)) @ (if zone_minutes st < 0 then ''-'' else ''+'')
        @ two_digits (\<bar>zone_minutes st\<bar> div 60) @ '':'' @ two_digits (\<bar>zone_minutes st\<bar> mod 60)))"

definition spec_wire :: "golib \<Rightarrow> spec \<Rightarrow> json" where
  "spec_wire g s = JObj ([(''type'', JStr (specType s))] @ opt_str ''cron'' (Cron s) @ [(''timezone'', JStr (Timezone s))]
     @ opt_int ''interval_seconds'' (IntervalSeconds s) @ [(''anchor'', stamp_wire g (Anchor s)), (''missed'', JStr (Missed s))]
     @ opt_int ''max_catch_up'' (MaxCatchUp s) @ [(''overlap'', JStr (Overlap s))])"

definition schedule_wire :: "golib \<Rightarrow> schedule_request \<Rightarrow> json" where
  "schedule_wire g r = JObj [(''target'', submission_wire (srTarget r)), (''spec'', spec_wire g (srSpec r))]"

definition ScheduleRequest_Validate :: "golib \<Rightarrow> calendar \<Rightarrow> schedule_request \<Rightarrow> fault + unit" where
  "ScheduleRequest_Validate g cal r =
     (if \<not> stamp_encodable (Anchor (srSpec r)) \<or> json_len g (schedule_wire g r) > 8192 then Inl (FJobs JInvalid)
      else if \<not> is_ok (Submission_Validate g (srTarget r)) then Inl (FJobs JInvalid)
      else case Spec_Validate cal (srSpec r) of Inl err \<Rightarrow> Inl (FJobs err) | Inr _ \<Rightarrow> Inr ())"

subsection \<open>Reading schedules\<close>

record schedule =
  sdRetired :: bool
  sdID :: string
  sdRevision :: int
  sdEnabled :: bool
  sdTenant :: string
  sdInitiator :: string
  sdSession :: string
  sdRequest :: schedule_request
  sdNext :: "go_time option"
  sdPrevious :: "go_time option"

definition nanos :: "int option \<Rightarrow> go_time option" where
  "nanos t = map_option (\<lambda>x. 1000 * x) t"

definition micros :: "go_time option \<Rightarrow> int option" where
  "micros t = map_option (\<lambda>x. x div 1000) t"

definition row_schedule :: "schedule_row \<Rightarrow> schedule" where
  "row_schedule sh =
     \<lparr>sdRetired = shRetired sh, sdID = shID sh, sdRevision = shRevision sh, sdEnabled = shEnabled sh, sdTenant = shTenant sh,
      sdInitiator = shCreator sh, sdSession = shSession sh, sdRequest = shRequest sh, sdNext = nanos (shNext sh),
      sdPrevious = nanos (shPrevious sh)\<rparr>"

definition scanSchedule :: "golib \<Rightarrow> calendar \<Rightarrow> schedule_row \<Rightarrow> fault + schedule" where
  "scanSchedule g cal sh =
     (if \<not> is_ok (ScheduleRequest_Validate g cal (shRequest sh)) then Inl (FJobs JInvalid) else Inr (row_schedule sh))"

definition scheduleTimes :: "calendar \<Rightarrow> spec \<Rightarrow> go_time \<Rightarrow> fault + go_time option \<times> go_time option" where
  "scheduleTimes cal s now =
     (if specType s = ''manual'' then Inr (None, None)
      else case Spec_Next cal s (utc now) of Inl err \<Rightarrow> Inl (FJobs err) | Inr n \<Rightarrow>
           (case Spec_Previous cal s (utc now) of Inl err \<Rightarrow> Inl (FJobs err) | Inr p \<Rightarrow> Inr (Some p, Some n)))"

subsection \<open>The table of schedules\<close>

text \<open>
  The triggers and checks of the table: targets must be available, retired rows are final, revisions have no gap and are
  recorded. \<open>req\<close> tells that the statement sets the request.
\<close>

definition target_available :: "string \<Rightarrow> schedule_request \<Rightarrow> queue_db \<Rightarrow> bool" where
  "target_available tenant r d =
     (case subReporting (srTarget r) of
        None \<Rightarrow> True
      | Some t \<Rightarrow> rtType t \<notin> {''report'', ''saved_question''} \<or> (tenant, rtID t) \<in> set (qReports d))"

definition cursor_ok :: "schedule_row \<Rightarrow> bool" where
  "cursor_ok sh = (case shNext sh of None \<Rightarrow> True | Some n \<Rightarrow> (case shPrevious sh of None \<Rightarrow> False | Some p \<Rightarrow> p < n))"

definition history_of :: "int \<Rightarrow> schedule_row \<Rightarrow> history_row" where
  "history_of now sh = \<lparr>hrTenant = shTenant sh, hrSchedule = shID sh, hrRevision = shRevision sh, hrEnabled = shEnabled sh,
     hrRetired = shRetired sh, hrRequest = shRequest sh, hrRecorded = now\<rparr>"

definition record_history :: "int \<Rightarrow> schedule_row \<Rightarrow> queue_db \<Rightarrow> fault + queue_db" where
  "record_history now sh d =
     (if list_ex (\<lambda>h. hrTenant h = shTenant sh \<and> hrSchedule h = shID sh \<and> hrRevision h = shRevision sh) (qHistory d)
      then Inl (FStore StoreErrConflict) else Inr (d\<lparr>qHistory := qHistory d @ [history_of now sh]\<rparr>))"

definition insert_schedule :: "int \<Rightarrow> schedule_row \<Rightarrow> queue_db \<Rightarrow> fault + queue_db" where
  "insert_schedule now sh d =
     (if \<not> target_available (shTenant sh) (shRequest sh) d \<or> map_of (dbPolicies (qLedger d)) (shTenant sh) = None \<or> \<not> cursor_ok sh
      then Inl (FStore StoreErrInvalid)
      else if list_ex (\<lambda>x. shTenant x = shTenant sh \<and> (shID x = shID sh \<or> shCreator x = shCreator sh \<and> shKey x = shKey sh)) (qSchedules d)
      then Inl (FStore StoreErrConflict)
      else record_history now sh (d\<lparr>qSchedules := qSchedules d @ [sh]\<rparr>))"

definition schedule_trigger :: "int \<Rightarrow> bool \<Rightarrow> schedule_row \<Rightarrow> schedule_row \<Rightarrow> queue_db \<Rightarrow> fault + queue_db" where
  "schedule_trigger now req old new d =
     (if req \<and> \<not> target_available (shTenant new) (shRequest new) d \<or> \<not> cursor_ok new \<or>
         shRetired new \<and> shEnabled new \<or> shRetired old \<and> new \<noteq> old
      then Inl (FStore StoreErrInvalid)
      else if shRevision new = shRevision old then
        (if shEnabled new \<noteq> shEnabled old \<or> shRetired new \<noteq> shRetired old \<or> shRequest new \<noteq> shRequest old
         then Inl (FStore StoreErrInvalid) else Inr d)
      else if shRevision new \<noteq> shRevision old + 1 then Inl (FStore StoreErrInvalid)
      else record_history now new d)"

definition update_schedule ::
  "int \<Rightarrow> bool \<Rightarrow> string \<Rightarrow> string \<Rightarrow> (schedule_row \<Rightarrow> schedule_row) \<Rightarrow> queue_db \<Rightarrow> fault + queue_db" where
  "update_schedule now req tenant sid f d =
     (case find (schedule_named tenant sid) (qSchedules d) of
        None \<Rightarrow> Inr d
      | Some old \<Rightarrow> schedule_trigger now req old (f old) (d\<lparr>qSchedules := update_where (schedule_named tenant sid) f (qSchedules d)\<rparr>))"

definition the_schedule :: "golib \<Rightarrow> calendar \<Rightarrow> string \<Rightarrow> string \<Rightarrow> queue_db \<Rightarrow> fault + schedule" where
  "the_schedule g cal tenant sid d =
     (case find (schedule_named tenant sid) (qSchedules d) of
        None \<Rightarrow> Inl (FStore StoreErrNotFound)
      | Some sh \<Rightarrow> scanSchedule g cal sh)"

subsection \<open>Creating and reading\<close>

definition new_schedule :: "string \<Rightarrow> store_scope \<Rightarrow> string \<Rightarrow> schedule_request \<Rightarrow> go_time option \<Rightarrow> go_time option \<Rightarrow> bool \<Rightarrow> schedule" where
  "new_schedule newid s session r previous nxt enabled =
     \<lparr>sdRetired = False, sdID = newid, sdRevision = 1, sdEnabled = enabled, sdTenant = scopeTenant s, sdInitiator = scopeActor s,
      sdSession = session, sdRequest = r, sdNext = nxt, sdPrevious = previous\<rparr>"

definition schedule_insert_row :: "string \<Rightarrow> schedule \<Rightarrow> schedule_row" where
  "schedule_insert_row key s =
     \<lparr>shTenant = sdTenant s, shID = sdID s, shRevision = sdRevision s, shEnabled = sdEnabled s, shCreator = sdInitiator s,
      shSession = sdSession s, shKey = key, shRequest = sdRequest s, shPrevious = micros (sdPrevious s), shNext = micros (sdNext s),
      shRetired = False, shChange = None\<rparr>"

definition request_digest :: "golib \<Rightarrow> schedule_request \<Rightarrow> string" where
  "request_digest g r = digestValue g (schedule_wire g r)"

definition create_tx ::
  "golib \<Rightarrow> calendar \<Rightarrow> ambient \<Rightarrow> store_scope \<Rightarrow> string \<Rightarrow> string \<Rightarrow> schedule_request \<Rightarrow> limits \<Rightarrow> bool \<Rightarrow> queue_db
   \<Rightarrow> fault + schedule \<times> queue_db" where
  "create_tx g cal a s session key r l enabled d =
     (case queueLock g l d of Inl err \<Rightarrow> Inl err | Inr d \<Rightarrow>
      (case find (\<lambda>sh. shTenant sh = scopeTenant s \<and> shCreator sh = scopeActor s \<and> shKey sh = key) (qSchedules d) of
         Some sh \<Rightarrow>
           (case scanSchedule g cal sh of Inl err \<Rightarrow> Inl err | Inr existing \<Rightarrow>
            if request_digest g (sdRequest existing) \<noteq> request_digest g r \<or> sdRetired existing \<or> \<not> enabled \<and> sdEnabled existing
            then Inl (FStore StoreErrConflict) else Inr (existing, d))
       | None \<Rightarrow>
           if length (filter (\<lambda>sh. shTenant sh = scopeTenant s) (qSchedules d)) \<ge> 1000 \<or> length (qSchedules d) \<ge> 10000
           then Inl (FJobs JBusy)
           else
             (case scheduleTimes cal (srSpec r) (1000 * clock a) of Inl err \<Rightarrow> Inl err | Inr (previous, nxt) \<Rightarrow>
              let out = new_schedule (newID a) s session r previous nxt enabled in
              (case insert_schedule (clock a) (schedule_insert_row key out) d of Inl err \<Rightarrow> Inl err | Inr d \<Rightarrow>
              (case auditJob (eventID a) (clock a) s ''schedule.created'' (newID a) d of Inl err \<Rightarrow> Inl err | Inr d \<Rightarrow> Inr (out, d))))))"

definition createSchedule ::
  "golib \<Rightarrow> calendar \<Rightarrow> ambient \<Rightarrow> store_scope \<Rightarrow> string \<Rightarrow> string \<Rightarrow> schedule_request \<Rightarrow> limits \<Rightarrow> bool \<Rightarrow> queue_db
   \<Rightarrow> (fault + schedule) \<times> queue_db" where
  "createSchedule g cal a s session key r l enabled d =
     (if \<not> Scope_Valid s \<or> \<not> Identifier session \<or> \<not> Identifier key \<or> \<not> is_ok (ScheduleRequest_Validate g cal r) \<or> \<not> is_ok (Limits_Validate l)
      then (Inl (FJobs JInvalid), d)
      else q_transaction (create_tx g cal a s session key r l enabled) d)"

definition CreateSchedule ::
  "golib \<Rightarrow> calendar \<Rightarrow> ambient \<Rightarrow> store_scope \<Rightarrow> string \<Rightarrow> string \<Rightarrow> schedule_request \<Rightarrow> limits \<Rightarrow> queue_db
   \<Rightarrow> (fault + schedule) \<times> queue_db" where
  "CreateSchedule g cal a s session key r l = createSchedule g cal a s session key r l True"

definition CreateImportedSchedule ::
  "golib \<Rightarrow> calendar \<Rightarrow> ambient \<Rightarrow> store_scope \<Rightarrow> string \<Rightarrow> string \<Rightarrow> schedule_request \<Rightarrow> limits \<Rightarrow> queue_db
   \<Rightarrow> (fault + schedule) \<times> queue_db" where
  "CreateImportedSchedule g cal a s session key r l = createSchedule g cal a s session key r l False"

definition ReadSchedule :: "golib \<Rightarrow> calendar \<Rightarrow> store_scope \<Rightarrow> string \<Rightarrow> queue_db \<Rightarrow> (fault + schedule) \<times> queue_db" where
  "ReadSchedule g cal s sid d =
     (if \<not> Scope_Valid s \<or> \<not> Identifier sid then (Inl (FStore StoreErrScope), d)
      else q_transaction (\<lambda>d. case the_schedule g cal (scopeTenant s) sid d of Inl err \<Rightarrow> Inl err | Inr x \<Rightarrow> Inr (x, d)) d)"

subsection \<open>Revision-checked changes\<close>

definition bad_change :: "store_scope \<Rightarrow> string \<Rightarrow> int \<Rightarrow> bool" where
  "bad_change s sid expected \<longleftrightarrow> \<not> Scope_Valid s \<or> \<not> Identifier sid \<or> expected < 1 \<or> expected \<ge> 2 ^ 62"

definition set_tx ::
  "golib \<Rightarrow> calendar \<Rightarrow> ambient \<Rightarrow> store_scope \<Rightarrow> string \<Rightarrow> int \<Rightarrow> bool \<Rightarrow> queue_db \<Rightarrow> fault + schedule \<times> queue_db" where
  "set_tx g cal a s sid expected enabled d =
       (case the_schedule g cal (scopeTenant s) sid d of Inl err \<Rightarrow> Inl err | Inr out \<Rightarrow>
        if sdRevision out \<noteq> expected \<or> sdRetired out then Inl (FStore StoreErrConflict)
        else if sdEnabled out = enabled then Inr (out, d)
        else (case update_schedule (clock a) False (scopeTenant s) sid
                (\<lambda>sh. sh\<lparr>shRevision := shRevision sh + 1, shEnabled := enabled, shPrevious := micros (sdPrevious out),
                         shNext := micros (sdNext out)\<rparr>) d of Inl err \<Rightarrow> Inl err | Inr d \<Rightarrow>
             (case auditJob (eventID a) (clock a) s ''schedule.updated'' sid d of Inl err \<Rightarrow> Inl err | Inr d \<Rightarrow>
              Inr (out\<lparr>sdRevision := sdRevision out + 1, sdEnabled := enabled\<rparr>, d))))"

definition SetSchedule ::
  "golib \<Rightarrow> calendar \<Rightarrow> ambient \<Rightarrow> store_scope \<Rightarrow> string \<Rightarrow> int \<Rightarrow> bool \<Rightarrow> queue_db \<Rightarrow> (fault + schedule) \<times> queue_db" where
  "SetSchedule g cal a s sid expected enabled d =
     (if bad_change s sid expected then (Inl (FJobs JInvalid), d) else q_transaction (set_tx g cal a s sid expected enabled) d)"

text \<open>The receipt of the last replacement; a schedule never replaced has none.\<close>

definition same_change :: "string \<Rightarrow> store_scope \<Rightarrow> string \<Rightarrow> schedule_row \<Rightarrow> bool" where
  "same_change key s session sh \<longleftrightarrow> shChange sh = Some (key, scopeActor s, session, shRevision sh)"

definition replace_tx ::
  "golib \<Rightarrow> calendar \<Rightarrow> ambient \<Rightarrow> store_scope \<Rightarrow> string \<Rightarrow> string \<Rightarrow> int \<Rightarrow> string \<Rightarrow> schedule_request \<Rightarrow> limits \<Rightarrow> queue_db
   \<Rightarrow> fault + schedule \<times> queue_db" where
  "replace_tx g cal a s session sid expected key r l d =
     (case queueLock g l d of Inl err \<Rightarrow> Inl err | Inr d \<Rightarrow>
     (case the_schedule g cal (scopeTenant s) sid d of Inl err \<Rightarrow> Inl err | Inr current \<Rightarrow>
      if sdRetired current then Inl (FStore StoreErrConflict)
      else if sdRevision current = expected + 1 \<and>
              list_ex (\<lambda>sh. schedule_named (scopeTenant s) sid sh \<and> same_change key s session sh) (qSchedules d) \<and>
              request_digest g (sdRequest current) = request_digest g r
      then Inr (current, d)
      else if sdRevision current \<noteq> expected then Inl (FStore StoreErrConflict)
      else
        (case scheduleTimes cal (srSpec r) (1000 * clock a) of Inl err \<Rightarrow> Inl err | Inr (previous, nxt) \<Rightarrow>
        (case update_schedule (clock a) True (scopeTenant s) sid
            (\<lambda>sh. sh\<lparr>shRevision := shRevision sh + 1, shRequest := r, shPrevious := micros previous, shNext := micros nxt,
                     shChange := Some (key, scopeActor s, session, shRevision sh + 1)\<rparr>) d of Inl err \<Rightarrow> Inl err | Inr d \<Rightarrow>
        (case auditJob (eventID a) (clock a) s ''schedule.updated'' sid d of Inl err \<Rightarrow> Inl err | Inr d \<Rightarrow>
         Inr (current\<lparr>sdRevision := sdRevision current + 1, sdRequest := r, sdPrevious := previous, sdNext := nxt\<rparr>, d))))))"

definition ReplaceSchedule ::
  "golib \<Rightarrow> calendar \<Rightarrow> ambient \<Rightarrow> store_scope \<Rightarrow> string \<Rightarrow> string \<Rightarrow> int \<Rightarrow> string \<Rightarrow> schedule_request \<Rightarrow> limits \<Rightarrow> queue_db
   \<Rightarrow> (fault + schedule) \<times> queue_db" where
  "ReplaceSchedule g cal a s session sid expected key r l d =
     (if bad_change s sid expected \<or> \<not> Identifier session \<or> \<not> Identifier key \<or> \<not> is_ok (ScheduleRequest_Validate g cal r) \<or>
         \<not> is_ok (Limits_Validate l)
      then (Inl (FJobs JInvalid), d)
      else q_transaction (replace_tx g cal a s session sid expected key r l) d)"

definition retire_tx ::
  "golib \<Rightarrow> calendar \<Rightarrow> ambient \<Rightarrow> store_scope \<Rightarrow> string \<Rightarrow> int \<Rightarrow> queue_db \<Rightarrow> fault + schedule \<times> queue_db" where
  "retire_tx g cal a s sid expected d =
       (case the_schedule g cal (scopeTenant s) sid d of Inl err \<Rightarrow> Inl err | Inr current \<Rightarrow>
        if sdRevision current \<noteq> expected \<or> sdRetired current then Inl (FStore StoreErrConflict)
        else (case update_schedule (clock a) False (scopeTenant s) sid
                (\<lambda>sh. sh\<lparr>shRevision := shRevision sh + 1, shEnabled := False, shRetired := True\<rparr>) d of Inl err \<Rightarrow> Inl err | Inr d \<Rightarrow>
             (case auditJob (eventID a) (clock a) s ''schedule.updated'' sid d of Inl err \<Rightarrow> Inl err | Inr d \<Rightarrow>
              Inr (current\<lparr>sdRevision := sdRevision current + 1, sdEnabled := False, sdRetired := True\<rparr>, d))))"

definition RetireSchedule ::
  "golib \<Rightarrow> calendar \<Rightarrow> ambient \<Rightarrow> store_scope \<Rightarrow> string \<Rightarrow> int \<Rightarrow> queue_db \<Rightarrow> (fault + schedule) \<times> queue_db" where
  "RetireSchedule g cal a s sid expected d =
     (if bad_change s sid expected then (Inl (FJobs JInvalid), d) else q_transaction (retire_tx g cal a s sid expected) d)"

subsection \<open>History\<close>

record history_request =
  hqKind :: string
  hqLimit :: int
  hqBeforeRevision :: int
  hqBeforeDue :: "stamp option"

definition HistoryRequest_Valid :: "history_request \<Rightarrow> bool" where
  "HistoryRequest_Valid r \<longleftrightarrow>
     (if hqLimit r < 1 \<or> hqLimit r > 100 then False
      else if hqKind r = ''revisions'' then hqBeforeDue r = None \<and> hqBeforeRevision r \<ge> 0 \<and> hqBeforeRevision r < 2 ^ 62
      else if hqKind r \<noteq> ''occurrences'' \<or> hqBeforeRevision r \<noteq> 0 then False
      else case hqBeforeDue r of
             None \<Rightarrow> True
           | Some t \<Rightarrow> (let local = Unix (stInstant t) + stOffset t in 946684800 \<le> local \<and> local < 4165516800) \<and>
               Nanosecond (stInstant t) mod 1000 = 0)"

record schedule_revision =
  svRevision :: int
  svEnabled :: bool
  svRetired :: bool
  svRequest :: schedule_request
  svRecorded :: go_time

record schedule_occurrence =
  soDue :: go_time
  soWindowStart :: go_time
  soWindowEnd :: go_time
  soThrough :: "go_time option"
  soDisposition :: string
  soJob :: string

record schedule_history =
  shyID :: string
  shyKind :: string
  shyRevisions :: "schedule_revision list"
  shyOccurrences :: "schedule_occurrence list"
  shyNextRevision :: int
  shyNextDue :: "go_time option"

definition revision_rows :: "string \<Rightarrow> string \<Rightarrow> history_request \<Rightarrow> queue_db \<Rightarrow> history_row list" where
  "revision_rows tenant sid r d =
     take (nat (hqLimit r + 1)) (sort_key (\<lambda>h. - hrRevision h)
       (filter (\<lambda>h. hrTenant h = tenant \<and> hrSchedule h = sid \<and> (hqBeforeRevision r = 0 \<or> hrRevision h < hqBeforeRevision r)) (qHistory d)))"

definition scan_revision :: "golib \<Rightarrow> calendar \<Rightarrow> history_row \<Rightarrow> fault + schedule_revision" where
  "scan_revision g cal h =
     (if \<not> is_ok (ScheduleRequest_Validate g cal (hrRequest h)) then Inl (FStore StoreErrUnavailable)
      else Inr \<lparr>svRevision = hrRevision h, svEnabled = hrEnabled h, svRetired = hrRetired h, svRequest = hrRequest h,
                 svRecorded = 1000 * hrRecorded h\<rparr>)"

definition scheduleRevisionHistory ::
  "golib \<Rightarrow> calendar \<Rightarrow> string \<Rightarrow> string \<Rightarrow> history_request \<Rightarrow> queue_db \<Rightarrow> schedule_history \<Rightarrow> fault + schedule_history" where
  "scheduleRevisionHistory g cal tenant sid r d out =
     (case map_res (scan_revision g cal) (revision_rows tenant sid r d) of Inl err \<Rightarrow> Inl err | Inr vs \<Rightarrow>
      if int (length vs) > hqLimit r
      then let page = take (nat (hqLimit r)) vs in Inr (out\<lparr>shyRevisions := page, shyNextRevision := svRevision (last page)\<rparr>)
      else Inr (out\<lparr>shyRevisions := vs\<rparr>))"

definition occurrence_rows :: "string \<Rightarrow> string \<Rightarrow> history_request \<Rightarrow> queue_db \<Rightarrow> occurrence_row list" where
  "occurrence_rows tenant sid r d =
     take (nat (hqLimit r + 1)) (sort_key (\<lambda>o'. - ocDue o')
       (filter (\<lambda>o'. ocTenant o' = tenant \<and> ocSchedule o' = sid \<and>
          (case hqBeforeDue r of None \<Rightarrow> True | Some t \<Rightarrow> 1000 * ocDue o' < stInstant t)) (qOccurrences d)))"

definition scan_occurrence :: "occurrence_row \<Rightarrow> schedule_occurrence" where
  "scan_occurrence o' =
     \<lparr>soDue = 1000 * ocDue o', soWindowStart = 1000 * ocWindowStart o', soWindowEnd = 1000 * ocWindowEnd o',
      soThrough = nanos (ocThrough o'), soDisposition = ocDisposition o', soJob = (case ocOp o' of None \<Rightarrow> [] | Some x \<Rightarrow> x)\<rparr>"

definition scheduleOccurrenceHistory ::
  "string \<Rightarrow> string \<Rightarrow> history_request \<Rightarrow> queue_db \<Rightarrow> schedule_history \<Rightarrow> schedule_history" where
  "scheduleOccurrenceHistory tenant sid r d out =
     (let os = map scan_occurrence (occurrence_rows tenant sid r d) in
      if int (length os) > hqLimit r
      then let page = take (nat (hqLimit r)) os in out\<lparr>shyOccurrences := page, shyNextDue := Some (soDue (last page))\<rparr>
      else out\<lparr>shyOccurrences := os\<rparr>)"

definition ScheduleHistory ::
  "golib \<Rightarrow> calendar \<Rightarrow> store_scope \<Rightarrow> string \<Rightarrow> history_request \<Rightarrow> queue_db \<Rightarrow> (fault + schedule_history) \<times> queue_db" where
  "ScheduleHistory g cal s sid r d =
     (if \<not> Scope_Valid s \<or> \<not> Identifier sid \<or> \<not> HistoryRequest_Valid r then (Inl (FJobs JInvalid), d)
      else q_transaction (\<lambda>d.
        if \<not> list_ex (schedule_named (scopeTenant s) sid) (qSchedules d) then Inl (FStore StoreErrNotFound)
        else
          let out = \<lparr>shyID = sid, shyKind = hqKind r, shyRevisions = [], shyOccurrences = [], shyNextRevision = 0, shyNextDue = None\<rparr> in
          if hqKind r = ''revisions''
          then (case scheduleRevisionHistory g cal (scopeTenant s) sid r d out of Inl err \<Rightarrow> Inl err | Inr out \<Rightarrow> Inr (out, d))
          else Inr (scheduleOccurrenceHistory (scopeTenant s) sid r d out, d)) d)"

subsection \<open>Occurrences\<close>

text \<open>The checks of the table come before the conflict on its key, which skips the row.\<close>

definition dispositions :: "string list" where
  "dispositions = [''queued'', ''overlap_skipped'', ''missed_skipped'']"

definition insert_occurrence :: "occurrence_row \<Rightarrow> queue_db \<Rightarrow> fault + queue_db" where
  "insert_occurrence o' d =
     (if ocDisposition o' \<notin> set dispositions \<or> ocWindowStart o' > ocWindowEnd o' \<or> (ocDisposition o' = ''queued'') \<noteq> (ocOp o' \<noteq> None)
      then Inl (FStore StoreErrInvalid)
      else if list_ex (\<lambda>x. ocTenant x = ocTenant o' \<and> ocSchedule x = ocSchedule o' \<and> ocDue x = ocDue o') (qOccurrences d) then Inr d
      else Inr (d\<lparr>qOccurrences := qOccurrences d @ [o']\<rparr>))"

definition skippedOccurrence ::
  "schedule \<Rightarrow> go_time \<Rightarrow> go_time \<Rightarrow> go_time \<Rightarrow> go_time \<Rightarrow> string \<Rightarrow> queue_db \<Rightarrow> fault + queue_db" where
  "skippedOccurrence s due start wend through reason =
     insert_occurrence \<lparr>ocTenant = sdTenant s, ocSchedule = sdID s, ocDue = due div 1000, ocWindowStart = start div 1000,
       ocWindowEnd = wend div 1000, ocThrough = Some (through div 1000), ocDisposition = reason, ocOp = None\<rparr>"

definition queuedOccurrence :: "string \<Rightarrow> string \<Rightarrow> go_time \<Rightarrow> go_time \<Rightarrow> string \<Rightarrow> queue_db \<Rightarrow> fault + queue_db" where
  "queuedOccurrence tenant sid due start opid =
     insert_occurrence \<lparr>ocTenant = tenant, ocSchedule = sid, ocDue = due div 1000, ocWindowStart = start div 1000,
       ocWindowEnd = due div 1000, ocThrough = None, ocDisposition = ''queued'', ocOp = Some opid\<rparr>"

text \<open>A route whose cutover row is missing joins nothing, as one without a route.\<close>

definition admitCutoverOccurrence :: "schedule \<Rightarrow> go_time \<Rightarrow> queue_db \<Rightarrow> bool \<times> queue_db" where
  "admitCutoverOccurrence s due d =
     (case route_of (sdTenant s) (sdID s) d of
        None \<Rightarrow> (True, d)
      | Some x \<Rightarrow>
          (case cutover_of (sdTenant s) (rtwCohort x) d of
             None \<Rightarrow> (True, d)
           | Some u \<Rightarrow>
               if cuRoute u \<noteq> sdID s \<or> rtwRevision x \<noteq> sdRevision s \<or> cuStream u \<noteq> rtwStream x \<or> \<not> due > 1000 * cuResumeAfter u
               then (False, d)
               else if list_ex (\<lambda>m. amTenant m = sdTenant s \<and> amStream m = rtwStream x \<and> amDue m = due div 1000) (qAdmissions d)
               then (False, d)
               else (True, d\<lparr>qAdmissions := qAdmissions d @ [\<lparr>amTenant = sdTenant s, amStream = rtwStream x, amDue = due div 1000,
                       amCohort = rtwCohort x, amGeneration = cuGeneration u, amSchedule = sdID s\<rparr>]\<rparr>)))"

definition fire_tx ::
  "golib \<Rightarrow> calendar \<Rightarrow> ambient \<Rightarrow> int \<Rightarrow> store_scope \<Rightarrow> string \<Rightarrow> string \<Rightarrow> string \<Rightarrow> int \<Rightarrow> limits \<Rightarrow> queue_db
   \<Rightarrow> fault + job \<times> queue_db" where
  "fire_tx g cal a now s session sid key expected l d =
     (case queueLock g l d of Inl err \<Rightarrow> Inl err | Inr d \<Rightarrow>
     (case the_schedule g cal (scopeTenant s) sid d of Inl err \<Rightarrow> Inl err | Inr sc \<Rightarrow>
      if \<not> sdEnabled sc \<or> sdRetired sc \<or> sdRevision sc \<noteq> expected then Inl (FStore StoreErrConflict)
      else case admitCutoverOccurrence sc (1000 * now) d of (allowed, d) \<Rightarrow>
        if \<not> allowed then Inl (FStore StoreErrConflict)
        else (case admitJob g a s session (''manual:'' @ digestValue g (JArr [JStr sid, JStr key])) (srTarget (sdRequest sc)) l
                (1000 * now) (1000 * now) sid (sdRevision sc) d of Inl err \<Rightarrow> Inl err | Inr (j, d) \<Rightarrow>
             (case queuedOccurrence (scopeTenant s) sid (jobDue j) (jobWindowStart j) (jobID j) d of Inl err \<Rightarrow> Inl err | Inr d \<Rightarrow>
              Inr (j, d)))))"

definition FireSchedule ::
  "golib \<Rightarrow> calendar \<Rightarrow> ambient \<Rightarrow> int \<Rightarrow> store_scope \<Rightarrow> string \<Rightarrow> string \<Rightarrow> string \<Rightarrow> int \<Rightarrow> limits \<Rightarrow> queue_db
   \<Rightarrow> (fault + job) \<times> queue_db" where
  "FireSchedule g cal a now s session sid key expected l d =
     (if bad_change s sid expected \<or> \<not> Identifier session \<or> \<not> Identifier key \<or> \<not> is_ok (Limits_Validate l) then (Inl (FJobs JInvalid), d)
      else q_transaction (fire_tx g cal a now s session sid key expected l) d)"

subsection \<open>The tick\<close>

text \<open>
  The loop over the due instants of one schedule. Each admission draws its identifiers and clock reading from
  \<open>amb\<close>, numbered by the jobs admitted so far in the tick.
\<close>

record cursor =
  crDue :: go_time
  crPrevious :: go_time
  crProcessed :: int
  crAdmitted :: nat
  crDB :: queue_db

datatype turn = Continue cursor | Break cursor

definition maximum :: "spec \<Rightarrow> int" where
  "maximum s = (if Missed s = ''catch_up'' then MaxCatchUp s else 1)"

definition too_late :: "go_time \<Rightarrow> spec \<Rightarrow> cursor \<Rightarrow> bool" where
  "too_late now s c \<longleftrightarrow> Missed s = ''skip'' \<and> now - crDue c > 5 * second \<or> crProcessed c \<ge> maximum s"

definition skip_rest :: "calendar \<Rightarrow> schedule \<Rightarrow> go_time \<Rightarrow> cursor \<Rightarrow> fault + turn" where
  "skip_rest cal s now c =
     (case Spec_Previous cal (srSpec (sdRequest s)) (utc now) of Inl err \<Rightarrow> Inl (FJobs err) | Inr lst \<Rightarrow>
     (case Spec_Next cal (srSpec (sdRequest s)) (utc now) of Inl err \<Rightarrow> Inl (FJobs err) | Inr nxt \<Rightarrow>
     (case skippedOccurrence s (crDue c) (crPrevious c) lst lst ''missed_skipped'' (crDB c) of Inl err \<Rightarrow> Inl err | Inr d \<Rightarrow>
      Inr (Break (c\<lparr>crPrevious := lst, crDue := nxt, crDB := d\<rparr>)))))"

definition advance :: "calendar \<Rightarrow> schedule \<Rightarrow> nat \<Rightarrow> queue_db \<Rightarrow> cursor \<Rightarrow> fault + turn" where
  "advance cal s admitted d c =
     (case Spec_Next cal (srSpec (sdRequest s)) (utc (crDue c)) of Inl err \<Rightarrow> Inl (FJobs err) | Inr nxt \<Rightarrow>
      Inr (Continue \<lparr>crDue = nxt, crPrevious = crDue c, crProcessed = crProcessed c + 1, crAdmitted = admitted, crDB = d\<rparr>))"

definition occurrence_key :: "golib \<Rightarrow> string \<Rightarrow> go_time \<Rightarrow> string" where
  "occurrence_key g sid due = ''occurrence:'' @ digestValue g (JArr [JStr sid, time_wire g due])"

definition tick_turn ::
  "golib \<Rightarrow> calendar \<Rightarrow> (nat \<Rightarrow> ambient) \<Rightarrow> store_scope \<Rightarrow> schedule \<Rightarrow> limits \<Rightarrow> go_time \<Rightarrow> cursor \<Rightarrow> fault + turn" where
  "tick_turn g cal amb sc s l now c =
     (if too_late now (srSpec (sdRequest s)) c then skip_rest cal s now c
      else case admitCutoverOccurrence s (crDue c) (crDB c) of (allowed, d) \<Rightarrow>
        if \<not> allowed then
          (case skippedOccurrence s (crDue c) (crPrevious c) (crDue c) (crDue c) ''cutover_fenced'' d of
             Inl err \<Rightarrow> Inl err | Inr d \<Rightarrow> advance cal s (crAdmitted c) d c)
        else if activeSchedule (sdTenant s) (sdID s) d \<and> Overlap (srSpec (sdRequest s)) = ''skip'' then
          (case skippedOccurrence s (crDue c) (crPrevious c) (crDue c) (crDue c) ''overlap_skipped'' d of
             Inl err \<Rightarrow> Inl err | Inr d \<Rightarrow> advance cal s (crAdmitted c) d c)
        else
          (case admitJob g (amb (crAdmitted c)) sc (sdSession s) (occurrence_key g (sdID s) (crDue c)) (srTarget (sdRequest s)) l
              (crDue c) (crPrevious c) (sdID s) (sdRevision s) d of
             Inl err \<Rightarrow> if err = FJobs JBusy then Inr (Break (c\<lparr>crDB := d\<rparr>)) else Inl err
           | Inr (j, d) \<Rightarrow>
               (case queuedOccurrence (sdTenant s) (sdID s) (crDue c) (crPrevious c) (jobID j) d of
                  Inl err \<Rightarrow> Inl err | Inr d \<Rightarrow> advance cal s (crAdmitted c + 1) d c)))"

lemma skip_rest_stops: "skip_rest cal s now c \<noteq> Inr (Continue c')"
  by (auto simp: skip_rest_def split: sum.splits)

lemma advance_counts: "advance cal s n d c = Inr (Continue c') \<Longrightarrow> crProcessed c' = crProcessed c + 1"
  by (auto simp: advance_def split: sum.splits)

lemma tick_turn_progress:
  assumes "tick_turn g cal amb sc s l now c = Inr (Continue c')"
  shows "crProcessed c' = crProcessed c + 1 \<and> crProcessed c < maximum (srSpec (sdRequest s))"
  using assms unfolding tick_turn_def
  by (auto simp: skip_rest_stops too_late_def dest!: advance_counts split: if_splits prod.splits sum.splits)

function tick_loop ::
  "golib \<Rightarrow> calendar \<Rightarrow> (nat \<Rightarrow> ambient) \<Rightarrow> store_scope \<Rightarrow> schedule \<Rightarrow> limits \<Rightarrow> go_time \<Rightarrow> cursor \<Rightarrow> fault + cursor" where
  "tick_loop g cal amb sc s l now c =
     (if crDue c > now then Inr c
      else case tick_turn g cal amb sc s l now c of
             Inl err \<Rightarrow> Inl err
           | Inr (Break c') \<Rightarrow> Inr c'
           | Inr (Continue c') \<Rightarrow> tick_loop g cal amb sc s l now c')"
  by pat_completeness auto
termination
  by (relation "measure (\<lambda>(g, cal, amb, sc, s, l, now, c). nat (maximum (srSpec (sdRequest s)) - crProcessed c))")
     (auto dest: tick_turn_progress)

declare tick_loop.simps [simp del]

definition tick_schedule ::
  "golib \<Rightarrow> calendar \<Rightarrow> (nat \<Rightarrow> ambient) \<Rightarrow> limits \<Rightarrow> int \<Rightarrow> schedule \<Rightarrow> nat \<times> queue_db \<Rightarrow> fault + nat \<times> queue_db" where
  "tick_schedule g cal amb l now s st =
     (case st of (admitted, d) \<Rightarrow>
      (case NewScope (sdTenant s) (sdInitiator s) of Inl err \<Rightarrow> Inl (FStore err) | Inr sc \<Rightarrow>
      (case (sdNext s, sdPrevious s) of
         (Some due, Some previous) \<Rightarrow>
           (case tick_loop g cal amb sc s l (1000 * now)
               \<lparr>crDue = due, crPrevious = previous, crProcessed = 0, crAdmitted = admitted, crDB = d\<rparr> of
              Inl err \<Rightarrow> Inl err
            | Inr c \<Rightarrow>
                (case update_schedule now False (sdTenant s) (sdID s)
                    (\<lambda>sh. sh\<lparr>shPrevious := Some (crPrevious c div 1000), shNext := Some (crDue c div 1000)\<rparr>) (crDB c) of
                   Inl err \<Rightarrow> Inl err | Inr d \<Rightarrow> Inr (crAdmitted c, d)))
       | _ \<Rightarrow> Inl (FStore StoreErrUnavailable))))"

text \<open>Selected rows have both instants: the next one was compared, and the check of the table gives the other.\<close>

definition next_at :: "schedule_row \<Rightarrow> int" where
  "next_at sh = (case shNext sh of None \<Rightarrow> 0 | Some n \<Rightarrow> n)"

definition due_schedules :: "int \<Rightarrow> (string \<times> string \<Rightarrow> bool) \<Rightarrow> queue_db \<Rightarrow> schedule_row list" where
  "due_schedules now skip d =
     take 32 (sort_key (\<lambda>sh. (next_at sh, shID sh))
       (filter (\<lambda>sh. shEnabled sh \<and> (case shNext sh of None \<Rightarrow> False | Some n \<Rightarrow> n \<le> now) \<and> \<not> skip (shTenant sh, shID sh)) (qSchedules d)))"

definition tick_tx ::
  "golib \<Rightarrow> calendar \<Rightarrow> (nat \<Rightarrow> ambient) \<Rightarrow> int \<Rightarrow> (string \<times> string \<Rightarrow> bool) \<Rightarrow> limits \<Rightarrow> queue_db \<Rightarrow> fault + nat \<times> queue_db" where
  "tick_tx g cal amb now skip l d =
     (case queueLock g l d of Inl err \<Rightarrow> Inl err | Inr d \<Rightarrow>
     (case map_res (scanSchedule g cal) (due_schedules now skip d) of Inl err \<Rightarrow> Inl err | Inr ss \<Rightarrow>
      fold_res (tick_schedule g cal amb l now) ss (0, d)))"

definition TickSchedules ::
  "golib \<Rightarrow> calendar \<Rightarrow> (nat \<Rightarrow> ambient) \<Rightarrow> int \<Rightarrow> (string \<times> string \<Rightarrow> bool) \<Rightarrow> limits \<Rightarrow> queue_db \<Rightarrow> (fault + nat) \<times> queue_db" where
  "TickSchedules g cal amb now skip l d =
     (if \<not> is_ok (Limits_Validate l) then (Inl (FJobs JInvalid), d) else q_transaction (tick_tx g cal amb now skip l) d)"

subsection \<open>The windows of a tick\<close>

text \<open>
  What a tick relies on of a recurrence: \<^verbatim>\<open>Next\<close> is the least occurrence after an instant, \<^verbatim>\<open>Previous\<close> the greatest one at or
  before it when there is one. Interval schedules have it, and cron schedules that honour their contract.
\<close>

definition timetable :: "calendar \<Rightarrow> spec \<Rightarrow> go_time set \<Rightarrow> bool" where
  "timetable cal s occ \<longleftrightarrow>
     (\<forall>t u. Spec_Next cal s (utc t) = Inr u \<longrightarrow> u \<in> occ \<and> t < u \<and> (\<forall>v \<in> occ. t < v \<longrightarrow> u \<le> v)) \<and>
     (\<forall>t p. Spec_Previous cal s (utc t) = Inr p \<longrightarrow> (\<exists>v \<in> occ. v \<le> t) \<longrightarrow> p \<in> occ \<and> p \<le> t \<and> (\<forall>v \<in> occ. v \<le> t \<longrightarrow> v \<le> p))"

lemma interval_previous:
  assumes ok: "interval_ok s" and some: "v \<in> interval_occurrences s" "v \<le> t"
  defines "a \<equiv> Unix (stInstant (Anchor s))" and "I \<equiv> IntervalSeconds s"
  defines "p \<equiv> (a + (Unix t - a) sdiv I * I) * second"
  shows "stInstant (Anchor s) \<le> t" "p \<in> interval_occurrences s" "p \<le> t" "v \<le> p"
proof -
  have I: "0 < I" using ok by (simp add: interval_ok_def I_def)
  note occ = interval_occurrence_iff [OF ok a_def [THEN meta_eq_to_obj_eq], folded I_def]
  have anchor: "stInstant (Anchor s) = a * second"
    using ok by (simp add: interval_ok_def Nanosecond_def a_def Unix_def mod_eq_0_iff_dvd)
  obtain k where k: "k \<ge> 0" "v = (a + k * I) * second" using some(1) by (auto simp: occ)
  have le: "a + k * I \<le> Unix t" using some(2) k(2) by (simp add: Unix_le)
  have "a \<le> a + k * I" using k(1) I by simp
  with le have ge: "a \<le> Unix t" by linarith
  then show "stInstant (Anchor s) \<le> t" by (simp add: Unix_le anchor)
  define n where "n = (Unix t - a) div I"
  have g: "a + n * I \<le> Unix t" "Unix t < a + (n + 1) * I" "0 \<le> n" using grid_bounds [OF I ge] by (simp_all add: n_def)
  have p: "p = (a + n * I) * second" using ge I by (simp add: p_def sdiv_nonneg n_def)
  show "p \<in> interval_occurrences s" using g(3) p by (auto simp: occ)
  show "p \<le> t" using g(1) by (simp only: p Unix_le)
  have "k * I < (n + 1) * I" using le g(2) by linarith
  then have "k \<le> n" using I by (simp add: mult_less_cancel_right)
  then have "k * I \<le> n * I" using I by (intro mult_right_mono) simp_all
  then show "v \<le> p" by (simp add: p k(2))
qed

lemma interval_timetable:
  assumes "specType s = ''interval''" "Spec_Validate cal s = Inr ()"
  shows "timetable cal s (interval_occurrences s)"
  unfolding timetable_def
proof (intro conjI allI impI)
  have ok: "interval_ok s" using interval_valid [OF assms(2,1)] .
  fix t u assume "Spec_Next cal s (utc t) = Inr u"
  then have "u = interval_after s t" using assms by (auto simp: Spec_Next_def utc_def split: if_splits)
  with interval_after_least [OF ok, of t]
  show "u \<in> interval_occurrences s" "t < u" "\<forall>v \<in> interval_occurrences s. t < v \<longrightarrow> u \<le> v" by simp_all
next
  have ok: "interval_ok s" using interval_valid [OF assms(2,1)] .
  fix t p assume prev: "Spec_Previous cal s (utc t) = Inr p" and "\<exists>v \<in> interval_occurrences s. v \<le> t"
  then obtain v where v: "v \<in> interval_occurrences s" "v \<le> t" by blast
  have "p = (Unix (stInstant (Anchor s)) + (Unix t - Unix (stInstant (Anchor s))) sdiv IntervalSeconds s * IntervalSeconds s) * second"
    using prev assms interval_previous(1) [OF ok v] by (auto simp: Spec_Previous_def utc_def Let_def split: if_splits)
  with interval_previous(2,3) [OF ok v] interval_previous(4) [OF ok]
  show "p \<in> interval_occurrences s" "p \<le> t" "\<forall>v \<in> interval_occurrences s. v \<le> t \<longrightarrow> v \<le> p" by auto
qed

lemma cron_timetable:
  assumes "specType s = ''cron''" "spec_parsed cal s = Inr f" "recurrence f occ"
  shows "timetable cal s occ"
  unfolding timetable_def
proof (intro conjI allI impI)
  fix t u assume "Spec_Next cal s (utc t) = Inr u"
  then have "f t = Some u" using assms by (auto simp: Spec_Next_def utc_def split: if_splits option.splits)
  with recurrence.next_least [OF assms(3)] show "u \<in> occ" "t < u" "\<forall>v \<in> occ. t < v \<longrightarrow> u \<le> v" by blast+
next
  fix t p assume "Spec_Previous cal s (utc t) = Inr p"
  then have "recurrence.previous_of f t = Some p"
    using assms by (auto simp: Spec_Previous_def recurrence.previous_of_def [OF assms(3)] utc_def Let_def split: if_splits)
  then show "p \<in> occ" "p \<le> t" "\<forall>v \<in> occ. v \<le> t \<longrightarrow> v \<le> p" using recurrence.previous_of_iff [OF assms(3)] by blast+
qed

text \<open>A cursor stands between two neighbouring occurrences; windows (due, start, end) tile a range when each starts where the last ended.\<close>

definition neighbours :: "go_time set \<Rightarrow> go_time \<Rightarrow> go_time \<Rightarrow> bool" where
  "neighbours occ p n \<longleftrightarrow> n \<in> occ \<and> p < n \<and> (\<forall>v \<in> occ. p < v \<longrightarrow> n \<le> v)"

fun tiles :: "go_time \<Rightarrow> (go_time \<times> go_time \<times> go_time) list \<Rightarrow> go_time \<Rightarrow> bool" where
  "tiles p [] q \<longleftrightarrow> p = q"
| "tiles p ((due, start, wend) # ws) q \<longleftrightarrow> start = p \<and> p < due \<and> due \<le> wend \<and> tiles wend ws q"

definition same_due :: "schedule \<Rightarrow> go_time \<times> go_time \<times> go_time \<Rightarrow> occurrence_row \<Rightarrow> bool" where
  "same_due s w o' \<longleftrightarrow> ocTenant o' = sdTenant s \<and> ocSchedule o' = sdID s \<and> ocDue o' = fst w div 1000"

definition same_window :: "schedule \<Rightarrow> go_time \<times> go_time \<times> go_time \<Rightarrow> occurrence_row \<Rightarrow> bool" where
  "same_window s w o' \<longleftrightarrow> same_due s w o' \<and> ocWindowStart o' = fst (snd w) div 1000 \<and> ocWindowEnd o' = snd (snd w) div 1000"

text \<open>The recorded occurrences after the windows: each instant is on record, and what is new has one of the windows.\<close>

definition recorded ::
  "schedule \<Rightarrow> (go_time \<times> go_time \<times> go_time) list \<Rightarrow> occurrence_row list \<Rightarrow> occurrence_row list \<Rightarrow> bool" where
  "recorded s ws os os' \<longleftrightarrow> set os \<subseteq> set os' \<and> (\<forall>w \<in> set ws. \<exists>o' \<in> set os'. same_due s w o') \<and>
     (\<forall>o' \<in> set os' - set os. \<exists>w \<in> set ws. same_window s w o')"

lemma recorded_Nil [simp]: "recorded s [] os os"
  by (simp add: recorded_def)

lemma recorded_Cons:
  assumes "recorded s [w] os os1" "recorded s ws os1 os2"
  shows "recorded s (w # ws) os os2"
  using assms by (auto simp: recorded_def)

lemma insert_occurrence_Inr:
  assumes "insert_occurrence o' d = Inr d'" "same_window s w o'"
  shows "recorded s [w] (qOccurrences d) (qOccurrences d')"
  using assms by (auto simp: insert_occurrence_def recorded_def same_window_def same_due_def list_ex_iff split: if_splits)

lemma skippedOccurrence_Inr:
  "skippedOccurrence s due start wend through reason d = Inr d' \<Longrightarrow> recorded s [(due, start, wend)] (qOccurrences d) (qOccurrences d')"
  unfolding skippedOccurrence_def by (erule insert_occurrence_Inr) (simp add: same_window_def same_due_def)

lemma queuedOccurrence_Inr:
  "queuedOccurrence (sdTenant s) (sdID s) due start opid d = Inr d' \<Longrightarrow> recorded s [(due, start, due)] (qOccurrences d) (qOccurrences d')"
  unfolding queuedOccurrence_def by (erule insert_occurrence_Inr) (simp add: same_window_def same_due_def)

lemma admitCutoverOccurrence_same: "qOccurrences (snd (admitCutoverOccurrence s due d)) = qOccurrences d"
  by (auto simp: admitCutoverOccurrence_def split: option.splits)

lemma auditJob_occurrences: "auditJob event now s action ident d = Inr d' \<Longrightarrow> qOccurrences d' = qOccurrences d"
  by (auto simp: auditJob_def split: sum.splits)

lemma insertReportingDelivery_occurrences: "insertReportingDelivery j d = Inr d' \<Longrightarrow> qOccurrences d' = qOccurrences d"
  by (auto simp: insertReportingDelivery_def Let_def split: option.splits if_splits)

lemma insert_job_occurrences: "insert_job now hours key hash m i j d = Inr d' \<Longrightarrow> qOccurrences d' = qOccurrences d"
  by (auto simp: insert_job_def split: if_splits)

lemma admitJob_occurrences:
  assumes "admitJob g a s session key request l due start sid srev d = Inr (j, d')"
  shows "qOccurrences d' = qOccurrences d"
proof (cases "find (accepted_row d s (subKind request) (client_key g s key)) (q_ops d)")
  case (Some r)
  then show ?thesis using assms by (auto simp: admitJob_def split: sum.splits if_splits)
next
  case None
  then have "admit_new g a s session key request l due start sid srev d = Inr (j, d')" using assms by (simp add: admitJob_def)
  then show ?thesis
    by (rule admit_new_Inr) (simp add: insert_job_occurrences insertReportingDelivery_occurrences auditJob_occurrences)
qed

lemma advance_Inr:
  assumes "advance cal s n d c = Inr turn"
  obtains nxt where "Spec_Next cal (srSpec (sdRequest s)) (utc (crDue c)) = Inr nxt"
    "turn = Continue \<lparr>crDue = nxt, crPrevious = crDue c, crProcessed = crProcessed c + 1, crAdmitted = n, crDB = d\<rparr>"
  using assms by (auto simp: advance_def split: sum.splits)

text \<open>One turn: the instant is handled in its own window, or all that is left by now in one, or admission is at capacity.\<close>

definition at_capacity :: "golib \<Rightarrow> (nat \<Rightarrow> ambient) \<Rightarrow> store_scope \<Rightarrow> schedule \<Rightarrow> limits \<Rightarrow> cursor \<Rightarrow> bool" where
  "at_capacity g amb sc s l c \<longleftrightarrow>
     admitJob g (amb (crAdmitted c)) sc (sdSession s) (occurrence_key g (sdID s) (crDue c)) (srTarget (sdRequest s)) l
       (crDue c) (crPrevious c) (sdID s) (sdRevision s) (crDB c) = Inl (FJobs JBusy)"

lemma tick_turn_Continue:
  assumes "tick_turn g cal amb sc s l now c = Inr (Continue c')"
  shows "Spec_Next cal (srSpec (sdRequest s)) (utc (crDue c)) = Inr (crDue c')" "crPrevious c' = crDue c"
    "recorded s [(crDue c, crPrevious c, crDue c)] (qOccurrences (crDB c)) (qOccurrences (crDB c'))"
proof -
  obtain allowed d where cut: "admitCutoverOccurrence s (crDue c) (crDB c) = (allowed, d)" by fastforce
  then have same: "qOccurrences d = qOccurrences (crDB c)" using admitCutoverOccurrence_same [of s "crDue c" "crDB c"] by simp
  have "\<exists>n d'. advance cal s n d' c = Inr (Continue c') \<and>
      recorded s [(crDue c, crPrevious c, crDue c)] (qOccurrences (crDB c)) (qOccurrences d')"
    using assms unfolding tick_turn_def cut prod.case
    by (auto simp: skip_rest_stops same [symmetric] dest!: skippedOccurrence_Inr queuedOccurrence_Inr admitJob_occurrences
        split: if_splits sum.splits) blast+
  then obtain n d' where adv: "advance cal s n d' c = Inr (Continue c')"
    and rec: "recorded s [(crDue c, crPrevious c, crDue c)] (qOccurrences (crDB c)) (qOccurrences d')" by blast
  from adv rec show "Spec_Next cal (srSpec (sdRequest s)) (utc (crDue c)) = Inr (crDue c')" "crPrevious c' = crDue c"
    "recorded s [(crDue c, crPrevious c, crDue c)] (qOccurrences (crDB c)) (qOccurrences (crDB c'))"
    by (auto elim!: advance_Inr)
qed

lemma tick_turn_Break:
  assumes "tick_turn g cal amb sc s l now c = Inr (Break c')"
  shows "(\<exists>lst. Spec_Previous cal (srSpec (sdRequest s)) (utc now) = Inr lst \<and> Spec_Next cal (srSpec (sdRequest s)) (utc now) = Inr (crDue c') \<and>
      crPrevious c' = lst \<and> recorded s [(crDue c, crPrevious c, lst)] (qOccurrences (crDB c)) (qOccurrences (crDB c'))) \<or>
    crDue c' = crDue c \<and> crPrevious c' = crPrevious c \<and> qOccurrences (crDB c') = qOccurrences (crDB c) \<and> at_capacity g amb sc s l c'"
proof -
  obtain allowed d where cut: "admitCutoverOccurrence s (crDue c) (crDB c) = (allowed, d)" by fastforce
  then have same: "qOccurrences d = qOccurrences (crDB c)" using admitCutoverOccurrence_same [of s "crDue c" "crDB c"] by simp
  show ?thesis
  proof (cases "too_late now (srSpec (sdRequest s)) c")
    case True
    with assms have "skip_rest cal s now c = Inr (Break c')" by (simp add: tick_turn_def)
    then show ?thesis by (auto simp: skip_rest_def dest!: skippedOccurrence_Inr split: sum.splits)
  next
    case False
    with assms show ?thesis unfolding tick_turn_def cut prod.case
      by (auto simp: same at_capacity_def elim!: advance_Inr split: if_splits sum.splits)
  qed
qed


definition hourly_request :: schedule_request where
  "hourly_request = \<lparr>srTarget = sweep_submission, srSpec = hourly\<rparr>"

definition schedule_ambient :: ambient where
  "schedule_ambient = \<lparr>newID = ''sch1'', eventID = ''ev0'', clock = 1000002000 * 1000000, resolver = \<lambda>_ _. Inl (FJobs JInvalid)\<rparr>"

definition acme_ana :: store_scope where
  "acme_ana = \<lparr>scopeTenant = ''acme'', scopeActor = ''ana''\<rparr>"

definition scheduled_queue :: queue_db where
  "scheduled_queue = snd (CreateSchedule queue_lib sample_calendar schedule_ambient acme_ana ''s1'' ''k1'' hourly_request Defaults configured_queue)"

definition tick_ambient :: "nat \<Rightarrow> ambient" where
  "tick_ambient n = \<lparr>newID = ''job'' @ int_str (int n), eventID = ''ev'' @ int_str (int n + 1), clock = 1000019000 * 1000000,
     resolver = \<lambda>_ _. Inl (FJobs JInvalid)\<rparr>"

definition hourly_cursor :: "cursor" where
  "hourly_cursor = \<lparr>crDue = 1000004400 * second, crPrevious = 1000000800 * second, crProcessed = 0, crAdmitted = 0, crDB = scheduled_queue\<rparr>"

lemma hourly_cursor_facts: "timetable sample_calendar hourly (interval_occurrences hourly)" "neighbours (interval_occurrences hourly) (1000000800 * second) (1000004400 * second)"
proof -
  have v: "specType hourly = ''interval''" "Spec_Validate sample_calendar hourly = Inr ()" by code_simp+
  show tt: "timetable sample_calendar hourly (interval_occurrences hourly)" by (rule interval_timetable [OF v])
  have "Spec_Next sample_calendar hourly (utc (1000000800 * second)) = Inr (1000004400 * second)" by code_simp
  with tt show "neighbours (interval_occurrences hourly) (1000000800 * second) (1000004400 * second)"
    unfolding timetable_def neighbours_def by blast
qed


subsection \<open>The scheduler beside the queue\<close>

text \<open>Runs in which the handlers of schedules interleave with those of the queue.\<close>

inductive system_step :: "golib \<Rightarrow> calendar \<Rightarrow> int \<times> queue_db \<Rightarrow> int \<times> queue_db \<Rightarrow> bool" for g cal where
  queue: "queue_step g st st' \<Longrightarrow> system_step g cal st st'"
| create: "t \<le> clock a \<Longrightarrow> system_step g cal (t, d) (clock a, snd (createSchedule g cal a s session key r l enabled d))"
| set_enabled: "t \<le> clock a \<Longrightarrow> system_step g cal (t, d) (clock a, snd (SetSchedule g cal a s sid expected enabled d))"
| replace: "t \<le> clock a \<Longrightarrow> system_step g cal (t, d) (clock a, snd (ReplaceSchedule g cal a s session sid expected key r l d))"
| retire: "t \<le> clock a \<Longrightarrow> system_step g cal (t, d) (clock a, snd (RetireSchedule g cal a s sid expected d))"
| fire: "t \<le> now \<Longrightarrow> now \<le> clock a \<Longrightarrow> system_step g cal (t, d) (clock a, snd (FireSchedule g cal a now s session sid key expected l d))"
| tick: "t \<le> now \<Longrightarrow> \<forall>n. now \<le> clock (amb n) \<and> clock (amb n) \<le> clock (amb (Suc n)) \<and> clock (amb n) \<le> t' \<Longrightarrow>
    system_step g cal (t, d) (t', snd (TickSchedules g cal amb now skip l d))"

text \<open>Changes of the tables of schedules leave operations, columns and limits alone.\<close>

definition same_core :: "queue_db \<Rightarrow> queue_db \<Rightarrow> bool" where
  "same_core d d' \<longleftrightarrow> q_ops d' = q_ops d \<and> qColumns d' = qColumns d \<and> qLimits d' = qLimits d"

lemma same_core_refl [simp]: "same_core d d"
  by (simp add: same_core_def)

lemma same_core_trans: "same_core a b \<Longrightarrow> same_core b c \<Longrightarrow> same_core a c"
  by (simp add: same_core_def)

lemma same_core_step:
  assumes "controlled g l (t, d)" "same_core d d'" "t \<le> t'"
  shows "controlled g l (t', d')"
  by (rule calm_same [OF assms(1) _ assms(3)]) (use controlled_pinned [OF assms(1)] assms(2) in \<open>auto simp: same_core_def pinned_def\<close>)

lemma same_core_tables [simp]:
  "same_core d (d\<lparr>qSchedules := xs\<rparr>)" "same_core d (d\<lparr>qHistory := hs\<rparr>)" "same_core d (d\<lparr>qOccurrences := os\<rparr>)"
  "same_core d (d\<lparr>qAdmissions := ms\<rparr>)"
  by (simp_all add: same_core_def)

lemma record_history_core: "record_history now sh d = Inr d' \<Longrightarrow> same_core d d'"
  by (auto simp: record_history_def split: if_splits)

lemma insert_schedule_core: "insert_schedule now sh d = Inr d' \<Longrightarrow> same_core d d'"
  by (auto simp: insert_schedule_def dest!: record_history_core intro: same_core_trans [rotated] split: if_splits)

lemma schedule_trigger_core: "schedule_trigger now req old new d = Inr d' \<Longrightarrow> same_core d d'"
  by (auto simp: schedule_trigger_def dest: record_history_core split: if_splits)

lemma update_schedule_core: "update_schedule now req tenant sid f d = Inr d' \<Longrightarrow> same_core d d'"
  by (auto simp: update_schedule_def dest!: schedule_trigger_core intro: same_core_trans [rotated] split: option.splits)

lemma auditJob_core: "auditJob event now s action ident d = Inr d' \<Longrightarrow> same_core d d'"
  using auditJob_Inr by (fastforce simp: same_core_def)

lemma insert_occurrence_core: "insert_occurrence o' d = Inr d' \<Longrightarrow> same_core d d'"
  by (auto simp: insert_occurrence_def split: if_splits)

lemma admitCutoverOccurrence_core: "admitCutoverOccurrence s due d = (ok, d') \<Longrightarrow> same_core d d'"
  by (auto simp: admitCutoverOccurrence_def split: option.splits if_splits)

lemmas core_facts = insert_schedule_core update_schedule_core auditJob_core insert_occurrence_core admitCutoverOccurrence_core

lemma lock_core: "controlled g l (t, d) \<Longrightarrow> queueLock g k d = Inr d1 \<Longrightarrow> same_core d1 d' \<Longrightarrow> t \<le> t' \<Longrightarrow> controlled g l (t', d')"
  using lock_step(1) same_core_step by blast

lemma createSchedule_step:
  assumes "controlled g l (t, d)" "t \<le> t'"
  shows "controlled g l (t', snd (createSchedule g cal a s session key r k enabled d))"
proof -
  have "controlled g l (t', d')" if tx: "create_tx g cal a s session key r k enabled d = Inr (x, d')" for x d'
  proof -
    from tx obtain d1 where lock: "queueLock g k d = Inr d1" by (cases "queueLock g k d") (simp_all add: create_tx_def)
    have "same_core d1 d'" using tx unfolding create_tx_def lock sum.case
      by (auto simp: Let_def dest!: core_facts intro: same_core_trans split: option.splits sum.splits if_splits)
    then show ?thesis by (rule lock_core [OF assms(1) lock _ assms(2)])
  qed
  then have "controlled g l (t', snd (q_transaction (create_tx g cal a s session key r k enabled) d))"
    by (rule q_transaction_step [OF assms])
  then show ?thesis using pass_step [OF assms] by (simp add: createSchedule_def)
qed

lemma ReplaceSchedule_step:
  assumes "controlled g l (t, d)" "t \<le> t'"
  shows "controlled g l (t', snd (ReplaceSchedule g cal a s session sid expected key r k d))"
proof -
  have "controlled g l (t', d')" if tx: "replace_tx g cal a s session sid expected key r k d = Inr (x, d')" for x d'
  proof -
    from tx obtain d1 where lock: "queueLock g k d = Inr d1" by (cases "queueLock g k d") (simp_all add: replace_tx_def)
    have "same_core d1 d'" using tx unfolding replace_tx_def lock sum.case
      by (cases "the_schedule g cal (scopeTenant s) sid d1"; cases "scheduleTimes cal (srSpec r) (1000 * clock a)")
         (auto dest!: core_facts intro: same_core_trans split: sum.split_asm if_split_asm)
    then show ?thesis by (rule lock_core [OF assms(1) lock _ assms(2)])
  qed
  then have "controlled g l (t', snd (q_transaction (replace_tx g cal a s session sid expected key r k) d))"
    by (rule q_transaction_step [OF assms])
  then show ?thesis using pass_step [OF assms] by (simp add: ReplaceSchedule_def)
qed

lemma core_tx_step:
  assumes "controlled g l (t, d)" "t \<le> t'" "\<And>x d'. fn d = Inr (x, d') \<Longrightarrow> same_core d d'"
  shows "controlled g l (t', snd (q_transaction fn d))"
  using assms same_core_step by (blast intro: q_transaction_step)

lemma set_tx_core: "set_tx g cal a s sid expected enabled d = Inr (x, d') \<Longrightarrow> same_core d d'"
  by (cases "the_schedule g cal (scopeTenant s) sid d")
     (auto simp: set_tx_def dest!: core_facts intro: same_core_trans split: sum.split_asm if_split_asm)

lemma retire_tx_core: "retire_tx g cal a s sid expected d = Inr (x, d') \<Longrightarrow> same_core d d'"
  by (cases "the_schedule g cal (scopeTenant s) sid d")
     (auto simp: retire_tx_def dest!: core_facts intro: same_core_trans split: sum.split_asm if_split_asm)

lemma SetSchedule_step:
  "controlled g l (t, d) \<Longrightarrow> t \<le> t' \<Longrightarrow> controlled g l (t', snd (SetSchedule g cal a s sid expected enabled d))"
  by (simp add: SetSchedule_def pass_step core_tx_step [OF _ _ set_tx_core])

lemma RetireSchedule_step:
  "controlled g l (t, d) \<Longrightarrow> t \<le> t' \<Longrightarrow> controlled g l (t', snd (RetireSchedule g cal a s sid expected d))"
  by (simp add: RetireSchedule_def pass_step core_tx_step [OF _ _ retire_tx_core])

text \<open>Admissions of the scheduler, under limits that agree with the pinned ones.\<close>

definition agreed :: "limits \<Rightarrow> limits \<Rightarrow> bool" where
  "agreed k l \<longleftrightarrow> MaxPending k = MaxPending l \<and> MaxPendingPerTenant k = MaxPendingPerTenant l \<and> 1 \<le> MaxAttempts k"

lemma lock_agreed:
  assumes "collision_free g l" "controlled g l (t, d)" "queueLock g k d = Inr d1"
  shows "agreed k l" "controlled g l (t, d1)"
proof -
  note b = same_bounds [OF assms(1) queueLock_Inr(1) [OF assms(3)] lock_step(2) [OF assms(2,3)]]
  have "1 \<le> MaxAttempts k" using queueLock_Inr(1) [OF assms(3)] by (simp add: Limits_Validate_def split: if_splits)
  with b show "agreed k l" by (simp add: agreed_def)
  show "controlled g l (t, d1)" by (rule lock_step(1) [OF assms(2,3)])
qed

lemma admit_agreed:
  assumes "controlled g l (t, d)" "t \<le> clock a" "agreed k l" "admitJob g a s session key request k due start sid srev d = Inr (j, d')"
  shows "controlled g l (clock a, d')"
  using admitJob_step [OF pass_step [OF assms(1,2)] assms(4)] assms(3) by (simp add: agreed_def)

lemma FireSchedule_step:
  assumes cf: "collision_free g l" and c: "controlled g l (t, d)" and le: "t \<le> clock a"
  shows "controlled g l (clock a, snd (FireSchedule g cal a now s session sid key expected k d))"
proof -
  have "controlled g l (clock a, d')" if tx: "fire_tx g cal a now s session sid key expected k d = Inr (x, d')" for x d'
  proof -
    from tx obtain d1 where lock: "queueLock g k d = Inr d1" by (cases "queueLock g k d") (simp_all add: fire_tx_def)
    from tx obtain sc where sc: "the_schedule g cal (scopeTenant s) sid d1 = Inr sc"
      by (cases "the_schedule g cal (scopeTenant s) sid d1") (simp_all add: fire_tx_def lock)
    obtain allowed d2 where cut: "admitCutoverOccurrence sc (1000 * now) d1 = (allowed, d2)" by fastforce
    note la = lock_agreed [OF cf c lock]
    have c2: "controlled g l (t, d2)" by (rule same_core_step [OF la(2) admitCutoverOccurrence_core [OF cut] order_refl])
    from tx obtain key' session' j d3 where adm: "admitJob g a s session' key' (srTarget (sdRequest sc)) k (1000 * now) (1000 * now) sid
        (sdRevision sc) d2 = Inr (j, d3)" and q: "queuedOccurrence (scopeTenant s) sid (jobDue j) (jobWindowStart j) (jobID j) d3 = Inr d'"
      by (auto simp: fire_tx_def lock sc cut split: if_split_asm sum.split_asm)
    have "same_core d3 d'" using q unfolding queuedOccurrence_def by (rule insert_occurrence_core)
    from same_core_step [OF admit_agreed [OF c2 le la(1) adm] this order_refl] show ?thesis .
  qed
  then have "controlled g l (clock a, snd (q_transaction (fire_tx g cal a now s session sid key expected k) d))"
    by (rule q_transaction_step [OF c le])
  then show ?thesis using pass_step [OF c le] by (simp add: FireSchedule_def)
qed

definition paced :: "golib \<Rightarrow> limits \<Rightarrow> (nat \<Rightarrow> ambient) \<Rightarrow> nat \<Rightarrow> queue_db \<Rightarrow> bool" where
  "paced g l amb n d \<longleftrightarrow> (\<exists>t. controlled g l (t, d) \<and> t \<le> clock (amb n))"

lemma paced_core: "paced g l amb n d \<Longrightarrow> same_core d d' \<Longrightarrow> paced g l amb n d'"
  unfolding paced_def using same_core_step by blast

lemma paced_admit:
  assumes "paced g l amb n d" "agreed k l" "admitJob g (amb n) s session key request k due start sid srev d = Inr (j, d')"
    and "clock (amb n) \<le> clock (amb (Suc n))"
  shows "paced g l amb (Suc n) d'"
proof -
  from assms(1) obtain t where t: "controlled g l (t, d)" "t \<le> clock (amb n)" by (auto simp: paced_def)
  from admit_agreed [OF t assms(2,3)] assms(4) show ?thesis by (auto simp: paced_def)
qed

lemma occurrence_paced:
  "paced g l amb n d \<Longrightarrow> skippedOccurrence s due start wend through reason d = Inr d' \<Longrightarrow> paced g l amb n d'"
  "paced g l amb n d \<Longrightarrow> queuedOccurrence tenant sid due start opid d = Inr d' \<Longrightarrow> paced g l amb n d'"
  unfolding skippedOccurrence_def queuedOccurrence_def by (blast intro: paced_core insert_occurrence_core)+

lemma tick_turn_paced:
  assumes "tick_turn g cal amb sc s k now c = Inr turn" "paced g l amb (crAdmitted c) (crDB c)" "agreed k l"
    and mono: "\<forall>n. clock (amb n) \<le> clock (amb (Suc n))"
  shows "case turn of Continue c' \<Rightarrow> paced g l amb (crAdmitted c') (crDB c') | Break c' \<Rightarrow> paced g l amb (crAdmitted c') (crDB c')"
proof -
  obtain allowed d where cut: "admitCutoverOccurrence s (crDue c) (crDB c) = (allowed, d)" by fastforce
  have d: "paced g l amb (crAdmitted c) d" by (rule paced_core [OF assms(2) admitCutoverOccurrence_core [OF cut]])
  have adm: "paced g l amb (Suc (crAdmitted c)) d1" if "admitJob g (amb (crAdmitted c)) sc session key request k due start sid srev d = Inr (j, d1)"
    for session key request due start sid srev j d1 using paced_admit [OF d assms(3) that] mono by simp
  show ?thesis
  proof (cases "too_late now (srSpec (sdRequest s)) c")
    case True
    then have "skip_rest cal s now c = Inr turn" using assms(1) by (simp add: tick_turn_def)
    then show ?thesis using occurrence_paced(1) [OF assms(2)] by (auto simp: skip_rest_def split: sum.split_asm)
  next
    case False
    show ?thesis
      using assms(1) False d unfolding tick_turn_def cut prod.case
      by (auto elim!: advance_Inr dest: occurrence_paced(1) [OF d]
          split: if_split_asm sum.split_asm)
         (erule occurrence_paced(2) [OF adm, rotated], assumption)+
  qed
qed

lemma tick_loop_paced:
  assumes "tick_loop g cal amb sc s k now c = Inr c'" "paced g l amb (crAdmitted c) (crDB c)" "agreed k l"
    and "\<forall>n. clock (amb n) \<le> clock (amb (Suc n))"
  shows "paced g l amb (crAdmitted c') (crDB c')"
  using assms
proof (induction g cal amb sc s k now c rule: tick_loop.induct)
  case (1 g cal amb sc s k now c)
  show ?case
  proof (cases "crDue c > now")
    case True
    with "1.prems" show ?thesis by (simp add: tick_loop.simps)
  next
    case False
    note unf = "1.prems"(1) [unfolded tick_loop.simps [of g cal amb sc s k now c] if_not_P [OF False]]
    then obtain turn where turn: "tick_turn g cal amb sc s k now c = Inr turn" by (auto split: sum.splits)
    note p = tick_turn_paced [OF turn "1.prems"(2-4)]
    show ?thesis
    proof (cases turn)
      case (Continue c1)
      then show ?thesis using "1.IH" [OF False turn Continue] unf p "1.prems"(3,4) by (simp add: turn)
    next
      case (Break c1)
      then show ?thesis using unf p by (simp add: turn)
    qed
  qed
qed

lemma fold_res_keeps:
  assumes "fold_res f xs st = Inr st'" "P st" "\<And>x st st'. P st \<Longrightarrow> f x st = Inr st' \<Longrightarrow> P st'"
  shows "P st'"
  using assms(1,2)
proof (induction xs arbitrary: st)
  case (Cons x xs)
  then obtain st1 where "f x st = Inr st1" "fold_res f xs st1 = Inr st'" by (auto split: sum.splits)
  with Cons.IH Cons.prems(2) assms(3) show ?case by blast
qed simp

lemma tick_schedule_paced:
  assumes "tick_schedule g cal amb k now s st = Inr st'" "paced g l amb (fst st) (snd st)" "agreed k l"
    and "\<forall>n. clock (amb n) \<le> clock (amb (Suc n))"
  shows "paced g l amb (fst st') (snd st')"
proof -
  obtain n d where st: "st = (n, d)" by fastforce
  from assms(1) obtain sc due previous c d' where
    loop: "tick_loop g cal amb sc s k (1000 * now) \<lparr>crDue = due, crPrevious = previous, crProcessed = 0, crAdmitted = n, crDB = d\<rparr> = Inr c"
    and upd: "update_schedule now False (sdTenant s) (sdID s)
       (\<lambda>sh. sh\<lparr>shPrevious := Some (crPrevious c div 1000), shNext := Some (crDue c div 1000)\<rparr>) (crDB c) = Inr d'"
    and st': "st' = (crAdmitted c, d')"
    by (cases "sdNext s"; cases "sdPrevious s") (auto simp: tick_schedule_def st split: sum.split_asm)
  have "paced g l amb (crAdmitted c) (crDB c)" using tick_loop_paced [OF loop _ assms(3,4)] assms(2) by (simp add: st)
  from paced_core [OF this update_schedule_core [OF upd]] show ?thesis by (simp add: st')
qed

lemma TickSchedules_step:
  assumes cf: "collision_free g l" and c: "controlled g l (t, d)" and le: "t \<le> now"
    and amb: "\<forall>n. now \<le> clock (amb n) \<and> clock (amb n) \<le> clock (amb (Suc n)) \<and> clock (amb n) \<le> t'"
  shows "controlled g l (t', snd (TickSchedules g cal amb now skip k d))"
proof -
  have le': "t \<le> t'" using amb le by (meson order_trans)
  have "controlled g l (t', d')" if tx: "tick_tx g cal amb now skip k d = Inr (x, d')" for x d'
  proof -
    from tx obtain d1 where lock: "queueLock g k d = Inr d1" by (cases "queueLock g k d") (simp_all add: tick_tx_def)
    from tx obtain ss where fold: "fold_res (tick_schedule g cal amb k now) ss (0, d1) = Inr (x, d')"
      by (auto simp: tick_tx_def lock split: sum.split_asm)
    note la = lock_agreed [OF cf c lock]
    have "t \<le> clock (amb 0)" using amb le by (meson order_trans)
    then have p0: "paced g l amb (fst (0, d1)) (snd (0, d1))" using la(2) by (auto simp: paced_def)
    have "paced g l amb (fst (x, d')) (snd (x, d'))"
      by (rule fold_res_keeps [OF fold, where P = "\<lambda>st. paced g l amb (fst st) (snd st)", OF p0])
         (use tick_schedule_paced [OF _ _ la(1)] amb in blast)
    then obtain u where "controlled g l (u, d')" "u \<le> clock (amb x)" by (auto simp: paced_def)
    moreover from this amb have "u \<le> t'" by (meson order_trans)
    ultimately show ?thesis by (simp add: pass_step)
  qed
  then have "controlled g l (t', snd (q_transaction (tick_tx g cal amb now skip k) d))" by (rule q_transaction_step [OF c le'])
  then show ?thesis using pass_step [OF c le'] by (simp add: TickSchedules_def)
qed

lemma system_step_controlled:
  assumes "collision_free g l" "system_step g cal st st'" "controlled g l st"
  shows "controlled g l st'"
  using assms(2,3)
proof (cases rule: system_step.cases)
  case queue
  with assms(3) show ?thesis by (blast intro: queue_step_controlled [OF assms(1)])
qed (simp_all add: TickSchedules_step [OF assms(1)] FireSchedule_step [OF assms(1)]
      createSchedule_step ReplaceSchedule_step SetSchedule_step RetireSchedule_step)

interpretation system_run: invariant_run "system_step g cal" "\<lambda>st. collision_free g l \<longrightarrow> controlled g l st" for g cal l
  by unfold_locales (blast intro: system_step_controlled)

text \<open>
  C39: the limits hold with the scheduler at work. When creations, pauses, replacements, retirements, manual fires and
  clock ticks of schedules interleave with the handlers of the queue, by any number of replicas with
  whatever limits, the pending and concurrency bounds of the queue and of every tenant hold in every state, and no
  schedule has two live jobs.
\<close>

theorem system_limits_hold:
  assumes "collision_free g l" "(system_step g cal)\<^sup>*\<^sup>* st st'" "controlled g l st"
  shows "controlled g l st'"
  using system_run.run_keeps [OF assms(2)] assms(1,3) by blast

definition ticked_queue :: queue_db where
  "ticked_queue = snd (TickSchedules queue_lib sample_calendar tick_ambient (1000019000 * 1000000) (\<lambda>_. False) Defaults scheduled_queue)"

theorem system_limits_hold_witness:
  "(system_step queue_lib sample_calendar)\<^sup>*\<^sup>* (0, configured_queue) (1000019000 * 1000000, ticked_queue) \<and>
   map opStatus (q_ops ticked_queue) = [Pending] \<and> length (qOccurrences ticked_queue) = 4 \<and>
   controlled queue_lib Defaults (1000019000 * 1000000, ticked_queue)"
proof -
  have c: "clock schedule_ambient = 1000002000 * 1000000" "clock (tick_ambient n) = 1000019000 * 1000000" for n
    by (simp_all add: schedule_ambient_def tick_ambient_def)
  have "system_step queue_lib sample_calendar (0, configured_queue) (1000002000 * 1000000, scheduled_queue)"
    using system_step.create [of 0 schedule_ambient queue_lib sample_calendar configured_queue acme_ana]
    unfolding scheduled_queue_def CreateSchedule_def c by simp
  moreover have "system_step queue_lib sample_calendar (1000002000 * 1000000, scheduled_queue) (1000019000 * 1000000, ticked_queue)"
    unfolding ticked_queue_def by (rule system_step.tick) (simp_all add: c)
  ultimately have run: "(system_step queue_lib sample_calendar)\<^sup>*\<^sup>* (0, configured_queue) (1000019000 * 1000000, ticked_queue)" by simp
  have "collision_free queue_lib Defaults" by (simp add: collision_free_def queue_lib_def)
  from system_limits_hold [OF this run configured_controlled]
  have "controlled queue_lib Defaults (1000019000 * 1000000, ticked_queue)" .
  moreover have "map opStatus (q_ops ticked_queue) = [Pending]" "length (qOccurrences ticked_queue) = 4" by code_simp+
  ultimately show ?thesis using run by blast
qed

subsection \<open>Schedules as versioned definitions\<close>

text \<open>
  The abstract store: for every schedule the list of its versions. A step adds one version, the first of a schedule or
  one after a version that is not retired.
\<close>

record version =
  vrEnabled :: bool
  vrRetired :: bool
  vrRequest :: schedule_request

definition version_step :: "(string \<times> string \<Rightarrow> version list) \<Rightarrow> (string \<times> string \<Rightarrow> version list) \<Rightarrow> bool" where
  "version_step vs vs' \<longleftrightarrow> (\<exists>k v. vs' = vs(k := vs k @ [v]) \<and> \<not> (vrRetired v \<and> vrEnabled v) \<and>
     (if vs k = [] then \<not> vrRetired v else \<not> vrRetired (last (vs k))))"

definition sh_pk :: "schedule_row \<Rightarrow> string \<times> string" where
  "sh_pk sh = (shTenant sh, shID sh)"

definition hr_pk :: "history_row \<Rightarrow> string \<times> string" where
  "hr_pk h = (hrTenant h, hrSchedule h)"

definition hist :: "string \<times> string \<Rightarrow> history_row list \<Rightarrow> history_row list" where
  "hist k hs = filter (\<lambda>h. hr_pk h = k) hs"

definition history_version :: "history_row \<Rightarrow> version" where
  "history_version h = \<lparr>vrEnabled = hrEnabled h, vrRetired = hrRetired h, vrRequest = hrRequest h\<rparr>"

definition row_version :: "schedule_row \<Rightarrow> version" where
  "row_version sh = \<lparr>vrEnabled = shEnabled sh, vrRetired = shRetired sh, vrRequest = shRequest sh\<rparr>"

definition versions :: "queue_db \<Rightarrow> string \<times> string \<Rightarrow> version list" where
  "versions d k = map history_version (hist k (qHistory d))"

text \<open>The history of a schedule is gapless, numbered from one, and its last entry is the row.\<close>

definition history_row_ok :: "history_row list \<Rightarrow> schedule_row \<Rightarrow> bool" where
  "history_row_ok hs sh \<longleftrightarrow> 1 \<le> shRevision sh \<and> map hrRevision (hist (sh_pk sh) hs) = [1..shRevision sh] \<and>
     history_version (last (hist (sh_pk sh) hs)) = row_version sh \<and> \<not> (shRetired sh \<and> shEnabled sh)"

definition history_ok :: "queue_db \<Rightarrow> bool" where
  "history_ok d \<longleftrightarrow> distinct (map sh_pk (qSchedules d)) \<and> hr_pk ` set (qHistory d) \<subseteq> sh_pk ` set (qSchedules d) \<and>
     (\<forall>sh \<in> set (qSchedules d). history_row_ok (qHistory d) sh)"

definition same_tables :: "queue_db \<Rightarrow> queue_db \<Rightarrow> bool" where
  "same_tables d d' \<longleftrightarrow> qSchedules d' = qSchedules d \<and> qHistory d' = qHistory d"

definition versioned :: "queue_db \<Rightarrow> queue_db \<Rightarrow> bool" where
  "versioned d d' \<longleftrightarrow> history_ok d' \<and> version_step\<^sup>*\<^sup>* (versions d) (versions d')"

lemma same_tables_refl [simp]: "same_tables d d"
  by (simp add: same_tables_def)

lemma same_tables_trans: "same_tables a b \<Longrightarrow> same_tables b c \<Longrightarrow> same_tables a c"
  by (simp add: same_tables_def)

lemma versioned_same: "history_ok d \<Longrightarrow> same_tables d d' \<Longrightarrow> versioned d d'"
proof -
  assume "history_ok d" "same_tables d d'"
  moreover from this have "versions d' = versions d" by (intro ext) (simp add: versions_def same_tables_def)
  ultimately show ?thesis by (simp add: versioned_def history_ok_def same_tables_def)
qed

lemma versioned_trans: "versioned a b \<Longrightarrow> versioned b c \<Longrightarrow> versioned a c"
  by (auto simp: versioned_def)

lemma hist_append: "hist k (hs @ [h]) = hist k hs @ (if hr_pk h = k then [h] else [])"
  by (simp add: hist_def)

lemma history_of_facts [simp]:
  "hr_pk (history_of now sh) = sh_pk sh" "hrRevision (history_of now sh) = shRevision sh" "history_version (history_of now sh) = row_version sh"
  by (simp_all add: hr_pk_def sh_pk_def history_of_def history_version_def row_version_def)

lemma record_history_Inr: "record_history now sh d = Inr d' \<Longrightarrow> d' = d\<lparr>qHistory := qHistory d @ [history_of now sh]\<rparr>"
  by (auto simp: record_history_def split: if_splits)

lemma versions_append:
  "qHistory d' = qHistory d @ [history_of now sh] \<Longrightarrow> versions d' = (versions d)(sh_pk sh := versions d (sh_pk sh) @ [row_version sh])"
  by (rule ext) (simp add: versions_def hist_append)

lemma insert_schedule_versioned:
  assumes ok: "history_ok d" and i: "insert_schedule now sh d = Inr d'" and new: "shRevision sh = 1" "\<not> shRetired sh"
  shows "versioned d d'"
proof -
  have d': "qSchedules d' = qSchedules d @ [sh]" "qHistory d' = qHistory d @ [history_of now sh]"
    and fresh: "\<forall>x \<in> set (qSchedules d). sh_pk x \<noteq> sh_pk sh"
    using i by (auto simp: insert_schedule_def list_ex_iff sh_pk_def dest!: record_history_Inr split: if_splits)
  have none: "hist (sh_pk sh) (qHistory d) = []"
    using ok fresh by (fastforce simp: history_ok_def hist_def filter_empty_conv image_subset_iff)
  have "history_row_ok (qHistory d') x" if "x \<in> set (qSchedules d)" for x
  proof -
    have "sh_pk sh \<noteq> sh_pk x" using fresh that by metis
    then show ?thesis using ok that by (simp add: history_ok_def history_row_ok_def d'(2) hist_append)
  qed
  moreover have "history_row_ok (qHistory d') sh" using new by (simp add: history_row_ok_def d'(2) hist_append none)
  ultimately have "history_ok d'" using ok fresh by (auto simp: history_ok_def d')
  moreover have "version_step (versions d) (versions d')"
    unfolding version_step_def versions_append [OF d'(2)]
    by (intro exI conjI) (use new none in \<open>auto simp: versions_def row_version_def\<close>)
  ultimately show ?thesis by (simp add: versioned_def r_into_rtranclp)
qed

lemma update_unique:
  assumes "distinct (map sh_pk xs)" "find (schedule_named tenant sid) xs = Some old" "x \<in> set xs" "schedule_named tenant sid x"
  shows "x = old"
proof -
  have "old \<in> set xs" "schedule_named tenant sid old" using assms(2) by (auto simp: find_Some_iff)
  then show ?thesis using assms by (intro inj_onD [of sh_pk "set xs"]) (auto simp: distinct_map schedule_named_def sh_pk_def)
qed

lemma new_revision:
  assumes old: "history_row_ok (qHistory d) old" and hs: "qHistory d' = qHistory d @ [history_of now new]"
    and new: "sh_pk new = sh_pk old" "shRevision new = shRevision old + 1" "\<not> (shRetired new \<and> shEnabled new)"
  shows "history_row_ok (qHistory d') new"
    and "history_row_ok (qHistory d) x \<Longrightarrow> sh_pk x \<noteq> sh_pk old \<Longrightarrow> history_row_ok (qHistory d') x"
    and "\<not> shRetired old \<Longrightarrow> version_step (versions d) (versions d')"
proof -
  let ?h = "hist (sh_pk old) (qHistory d)"
  have "map hrRevision (?h @ [history_of now new]) = [1..shRevision old + 1]"
    using old new(2) by (simp add: history_row_ok_def upto_rec2 [of 1 "shRevision old + 1"])
  then show "history_row_ok (qHistory d') new" using old new by (simp add: history_row_ok_def hs hist_append)
  show "history_row_ok (qHistory d') x" if "history_row_ok (qHistory d) x" "sh_pk x \<noteq> sh_pk old"
    using that by (simp add: history_row_ok_def hs hist_append new(1))
  have "?h \<noteq> []" using old by (auto simp: history_row_ok_def)
  then have "last (versions d (sh_pk old)) = row_version old" "versions d (sh_pk old) \<noteq> []"
    using old by (simp_all add: versions_def last_map history_row_ok_def)
  then show "version_step (versions d) (versions d')" if "\<not> shRetired old"
    unfolding version_step_def versions_append [OF hs] new(1)
    by (intro exI conjI) (use that new(3) in \<open>auto simp: row_version_def\<close>)
qed

lemma update_schedule_versioned:
  assumes ok: "history_ok d" and u: "update_schedule now req tenant sid f d = Inr d'" and keep: "\<And>sh. sh_pk (f sh) = sh_pk sh"
  shows "versioned d d'"
proof (cases "find (schedule_named tenant sid) (qSchedules d)")
  case None
  with u have "d' = d" by (simp add: update_schedule_def)
  then show ?thesis by (simp add: versioned_same ok)
next
  case (Some old)
  define d1 where "d1 = d\<lparr>qSchedules := update_where (schedule_named tenant sid) f (qSchedules d)\<rparr>"
  have trig: "schedule_trigger now req old (f old) d1 = Inr d'" using u Some by (simp add: update_schedule_def d1_def)
  have dist: "distinct (map sh_pk (qSchedules d))" and old: "old \<in> set (qSchedules d)" "schedule_named tenant sid old"
    using ok Some by (auto simp: history_ok_def find_Some_iff)
  note only = update_unique [OF dist Some]
  have okold: "history_row_ok (qHistory d) old" using ok old by (simp add: history_ok_def)
  have pk: "map sh_pk (qSchedules d1) = map sh_pk (qSchedules d)" by (simp add: d1_def map_update_where keep)
  from arg_cong [OF pk, of set] have pks: "sh_pk ` set (qSchedules d1) = sh_pk ` set (qSchedules d)" by simp
  have row: "x = f old \<or> x \<in> set (qSchedules d) \<and> sh_pk x \<noteq> sh_pk old" if "x \<in> set (qSchedules d1)" for x
    using that only old(2) by (auto simp: d1_def sh_pk_def schedule_named_def)
  show ?thesis
  proof (cases "shRevision (f old) = shRevision old")
    case True
    then have same: "d' = d1" "row_version (f old) = row_version old" and ret: "\<not> (shRetired (f old) \<and> shEnabled (f old))"
      using trig by (auto simp: schedule_trigger_def row_version_def split: if_splits)
    have "history_row_ok (qHistory d) (f old)" using okold True same(2) ret by (simp add: history_row_ok_def keep)
    then have "\<forall>x \<in> set (qSchedules d1). history_row_ok (qHistory d) x" using row ok by (auto simp: history_ok_def)
    moreover have "qHistory d1 = qHistory d" by (simp add: d1_def)
    ultimately have "history_ok d1" using ok unfolding history_ok_def pk pks by simp
    moreover have "versions d1 = versions d" by (rule ext) (simp add: versions_def d1_def)
    ultimately show ?thesis by (simp add: versioned_def same)
  next
    case False
    then have live: "\<not> shRetired old" and rev: "shRevision (f old) = shRevision old + 1" and ret: "\<not> (shRetired (f old) \<and> shEnabled (f old))"
      and rec: "record_history now (f old) d1 = Inr d'"
      using trig by (auto simp: schedule_trigger_def split: if_splits)
    have hs: "qHistory d' = qHistory d @ [history_of now (f old)]" and sch: "qSchedules d' = qSchedules d1"
      using record_history_Inr [OF rec] by (simp_all add: d1_def)
    note rev = new_revision [OF okold hs keep rev ret]
    have "\<forall>x \<in> set (qSchedules d'). history_row_ok (qHistory d') x"
      using row rev(1,2) ok unfolding sch history_ok_def by blast
    moreover have "hr_pk ` set (qHistory d') \<subseteq> sh_pk ` set (qSchedules d')"
      using ok old(1) unfolding sch pks hs by (auto simp: history_ok_def keep)
    ultimately have "history_ok d'" using dist pk sch by (simp add: history_ok_def)
    moreover have "version_step (versions d) (versions d')" by (rule rev(3) [OF live])
    ultimately show ?thesis by (simp add: versioned_def r_into_rtranclp)
  qed
qed

text \<open>Everything else leaves both tables alone.\<close>

lemma auditJob_tables: "auditJob event now s action ident d = Inr d' \<Longrightarrow> same_tables d d'"
  by (auto simp: auditJob_def same_tables_def split: sum.splits)

lemma queueLock_tables: "queueLock g l d = Inr d' \<Longrightarrow> same_tables d d'"
  using queueLock_Inr(4) by (fastforce simp: same_tables_def)

lemma on_ledger_tables: "on_ledger fn d = Inr (x, d') \<Longrightarrow> same_tables d d'"
  by (auto simp: on_ledger_Inr same_tables_def)

lemma insert_occurrence_tables: "insert_occurrence o' d = Inr d' \<Longrightarrow> same_tables d d'"
  by (auto simp: insert_occurrence_def same_tables_def split: if_splits)

lemma admitCutoverOccurrence_tables: "admitCutoverOccurrence s due d = (ok, d') \<Longrightarrow> same_tables d d'"
  by (auto simp: admitCutoverOccurrence_def same_tables_def split: option.splits if_splits)

lemma admitJob_tables:
  assumes "admitJob g a s session key request l due start sid srev d = Inr (j, d')"
  shows "same_tables d d'"
proof (cases "find (accepted_row d s (subKind request) (client_key g s key)) (q_ops d)")
  case (Some r)
  then show ?thesis using assms by (auto simp: admitJob_def split: sum.splits if_splits)
next
  case None
  then have "admit_new g a s session key request l due start sid srev d = Inr (j, d')" using assms by (simp add: admitJob_def)
  then show ?thesis
  proof (rule admit_new_Inr)
    fix rv m i d1 d2
    assume "insert_job (clock a) (rvOperationHours rv) (client_key g s key) (request_hash g request l sid srev) m i j d = Inr d1"
      "insertReportingDelivery j d1 = Inr d2" "auditJob (eventID a) (clock a) s ''job.accepted'' (jobID j) d2 = Inr d'"
    then have "same_tables d d1" "same_tables d1 d2" "same_tables d2 d'"
      by (auto simp: insert_job_def insertReportingDelivery_def same_tables_def Let_def dest: auditJob_tables [unfolded same_tables_def]
          split: if_splits option.splits)
    then show ?thesis by (blast intro: same_tables_trans)
  qed
qed

lemmas table_facts = auditJob_tables queueLock_tables on_ledger_tables insert_occurrence_tables admitCutoverOccurrence_tables admitJob_tables

lemma q_transaction_tables:
  "(\<And>x d'. fn d = Inr (x, d') \<Longrightarrow> same_tables d d') \<Longrightarrow> same_tables d (snd (q_transaction fn d))"
  by (auto simp: snd_q_transaction split: sum.splits)

lemma same_tables_ledger [simp]: "same_tables d (d\<lparr>qLedger := led\<rparr>)" "same_tables (d\<lparr>qLedger := led\<rparr>) d' = same_tables d d'"
  by (simp_all add: same_tables_def)

lemma AdmitJob_tables: "same_tables d (snd (AdmitJob g a s session key request l d))"
proof -
  have "same_tables d d'" if "(case queueLock g l d of Inl err \<Rightarrow> Inl err | Inr d \<Rightarrow>
      admitJob g a s session key request l due start sid srev d) = Inr (j, d')" for d' j due start sid srev
  proof (cases "queueLock g l d")
    case (Inr d1)
    with that have "admitJob g a s session key request l due start sid srev d1 = Inr (j, d')" by simp
    from same_tables_trans [OF queueLock_tables [OF Inr] admitJob_tables [OF this]] show ?thesis .
  qed (use that in simp)
  then have "same_tables d (snd (q_transaction (\<lambda>d. case queueLock g l d of Inl err \<Rightarrow> Inl err | Inr d \<Rightarrow>
      admitJob g a s session key request l due start sid srev d) d))" for due start sid srev
    by (rule q_transaction_tables)
  then show ?thesis by (simp add: AdmitJob_def)
qed

lemma CancelJob_tables: "same_tables d (snd (CancelJob g a s ident d))"
proof -
  have "same_tables d d'" if "auditJob event now s action ident (d\<lparr>qLedger := led\<rparr>) = Inr d'" for d' led event now action
    using auditJob_tables [OF that] by simp
  then show ?thesis
    unfolding CancelJob_def
    by (auto simp: Let_def split: option.splits sum.splits if_splits intro!: q_transaction_tables)
qed

lemma ClaimJob_tables: "same_tables d (snd (ClaimJob g now1 now2 skip skipA owner l d))"
proof -
  have "same_tables d d'" if tx: "claim_tx g now1 now2 skip skipA owner l d = Inr (x, d')" for x d'
  proof -
    from tx obtain d1 where lock: "queueLock g l d = Inr d1" by (cases "queueLock g l d") (simp_all add: claim_tx_def)
    have "same_tables d1 d'" using tx unfolding claim_tx_def lock sum.case Let_def
      by (auto dest!: on_ledger_tables split: if_split_asm option.split_asm sum.split_asm)
    with queueLock_tables [OF lock] show ?thesis by (rule same_tables_trans)
  qed
  then have "same_tables d (snd (q_transaction (claim_tx g now1 now2 skip skipA owner l) d))" by (rule q_transaction_tables)
  then show ?thesis by (auto simp: ClaimJob_def split: prod.splits sum.splits option.splits)
qed

lemma CompleteJob_tables: "same_tables d (snd (CompleteJob g event now0 now1 now2 skipA skipO skipB lease proof d))"
proof -
  have "same_tables d d'" if "complete_tx g event now1 now2 skipA skipO skipB lease proof d = Inr (x, d')" for x d'
    using that unfolding complete_tx_def
    by (auto simp: Let_def same_tables_def split: option.split_asm sum.split_asm if_split_asm prod.split_asm)
  then have "same_tables d (snd (q_transaction (complete_tx g event now1 now2 skipA skipO skipB lease proof) d))" by (rule q_transaction_tables)
  then show ?thesis by (simp add: CompleteJob_def split: sum.splits)
qed

lemma queue_step_tables: "queue_step g st st' \<Longrightarrow> same_tables (snd st) (snd st')"
  by (induction rule: queue_step.induct)
     (auto simp: AdmitJob_tables CancelJob_tables ClaimJob_tables CompleteJob_tables ConfigureQueue_def HeartbeatJob_def FinishAttempt_def
       intro!: q_transaction_tables dest!: queueLock_tables on_ledger_tables split: sum.split_asm)

lemma versioned_after: "versioned d d1 \<Longrightarrow> same_tables d1 d' \<Longrightarrow> versioned d d'"
  by (meson versioned_def versioned_same versioned_trans)

lemma versioned_before: "history_ok d \<Longrightarrow> same_tables d d1 \<Longrightarrow> (history_ok d1 \<Longrightarrow> versioned d1 d') \<Longrightarrow> versioned d d'"
  by (meson versioned_def versioned_same versioned_trans)

lemma q_transaction_versioned:
  "history_ok d \<Longrightarrow> (\<And>x d'. fn d = Inr (x, d') \<Longrightarrow> versioned d d') \<Longrightarrow> versioned d (snd (q_transaction fn d))"
  by (auto simp: snd_q_transaction versioned_same split: sum.splits)

text \<open>The tail of every change: the statement, then the audit.\<close>

lemma change_versioned:
  assumes ok: "history_ok d" and keep: "\<And>sh. sh_pk (f sh) = sh_pk sh"
    and tx: "(case update_schedule now req tenant sid f d of Inl err \<Rightarrow> Inl err | Inr d \<Rightarrow>
      (case auditJob ev tm s act i d of Inl err \<Rightarrow> Inl err | Inr d \<Rightarrow> Inr (out, d))) = Inr (x, d')"
  shows "versioned d d'"
proof -
  from tx obtain d1 where u: "update_schedule now req tenant sid f d = Inr d1"
    by (cases "update_schedule now req tenant sid f d") simp_all
  with tx have a: "auditJob ev tm s act i d1 = Inr d'" by (auto split: sum.split_asm)
  show ?thesis by (rule versioned_after [OF update_schedule_versioned [OF ok u keep] auditJob_tables [OF a]])
qed

lemma set_tx_versioned:
  assumes ok: "history_ok d" and tx: "set_tx g cal a s sid expected enabled d = Inr (x, d')"
  shows "versioned d d'"
proof (cases "the_schedule g cal (scopeTenant s) sid d")
  case (Inr out)
  show ?thesis
  proof (cases "sdEnabled out = enabled")
    case True
    with tx Inr have "d' = d" by (simp add: set_tx_def split: if_splits)
    then show ?thesis by (simp add: versioned_same ok)
  next
    case False
    have "\<not> (sdRevision out \<noteq> expected \<or> sdRetired out)" using tx Inr by (simp add: set_tx_def split: if_split_asm)
    note tx [unfolded set_tx_def Inr sum.case if_not_P [OF this] if_not_P [OF False]]
    from change_versioned [OF ok _ this] show ?thesis by (simp add: sh_pk_def)
  qed
qed (use tx in \<open>simp add: set_tx_def\<close>)

lemma retire_tx_versioned:
  assumes ok: "history_ok d" and tx: "retire_tx g cal a s sid expected d = Inr (x, d')"
  shows "versioned d d'"
proof (cases "the_schedule g cal (scopeTenant s) sid d")
  case (Inr out)
  have "\<not> (sdRevision out \<noteq> expected \<or> sdRetired out)" using tx Inr by (simp add: retire_tx_def split: if_split_asm)
  note tx [unfolded retire_tx_def Inr sum.case if_not_P [OF this]]
  from change_versioned [OF ok _ this] show ?thesis by (simp add: sh_pk_def)
qed (use tx in \<open>simp add: retire_tx_def\<close>)

lemma create_tx_versioned:
  assumes ok: "history_ok d" and tx: "create_tx g cal a s session key r l enabled d = Inr (x, d')"
  shows "versioned d d'"
proof -
  from tx obtain d1 where lock: "queueLock g l d = Inr d1" by (cases "queueLock g l d") (simp_all add: create_tx_def)
  have "versioned d1 d'" if ok1: "history_ok d1"
  proof (cases "find (\<lambda>sh. shTenant sh = scopeTenant s \<and> shCreator sh = scopeActor s \<and> shKey sh = key) (qSchedules d1)")
    case (Some sh)
    with tx have "d' = d1" by (auto simp: create_tx_def lock split: sum.split_asm if_split_asm)
    then show ?thesis by (simp add: versioned_same ok1)
  next
    case None
    from tx obtain p n where times: "scheduleTimes cal (srSpec r) (1000 * clock a) = Inr (p, n)"
      by (cases "scheduleTimes cal (srSpec r) (1000 * clock a)") (auto simp: create_tx_def lock None split: if_split_asm)
    let ?row = "schedule_insert_row key (new_schedule (newID a) s session r p n enabled)"
    from tx obtain d2 where ins: "insert_schedule (clock a) ?row d1 = Inr d2"
      by (cases "insert_schedule (clock a) ?row d1") (auto simp: create_tx_def lock None times Let_def split: if_split_asm)
    from tx have aud: "auditJob (eventID a) (clock a) s ''schedule.created'' (newID a) d2 = Inr d'"
      by (auto simp: create_tx_def lock None times Let_def ins split: if_split_asm sum.split_asm)
    have "versioned d1 d2"
      by (rule insert_schedule_versioned [OF ok1 ins]) (simp_all add: schedule_insert_row_def new_schedule_def)
    then show ?thesis by (rule versioned_after [OF _ auditJob_tables [OF aud]])
  qed
  then show ?thesis by (rule versioned_before [OF ok queueLock_tables [OF lock]])
qed

lemma replace_tx_versioned:
  assumes ok: "history_ok d" and tx: "replace_tx g cal a s session sid expected key r l d = Inr (x, d')"
  shows "versioned d d'"
proof -
  from tx obtain d1 where lock: "queueLock g l d = Inr d1" by (cases "queueLock g l d") (simp_all add: replace_tx_def)
  from tx obtain current where cur: "the_schedule g cal (scopeTenant s) sid d1 = Inr current"
    by (cases "the_schedule g cal (scopeTenant s) sid d1") (simp_all add: replace_tx_def lock)
  let ?replay = "sdRevision current = expected + 1 \<and>
    list_ex (\<lambda>sh. schedule_named (scopeTenant s) sid sh \<and> same_change key s session sh) (qSchedules d1) \<and>
    request_digest g (sdRequest current) = request_digest g r"
  have "versioned d1 d'" if ok1: "history_ok d1"
  proof (cases ?replay)
    case True
    with tx have "d' = d1" by (simp add: replace_tx_def lock cur split: if_split_asm)
    then show ?thesis by (simp add: versioned_same ok1)
  next
    case False
    have guards: "\<not> sdRetired current" "\<not> sdRevision current \<noteq> expected"
      using tx False unfolding replace_tx_def lock sum.case cur by (simp_all split: if_split_asm)
    note tx' = tx [unfolded replace_tx_def lock sum.case cur if_not_P [OF guards(1)] if_not_P [OF False] if_not_P [OF guards(2)]]
    then obtain p n where "scheduleTimes cal (srSpec r) (1000 * clock a) = Inr (p, n)"
      by (cases "scheduleTimes cal (srSpec r) (1000 * clock a)") auto
    note tx' [unfolded this sum.case prod.case]
    from change_versioned [OF ok1 _ this] show ?thesis by (simp add: sh_pk_def)
  qed
  then show ?thesis by (rule versioned_before [OF ok queueLock_tables [OF lock]])
qed

lemma fire_tx_tables:
  assumes "fire_tx g cal a now s session sid key expected l d = Inr (x, d')"
  shows "same_tables d d'"
proof -
  from assms obtain d1 where lock: "queueLock g l d = Inr d1" by (cases "queueLock g l d") (simp_all add: fire_tx_def)
  from assms obtain sc where sc: "the_schedule g cal (scopeTenant s) sid d1 = Inr sc"
    by (cases "the_schedule g cal (scopeTenant s) sid d1") (simp_all add: fire_tx_def lock)
  obtain allowed d2 where cut: "admitCutoverOccurrence sc (1000 * now) d1 = (allowed, d2)" by fastforce
  from assms obtain key' j d3 where adm: "admitJob g a s session key' (srTarget (sdRequest sc)) l (1000 * now) (1000 * now) sid
      (sdRevision sc) d2 = Inr (j, d3)" and q: "queuedOccurrence (scopeTenant s) sid (jobDue j) (jobWindowStart j) (jobID j) d3 = Inr d'"
    by (auto simp: fire_tx_def lock sc cut split: if_split_asm sum.split_asm)
  have "same_tables d3 d'" using q unfolding queuedOccurrence_def by (rule insert_occurrence_tables)
  with queueLock_tables [OF lock] admitCutoverOccurrence_tables [OF cut] admitJob_tables [OF adm] show ?thesis
    by (blast intro: same_tables_trans)
qed

lemma occurrence_tables:
  "skippedOccurrence s due start wend through reason d = Inr d' \<Longrightarrow> same_tables d d'"
  "queuedOccurrence tenant sid due start opid d = Inr d' \<Longrightarrow> same_tables d d'"
  by (simp_all add: skippedOccurrence_def queuedOccurrence_def insert_occurrence_tables)

lemma tick_turn_tables:
  assumes "tick_turn g cal amb sc s k now c = Inr turn"
  shows "case turn of Continue c' \<Rightarrow> same_tables (crDB c) (crDB c') | Break c' \<Rightarrow> same_tables (crDB c) (crDB c')"
proof -
  obtain allowed d where cut: "admitCutoverOccurrence s (crDue c) (crDB c) = (allowed, d)" by fastforce
  note t = admitCutoverOccurrence_tables [OF cut]
  have skip: "same_tables (crDB c) d'" if "skippedOccurrence s due start wend through reason d = Inr d'" for due start wend through reason d'
    by (rule same_tables_trans [OF t occurrence_tables(1) [OF that]])
  have adm: "same_tables (crDB c) d'" if "admitJob g a sc session key request k due start sid srev d = Inr (j, d1)"
      "queuedOccurrence tenant sid' due' start' opid d1 = Inr d'" for a session key request due start sid srev j d1 tenant sid' due' start' opid d'
    by (rule same_tables_trans [OF t same_tables_trans [OF admitJob_tables [OF that(1)] occurrence_tables(2) [OF that(2)]]])
  show ?thesis
  proof (cases "too_late now (srSpec (sdRequest s)) c")
    case True
    then have "skip_rest cal s now c = Inr turn" using assms by (simp add: tick_turn_def)
    then show ?thesis by (auto simp: skip_rest_def dest: occurrence_tables(1) split: sum.split_asm)
  next
    case False
    show ?thesis
      using assms False t unfolding tick_turn_def cut prod.case
      by (auto elim!: advance_Inr dest: skip split: if_split_asm sum.split_asm) (erule adm, assumption)+
  qed
qed

lemma tick_loop_tables:
  assumes "tick_loop g cal amb sc s k now c = Inr c'"
  shows "same_tables (crDB c) (crDB c')"
  using assms
proof (induction g cal amb sc s k now c rule: tick_loop.induct)
  case (1 g cal amb sc s k now c)
  show ?case
  proof (cases "crDue c > now")
    case True
    with "1.prems" show ?thesis by (simp add: tick_loop.simps)
  next
    case False
    note unf = "1.prems" [unfolded tick_loop.simps [of g cal amb sc s k now c] if_not_P [OF False]]
    then obtain turn where turn: "tick_turn g cal amb sc s k now c = Inr turn" by (auto split: sum.splits)
    note p = tick_turn_tables [OF turn]
    show ?thesis
    proof (cases turn)
      case (Continue c1)
      then show ?thesis using "1.IH" [OF False turn Continue] unf p by (simp add: turn) (blast intro: same_tables_trans)
    next
      case (Break c1)
      then show ?thesis using unf p by (simp add: turn)
    qed
  qed
qed

lemma tick_schedule_versioned:
  assumes "tick_schedule g cal amb k now s st = Inr st'" "history_ok (snd st)"
  shows "versioned (snd st) (snd st')"
proof -
  obtain n d where st: "st = (n, d)" by fastforce
  from assms(1) obtain sc due previous c d' where
    loop: "tick_loop g cal amb sc s k (1000 * now) \<lparr>crDue = due, crPrevious = previous, crProcessed = 0, crAdmitted = n, crDB = d\<rparr> = Inr c"
    and upd: "update_schedule now False (sdTenant s) (sdID s)
       (\<lambda>sh. sh\<lparr>shPrevious := Some (crPrevious c div 1000), shNext := Some (crDue c div 1000)\<rparr>) (crDB c) = Inr d'"
    and st': "st' = (crAdmitted c, d')"
    by (cases "sdNext s"; cases "sdPrevious s") (auto simp: tick_schedule_def st split: sum.split_asm)
  have hd: "history_ok d" using assms(2) by (simp add: st)
  have "versioned d d'"
  proof (rule versioned_before [OF hd])
    show "same_tables d (crDB c)" using tick_loop_tables [OF loop] by simp
    show "versioned (crDB c) d'" if "history_ok (crDB c)"
      by (rule update_schedule_versioned [OF that upd]) (simp add: sh_pk_def)
  qed
  then show ?thesis by (simp add: st st')
qed

lemma tick_tx_versioned:
  assumes ok: "history_ok d" and tx: "tick_tx g cal amb now skip k d = Inr (x, d')"
  shows "versioned d d'"
proof -
  from tx obtain d1 where lock: "queueLock g k d = Inr d1" by (cases "queueLock g k d") (simp_all add: tick_tx_def)
  from tx obtain ss where fold: "fold_res (tick_schedule g cal amb k now) ss (0, d1) = Inr (x, d')"
    by (auto simp: tick_tx_def lock split: sum.split_asm)
  have v: "versioned d d1" by (rule versioned_same [OF ok queueLock_tables [OF lock]])
  have "versioned d (snd (x, d'))"
    by (rule fold_res_keeps [OF fold, where P = "\<lambda>st. versioned d (snd st)"])
       (use v tick_schedule_versioned versioned_trans in \<open>auto simp: versioned_def\<close>)
  then show ?thesis by simp
qed

lemma system_step_versioned:
  assumes "system_step g cal st st'" "history_ok (snd st)"
  shows "versioned (snd st) (snd st')"
  using assms
proof (induction rule: system_step.induct)
  case (queue st st')
  then show ?case by (simp add: versioned_same queue_step_tables)
next
  case (fire t now a d s session sid key expected l)
  have "same_tables d (snd (q_transaction (fire_tx g cal a now s session sid key expected l) d))"
    by (rule q_transaction_tables) (rule fire_tx_tables)
  with fire show ?case by (simp add: FireSchedule_def versioned_same)
next
  case (create t a d s session key r l enabled)
  then show ?case by (simp add: createSchedule_def versioned_same q_transaction_versioned [OF _ create_tx_versioned])
next
  case (set_enabled t a d s sid expected enabled)
  then show ?case by (simp add: SetSchedule_def versioned_same q_transaction_versioned [OF _ set_tx_versioned])
next
  case (replace t a d s session sid expected key r l)
  then show ?case by (simp add: ReplaceSchedule_def versioned_same q_transaction_versioned [OF _ replace_tx_versioned])
next
  case (retire t a d s sid expected)
  then show ?case by (simp add: RetireSchedule_def versioned_same q_transaction_versioned [OF _ retire_tx_versioned])
next
  case (tick t now amb t' d skip l)
  then show ?case by (simp add: TickSchedules_def versioned_same q_transaction_versioned [OF _ tick_tx_versioned])
qed

interpretation versioned_run: simulation_run "system_step g cal" "\<lambda>st. history_ok (snd st)" version_step "\<lambda>st. versions (snd st)" for g cal
  by unfold_locales (use system_step_versioned in \<open>auto simp: versioned_def\<close>)


definition retired_queue :: queue_db where
  "retired_queue = snd (RetireSchedule queue_lib sample_calendar (schedule_ambient\<lparr>eventID := ''ev9''\<rparr>) acme_ana ''sch1'' 1 scheduled_queue)"


subsection \<open>Fenced occurrences\<close>

text \<open>
  The disposition recorded for an occurrence that a cutover fences is not among those the table admits, so a turn
  that reaches one is refused, and with it the whole tick.
\<close>

lemma fenced_turn_fails:
  assumes "\<not> too_late now (srSpec (sdRequest s)) c" "admitCutoverOccurrence s (crDue c) (crDB c) = (False, d)"
  shows "tick_turn g cal amb sc s l now c = Inl (FStore StoreErrInvalid)"
  using assms by (simp add: tick_turn_def skippedOccurrence_def insert_occurrence_def dispositions_def)

end
