(* ===== verification/Service.thy ===== *)
theory Service
  imports Occurrences
begin

text \<open>
  The job service (\<^verbatim>\<open>internal/jobs/service.go\<close>, \<^verbatim>\<open>schedule_lifecycle.go\<close>, \<^verbatim>\<open>schedule_replace.go\<close>): the checks of signed
  authority in front of every handler of the queue and of the schedules, and one attempt of a worker. The consumers of
  pipelines and reports belong to other packages and are fields of the service; the clock of the process is a
  sequence of readings, one for each check of a call.
\<close>

subsection \<open>The service\<close>

record job_service =
  svDispatch :: bool
  svPipeline :: "(envelope \<Rightarrow> pipeline_target \<Rightarrow> fault + unit) option"
  svReporting :: "(envelope \<Rightarrow> reporting_target \<Rightarrow> fault + unit) option"
  svLimits :: limits

definition New :: "limits \<Rightarrow> fault + job_service" where
  "New l = (if \<not> is_ok (Limits_Validate l) then Inl (FJobs JInvalid)
     else Inr \<lparr>svDispatch = True, svPipeline = None, svReporting = None, svLimits = l\<rparr>)"

definition NewMetadata :: "limits \<Rightarrow> fault + job_service" where
  "NewMetadata l = (if \<not> is_ok (Limits_Validate l) then Inl (FJobs JInvalid)
     else Inr \<lparr>svDispatch = False, svPipeline = None, svReporting = None, svLimits = l\<rparr>)"

definition NewWithPipeline :: "limits \<Rightarrow> (envelope \<Rightarrow> pipeline_target \<Rightarrow> fault + unit) option \<Rightarrow> fault + job_service" where
  "NewWithPipeline l pipeline =
     (if Option.is_none pipeline then Inl (FJobs JInvalid)
      else case New l of Inl err \<Rightarrow> Inl err | Inr sv \<Rightarrow> Inr (sv\<lparr>svPipeline := pipeline\<rparr>))"

definition NewWithReporting ::
  "limits \<Rightarrow> (envelope \<Rightarrow> pipeline_target \<Rightarrow> fault + unit) option \<Rightarrow> (envelope \<Rightarrow> reporting_target \<Rightarrow> fault + unit) option
   \<Rightarrow> fault + job_service" where
  "NewWithReporting l pipeline reporting =
     (if Option.is_none reporting then Inl (FJobs JInvalid)
      else case New l of Inl err \<Rightarrow> Inl err | Inr sv \<Rightarrow> Inr (sv\<lparr>svPipeline := pipeline, svReporting := reporting\<rparr>))"

subsection \<open>Admission\<close>

definition own :: "envelope \<Rightarrow> string \<Rightarrow> string \<Rightarrow> string \<Rightarrow> resource" where
  "own e kind permission ident = \<lparr>resTenant = envTenant e, resKind = kind, resPermission = permission, resID = ident\<rparr>"

definition scope_of :: "envelope \<Rightarrow> fault + store_scope" where
  "scope_of e = (case NewScope (envTenant e) (envUser e) of Inl err \<Rightarrow> Inl (FStore err) | Inr s \<Rightarrow> Inr s)"

definition maintenance_scope :: "go_time \<Rightarrow> envelope \<Rightarrow> fault + store_scope" where
  "maintenance_scope now e =
     (case StoreScope now e ''ops.maintain'' ''erase'' of
        Inl (Inl err) \<Rightarrow> Inl (FAccess err) | Inl (Inr err) \<Rightarrow> Inl (FStore err) | Inr s \<Rightarrow> Inr s)"

definition admission :: "golib \<Rightarrow> job_service \<Rightarrow> (nat \<Rightarrow> go_time) \<Rightarrow> envelope \<Rightarrow> submission \<Rightarrow> fault + store_scope" where
  "admission g sv now e request =
     (if \<not> svDispatch sv then Inl (FJobs JTransient)
      else if \<not> is_ok (Submission_Validate g request) then Inl (FJobs JInvalid)
      else case lift_access (Require (now 0) e ''scheduling.write'' [Tenant e ''write'', own e ''execution_binding'' ''use'' (subBinding request)]) of
        Inl err \<Rightarrow> Inl err
      | Inr _ \<Rightarrow>
          if subKind request = ''reporting.scheduled'' then
            (case svReporting sv of None \<Rightarrow> Inl (FJobs JTransient) | Some check \<Rightarrow>
            (case ReportingTarget_Require (now 1) (the (subReporting request)) e of Inl err \<Rightarrow> Inl err | Inr _ \<Rightarrow>
            (case check e (the (subReporting request)) of Inl err \<Rightarrow> Inl err | Inr _ \<Rightarrow> scope_of e)))
          else if subKind request = ''pipeline.run'' then
            (case svPipeline sv of None \<Rightarrow> Inl (FJobs JTransient) | Some check \<Rightarrow>
            (case check e (the (subPipeline request)) of Inl err \<Rightarrow> Inl err | Inr _ \<Rightarrow> scope_of e))
          else maintenance_scope (now 1) e)"

subsection \<open>Jobs\<close>

definition Service_Submit ::
  "golib \<Rightarrow> job_service \<Rightarrow> (nat \<Rightarrow> go_time) \<Rightarrow> ambient \<Rightarrow> envelope \<Rightarrow> string \<Rightarrow> submission \<Rightarrow> queue_db \<Rightarrow> (fault + job) \<times> queue_db" where
  "Service_Submit g sv now a e key request d =
     (case admission g sv now e request of Inl err \<Rightarrow> (Inl err, d) | Inr s \<Rightarrow>
      if \<not> Identifier key then (Inl (FJobs JInvalid), d)
      else AdmitJob g a s (envSession e) key request (svLimits sv) d)"

text \<open>The guard shared by the calls on one resource: the action and reach, then the scope of the caller.\<close>

definition guarded ::
  "go_time \<Rightarrow> envelope \<Rightarrow> string \<Rightarrow> resource \<Rightarrow> (store_scope \<Rightarrow> queue_db \<Rightarrow> (fault + 'a) \<times> queue_db) \<Rightarrow> queue_db
   \<Rightarrow> (fault + 'a) \<times> queue_db" where
  "guarded now e action r fn d =
     (case lift_access (Require now e action [r]) of Inl err \<Rightarrow> (Inl err, d) | Inr _ \<Rightarrow>
     (case scope_of e of Inl err \<Rightarrow> (Inl err, d) | Inr s \<Rightarrow> fn s d))"

definition Service_Get ::
  "golib \<Rightarrow> (job \<Rightarrow> fault + reporting_receipt option) \<Rightarrow> go_time \<Rightarrow> envelope \<Rightarrow> string \<Rightarrow> queue_db \<Rightarrow> (fault + job) \<times> queue_db" where
  "Service_Get g receipt now e ident =
     guarded now e ''scheduling.read'' (own e ''run'' ''read'' ident) (\<lambda>s. ReadJob g receipt s ident)"

definition Service_List ::
  "golib \<Rightarrow> (job \<Rightarrow> fault + reporting_receipt option) \<Rightarrow> (nat \<Rightarrow> go_time) \<Rightarrow> envelope \<Rightarrow> int \<Rightarrow> queue_db
   \<Rightarrow> (fault + job list) \<times> queue_db" where
  "Service_List g receipt now e limit d =
     (case lift_access (Constrain (now 0) e ''scheduling.read'' ''run'' ''read'') of Inl err \<Rightarrow> (Inl err, d) | Inr sel \<Rightarrow>
      if limit < 1 \<or> limit > 100 then (Inl (FJobs JInvalid), d)
      else (case scope_of e of Inl err \<Rightarrow> (Inl err, d) | Inr s \<Rightarrow> ListJobs g receipt (now 1) s sel limit d))"

definition Service_Cancel :: "golib \<Rightarrow> go_time \<Rightarrow> ambient \<Rightarrow> envelope \<Rightarrow> string \<Rightarrow> queue_db \<Rightarrow> (fault + job) \<times> queue_db" where
  "Service_Cancel g now a e ident =
     guarded now e ''scheduling.cancel'' (own e ''run'' ''write'' ident) (\<lambda>s. CancelJob g a s ident)"

subsection \<open>Schedules\<close>

definition Service_CreateSchedule ::
  "golib \<Rightarrow> calendar \<Rightarrow> job_service \<Rightarrow> (nat \<Rightarrow> go_time) \<Rightarrow> ambient \<Rightarrow> envelope \<Rightarrow> string \<Rightarrow> schedule_request \<Rightarrow> queue_db
   \<Rightarrow> (fault + schedule) \<times> queue_db" where
  "Service_CreateSchedule g cal sv now a e key r d =
     (if \<not> is_ok (ScheduleRequest_Validate g cal r) \<or> \<not> Identifier key then (Inl (FJobs JInvalid), d)
      else case admission g sv now e (srTarget r) of Inl err \<Rightarrow> (Inl err, d) | Inr s \<Rightarrow>
        CreateSchedule g cal a s (envSession e) key r (svLimits sv) d)"

definition Service_CreateImportedSchedule ::
  "golib \<Rightarrow> calendar \<Rightarrow> job_service \<Rightarrow> (nat \<Rightarrow> go_time) \<Rightarrow> ambient \<Rightarrow> envelope \<Rightarrow> string \<Rightarrow> schedule_request \<Rightarrow> queue_db
   \<Rightarrow> (fault + schedule) \<times> queue_db" where
  "Service_CreateImportedSchedule g cal sv now a e key r d =
     (if \<not> is_ok (ScheduleRequest_Validate g cal r) \<or> \<not> Identifier key then (Inl (FJobs JInvalid), d)
      else case admission g sv now e (srTarget r) of Inl err \<Rightarrow> (Inl err, d) | Inr s \<Rightarrow>
        CreateImportedSchedule g cal a s (envSession e) key r (svLimits sv) d)"

definition Service_GetSchedule :: "golib \<Rightarrow> calendar \<Rightarrow> go_time \<Rightarrow> envelope \<Rightarrow> string \<Rightarrow> queue_db \<Rightarrow> (fault + schedule) \<times> queue_db" where
  "Service_GetSchedule g cal now e sid =
     guarded now e ''scheduling.read'' (own e ''schedule'' ''read'' sid) (\<lambda>s. ReadSchedule g cal s sid)"

text \<open>Resuming asks for the authority to admit the stored target again; pausing does not.\<close>

definition Service_SetSchedule ::
  "golib \<Rightarrow> calendar \<Rightarrow> job_service \<Rightarrow> (nat \<Rightarrow> go_time) \<Rightarrow> ambient \<Rightarrow> envelope \<Rightarrow> string \<Rightarrow> int \<Rightarrow> bool \<Rightarrow> queue_db
   \<Rightarrow> (fault + schedule) \<times> queue_db" where
  "Service_SetSchedule g cal sv now a e sid expected enabled =
     guarded (now 0) e ''scheduling.write'' (own e ''schedule'' ''write'' sid) (\<lambda>s d.
       if enabled then
         (case ReadSchedule g cal s sid d of (Inl err, d) \<Rightarrow> (Inl err, d) | (Inr current, d) \<Rightarrow>
         (case admission g sv (\<lambda>n. now (Suc n)) e (srTarget (sdRequest current)) of Inl err \<Rightarrow> (Inl err, d) | Inr _ \<Rightarrow>
            SetSchedule g cal a s sid expected enabled d))
       else SetSchedule g cal a s sid expected enabled d)"

definition Service_Fire ::
  "golib \<Rightarrow> calendar \<Rightarrow> job_service \<Rightarrow> (nat \<Rightarrow> go_time) \<Rightarrow> int \<Rightarrow> ambient \<Rightarrow> envelope \<Rightarrow> string \<Rightarrow> string \<Rightarrow> queue_db
   \<Rightarrow> (fault + job) \<times> queue_db" where
  "Service_Fire g cal sv now fired a e sid key =
     guarded (now 0) e ''scheduling.execute'' (own e ''schedule'' ''execute'' sid) (\<lambda>s d.
       case ReadSchedule g cal s sid d of (Inl err, d) \<Rightarrow> (Inl err, d) | (Inr current, d) \<Rightarrow>
       (case admission g sv (\<lambda>n. now (Suc n)) e (srTarget (sdRequest current)) of Inl err \<Rightarrow> (Inl err, d) | Inr _ \<Rightarrow>
        if \<not> Identifier key then (Inl (FJobs JInvalid), d)
        else FireSchedule g cal a fired s (envSession e) sid key (sdRevision current) (svLimits sv) d))"

definition Service_RetireSchedule ::
  "golib \<Rightarrow> calendar \<Rightarrow> go_time \<Rightarrow> ambient \<Rightarrow> envelope \<Rightarrow> string \<Rightarrow> int \<Rightarrow> queue_db \<Rightarrow> (fault + schedule) \<times> queue_db" where
  "Service_RetireSchedule g cal now a e sid expected d =
     (if \<not> Identifier sid \<or> expected < 1 \<or> expected \<ge> 2 ^ 62 then (Inl (FJobs JInvalid), d)
      else guarded now e ''scheduling.write'' (own e ''schedule'' ''write'' sid) (\<lambda>s. RetireSchedule g cal a s sid expected) d)"

definition Service_History ::
  "golib \<Rightarrow> calendar \<Rightarrow> go_time \<Rightarrow> envelope \<Rightarrow> string \<Rightarrow> history_request \<Rightarrow> queue_db \<Rightarrow> (fault + schedule_history) \<times> queue_db" where
  "Service_History g cal now e sid r d =
     (if \<not> Identifier sid \<or> \<not> HistoryRequest_Valid r then (Inl (FJobs JInvalid), d)
      else guarded now e ''scheduling.read'' (own e ''schedule'' ''read'' sid) (\<lambda>s. ScheduleHistory g cal s sid r) d)"

definition Service_TestSchedule ::
  "golib \<Rightarrow> calendar \<Rightarrow> job_service \<Rightarrow> (nat \<Rightarrow> go_time) \<Rightarrow> int \<Rightarrow> ambient \<Rightarrow> envelope \<Rightarrow> string \<Rightarrow> string \<Rightarrow> int \<Rightarrow> queue_db
   \<Rightarrow> (fault + job) \<times> queue_db" where
  "Service_TestSchedule g cal sv now fired a e sid key expected d =
     (if \<not> Identifier sid \<or> \<not> Identifier key \<or> expected < 1 \<or> expected \<ge> 2 ^ 62 then (Inl (FJobs JInvalid), d)
      else guarded (now 0) e ''scheduling.execute'' (own e ''schedule'' ''execute'' sid) (\<lambda>s d.
        case ReadSchedule g cal s sid d of (Inl err, d) \<Rightarrow> (Inl err, d) | (Inr current, d) \<Rightarrow>
        if sdRevision current \<noteq> expected \<or> sdRetired current \<or> \<not> sdEnabled current then (Inl (FStore StoreErrConflict), d)
        else (case admission g sv (\<lambda>n. now (Suc n)) e (srTarget (sdRequest current)) of Inl err \<Rightarrow> (Inl err, d) | Inr _ \<Rightarrow>
          FireSchedule g cal a fired s (envSession e) sid key expected (svLimits sv) d)) d)"

definition Service_ReplaceSchedule ::
  "golib \<Rightarrow> calendar \<Rightarrow> job_service \<Rightarrow> (nat \<Rightarrow> go_time) \<Rightarrow> ambient \<Rightarrow> envelope \<Rightarrow> string \<Rightarrow> int \<Rightarrow> string \<Rightarrow> schedule_request \<Rightarrow> queue_db
   \<Rightarrow> (fault + schedule) \<times> queue_db" where
  "Service_ReplaceSchedule g cal sv now a e sid expected key r d =
     (if \<not> Identifier sid \<or> \<not> Identifier key \<or> expected < 1 \<or> expected \<ge> 2 ^ 62 \<or> \<not> is_ok (ScheduleRequest_Validate g cal r)
      then (Inl (FJobs JInvalid), d)
      else case lift_access (Require (now 0) e ''scheduling.write'' [own e ''schedule'' ''write'' sid]) of Inl err \<Rightarrow> (Inl err, d) | Inr _ \<Rightarrow>
        (case admission g sv (\<lambda>n. now (Suc n)) e (srTarget r) of Inl err \<Rightarrow> (Inl err, d) | Inr s \<Rightarrow>
         ReplaceSchedule g cal a s (envSession e) sid expected key r (svLimits sv) d))"
subsection \<open>Tenants apart\<close>

text \<open>The rows of all other tenants. Only the limits of the queue are shared between tenants.\<close>

definition others :: "('r \<Rightarrow> string) \<Rightarrow> string \<Rightarrow> 'r list \<Rightarrow> 'r list" where
  "others owner tenant rows = filter (\<lambda>r. owner r \<noteq> tenant) rows"

definition apart_ledger :: "string \<Rightarrow> database \<Rightarrow> database \<Rightarrow> bool" where
  "apart_ledger tenant l l' \<longleftrightarrow> others opTenant tenant (dbOps l') = others opTenant tenant (dbOps l) \<and>
     others atTenant tenant (dbAttempts l') = others atTenant tenant (dbAttempts l) \<and>
     others auTenant tenant (dbAudits l') = others auTenant tenant (dbAudits l) \<and>
     dbPolicies l' = dbPolicies l \<and> dbRevisions l' = dbRevisions l"

definition apart :: "string \<Rightarrow> queue_db \<Rightarrow> queue_db \<Rightarrow> bool" where
  "apart tenant d d' \<longleftrightarrow> apart_ledger tenant (qLedger d) (qLedger d') \<and>
     others jcTenant tenant (qColumns d') = others jcTenant tenant (qColumns d) \<and>
     others dvTenant tenant (qDeliveries d') = others dvTenant tenant (qDeliveries d) \<and>
     others shTenant tenant (qSchedules d') = others shTenant tenant (qSchedules d) \<and>
     others hrTenant tenant (qHistory d') = others hrTenant tenant (qHistory d) \<and>
     others ocTenant tenant (qOccurrences d') = others ocTenant tenant (qOccurrences d) \<and>
     others amTenant tenant (qAdmissions d') = others amTenant tenant (qAdmissions d) \<and>
     qPipelines d' = qPipelines d \<and> qReports d' = qReports d \<and> qRoutes d' = qRoutes d \<and> qCutovers d' = qCutovers d \<and> qBundles d' = qBundles d"

lemma others_append [simp]: "owner r = tenant \<Longrightarrow> others owner tenant (rows @ [r]) = others owner tenant rows"
  by (simp add: others_def)

lemma others_update: "(\<And>r. p r \<Longrightarrow> owner r = tenant \<and> owner (f r) = tenant) \<Longrightarrow> others owner tenant (update_where p f rows) = others owner tenant rows"
  by (induction rows) (auto simp: others_def update_where_def)

lemma apart_refl [simp]: "apart tenant d d" "apart_ledger tenant l l"
  by (simp_all add: apart_def apart_ledger_def)

lemma apart_trans: "apart tenant a b \<Longrightarrow> apart tenant b c \<Longrightarrow> apart tenant a c"
  by (simp add: apart_def apart_ledger_def)

lemma apart_tx: "(\<And>x d'. tx d = Inr (x, d') \<Longrightarrow> apart tenant d d') \<Longrightarrow> apart tenant d (snd (q_transaction tx d))"
  by (auto simp: q_transaction_def split: sum.splits prod.splits)

lemma queueLock_apart: "queueLock g l d = Inr d' \<Longrightarrow> apart tenant d d'"
  by (auto simp: queueLock_def Let_def apart_def split: option.splits if_splits)

lemma auditJob_apart: "auditJob event now s action ident d = Inr d' \<Longrightarrow> apart (scopeTenant s) d d'"
  by (auto simp: auditJob_def insert_audit_def apart_def apart_ledger_def split: sum.splits if_splits)

lemma insert_job_apart: "insert_job now hours key hash m i j d = Inr d' \<Longrightarrow> apart (jobTenant j) d d'"
  by (auto simp: insert_job_def apart_def apart_ledger_def job_row_def columns_row_def split: if_splits)

lemma insertReportingDelivery_apart: "insertReportingDelivery j d = Inr d' \<Longrightarrow> apart (jobTenant j) d d'"
  by (auto simp: insertReportingDelivery_def apart_def apart_ledger_def Let_def split: option.splits if_splits)

lemma seal_job_tenant: "seal_job g resolve request j = Inr j' \<Longrightarrow> jobTenant j' = jobTenant j"
  by (auto simp: seal_job_def seal_def Let_def split: option.splits sum.splits if_splits)

lemma admit_new_apart:
  assumes "admit_new g a s session key request l due start sid srev d = Inr (j, d')"
  shows "apart (scopeTenant s) d d'"
proof -
  from assms obtain rv m i d1 d2 where j: "seal_job g (resolver a) request (base_job (newID a) s session request l due start sid srev rv) = Inr j"
    and d: "insert_job (clock a) (rvOperationHours rv) (client_key g s key) (request_hash g request l sid srev) m i j d = Inr d1"
      "insertReportingDelivery j d1 = Inr d2" "auditJob (eventID a) (clock a) s ''job.accepted'' (jobID j) d2 = Inr d'"
    by (auto simp: admit_new_def split: sum.splits option.splits prod.splits)
  have "jobTenant j = scopeTenant s" using seal_job_tenant [OF j] by (simp add: base_job_def)
  with insert_job_apart [OF d(1)] insertReportingDelivery_apart [OF d(2)] auditJob_apart [OF d(3)] show ?thesis
    by (auto intro: apart_trans)
qed

lemma admitJob_apart: "admitJob g a s session key request l due start sid srev d = Inr (j, d') \<Longrightarrow> apart (scopeTenant s) d d'"
  by (auto simp: admitJob_def admit_new_apart split: option.splits sum.splits if_splits)

lemma AdmitJob_apart: "apart (scopeTenant s) d (snd (AdmitJob g a s session key request l d))"
  by (auto simp: AdmitJob_def intro!: apart_tx elim!: apart_trans [OF queueLock_apart] admitJob_apart split: sum.splits)

lemma CancelJob_apart: "apart (scopeTenant s) d (snd (CancelJob g a s ident d))"
proof -
  let ?led = "\<lambda>d. (qLedger d)\<lparr>dbAttempts := close_attempts (of_op (scopeTenant s) ident) AttemptCancelled ''cancelled'' (clock a) (dbAttempts (qLedger d)),
     dbOps := update_where (named (scopeTenant s) ident) (\<lambda>r. r\<lparr>opStatus := Cancelled, opError := ''cancelled'',
       opFinished := Some (clock a), opOwner := None, opUntil := None\<rparr>) (q_ops d)\<rparr>"
  have "apart (scopeTenant s) d (d\<lparr>qLedger := ?led d\<rparr>)" for d
    unfolding apart_def apart_ledger_def by (auto simp: close_attempts_def named_def of_op_def intro!: others_update)
  note cancelled = apart_trans [OF this auditJob_apart]
  show ?thesis unfolding CancelJob_def
    by (auto simp: Let_def elim!: cancelled intro!: apart_tx split: option.split_asm sum.split_asm if_split_asm)
qed

lemma record_history_apart: "record_history now sh d = Inr d' \<Longrightarrow> apart (shTenant sh) d d'"
  by (auto simp: record_history_def apart_def apart_ledger_def history_of_def split: if_splits)

lemma insert_schedule_apart:
  assumes "insert_schedule now sh d = Inr d'"
  shows "apart (shTenant sh) d d'"
proof -
  from assms have "record_history now sh (d\<lparr>qSchedules := qSchedules d @ [sh]\<rparr>) = Inr d'" by (simp add: insert_schedule_def split: if_splits)
  moreover have "apart (shTenant sh) d (d\<lparr>qSchedules := qSchedules d @ [sh]\<rparr>)" by (simp add: apart_def)
  ultimately show ?thesis by (blast intro: apart_trans record_history_apart)
qed

lemma update_schedule_apart:
  assumes "update_schedule now req tenant sid f d = Inr d'" and keep: "\<And>sh. shTenant (f sh) = shTenant sh"
  shows "apart tenant d d'"
proof (cases "find (schedule_named tenant sid) (qSchedules d)")
  case None
  with assms show ?thesis by (simp add: update_schedule_def)
next
  case (Some old)
  let ?d = "d\<lparr>qSchedules := update_where (schedule_named tenant sid) f (qSchedules d)\<rparr>"
  have "apart tenant d ?d" unfolding apart_def by (auto simp: schedule_named_def keep intro!: others_update)
  moreover have "?d = d' \<or> record_history now (f old) ?d = Inr d'"
    using assms(1) Some by (auto simp: update_schedule_def schedule_trigger_def split: if_splits)
  moreover have "shTenant (f old) = tenant" using Some by (auto simp: find_Some_iff schedule_named_def keep)
  ultimately show ?thesis using record_history_apart [of now "f old" ?d d'] by (auto intro: apart_trans)
qed

lemma createSchedule_apart: "apart (scopeTenant s) d (snd (createSchedule g cal a s session key r l enabled d))"
proof -
  have ins: "apart (scopeTenant s) d d'" if "insert_schedule now (schedule_insert_row key (new_schedule ident s session r p n enabled)) d = Inr d'"
    for now ident p n d d'
    using insert_schedule_apart [OF that] by (simp add: schedule_insert_row_def new_schedule_def)
  have "apart (scopeTenant s) d d'" if tx: "create_tx g cal a s session key r l enabled d = Inr (x, d')" for x d d'
  proof -
    from tx obtain d1 where lock: "queueLock g l d = Inr d1" by (cases "queueLock g l d") (simp_all add: create_tx_def)
    have "apart (scopeTenant s) d1 d'"
      using tx unfolding create_tx_def lock sum.case
      by (cases "find (\<lambda>sh. shTenant sh = scopeTenant s \<and> shCreator sh = scopeActor s \<and> shKey sh = key) (qSchedules d1)";
          cases "scheduleTimes cal (srSpec r) (1000 * clock a)")
         (auto simp: Let_def elim!: apart_trans [OF ins] auditJob_apart split: sum.split_asm if_split_asm)
    with queueLock_apart [OF lock] show ?thesis by (blast intro: apart_trans)
  qed
  then show ?thesis by (auto simp: createSchedule_def intro: apart_tx)
qed

lemma set_tx_apart: "set_tx g cal a s sid expected enabled d = Inr (x, d') \<Longrightarrow> apart (scopeTenant s) d d'"
  by (cases "the_schedule g cal (scopeTenant s) sid d")
     (auto simp: set_tx_def elim!: apart_trans [OF update_schedule_apart] auditJob_apart split: sum.split_asm if_split_asm)

lemma retire_tx_apart: "retire_tx g cal a s sid expected d = Inr (x, d') \<Longrightarrow> apart (scopeTenant s) d d'"
  by (cases "the_schedule g cal (scopeTenant s) sid d")
     (auto simp: retire_tx_def elim!: apart_trans [OF update_schedule_apart] auditJob_apart split: sum.split_asm if_split_asm)

lemma replace_tx_apart:
  assumes tx: "replace_tx g cal a s session sid expected key r l d = Inr (x, d')"
  shows "apart (scopeTenant s) d d'"
proof -
  from tx obtain d1 where lock: "queueLock g l d = Inr d1" by (cases "queueLock g l d") (simp_all add: replace_tx_def)
  have "apart (scopeTenant s) d1 d'" using tx unfolding replace_tx_def lock sum.case
    by (cases "the_schedule g cal (scopeTenant s) sid d1"; cases "scheduleTimes cal (srSpec r) (1000 * clock a)")
       (auto elim!: apart_trans [OF update_schedule_apart] auditJob_apart split: sum.split_asm if_split_asm)
  with queueLock_apart [OF lock] show ?thesis by (blast intro: apart_trans)
qed

lemma schedule_calls_apart:
  "apart (scopeTenant s) d (snd (SetSchedule g cal a s sid expected enabled d))"
  "apart (scopeTenant s) d (snd (RetireSchedule g cal a s sid expected d))"
  "apart (scopeTenant s) d (snd (ReplaceSchedule g cal a s session sid expected key r l d))"
  by (auto simp: SetSchedule_def RetireSchedule_def ReplaceSchedule_def intro: apart_tx set_tx_apart retire_tx_apart replace_tx_apart)

lemma the_schedule_tenant: "the_schedule g cal tenant sid d = Inr sc \<Longrightarrow> sdTenant sc = tenant \<and> sdID sc = sid"
  by (auto simp: the_schedule_def scanSchedule_def row_schedule_def find_Some_iff schedule_named_def split: option.splits if_splits)

lemma admitCutover_apart: "admitCutoverOccurrence sc due d = (allowed, d') \<Longrightarrow> apart (sdTenant sc) d d'"
  by (auto simp: admitCutoverOccurrence_def apart_def apart_ledger_def split: option.splits if_splits)

lemma queuedOccurrence_apart: "queuedOccurrence tenant sid due start opid d = Inr d' \<Longrightarrow> apart tenant d d'"
  by (auto simp: queuedOccurrence_def insert_occurrence_def apart_def apart_ledger_def split: if_splits)

lemma FireSchedule_apart: "apart (scopeTenant s) d (snd (FireSchedule g cal a now s session sid key expected l d))"
proof -
  have "apart (scopeTenant s) d d'" if "fire_tx g cal a now s session sid key expected l d = Inr (j, d')" for j d d'
  proof -
    from that obtain d1 where lock: "queueLock g l d = Inr d1" by (cases "queueLock g l d") (simp_all add: fire_tx_def)
    from that obtain sc where sc: "the_schedule g cal (scopeTenant s) sid d1 = Inr sc"
      by (cases "the_schedule g cal (scopeTenant s) sid d1") (simp_all add: fire_tx_def lock)
    from that obtain d2 d3 where "admitCutoverOccurrence sc (1000 * now) d1 = (True, d2)"
      and "admitJob g a s session (''manual:'' @ digestValue g (JArr [JStr sid, JStr key])) (srTarget (sdRequest sc)) l
             (1000 * now) (1000 * now) sid (sdRevision sc) d2 = Inr (j, d3)"
      and "queuedOccurrence (scopeTenant s) sid (jobDue j) (jobWindowStart j) (jobID j) d3 = Inr d'"
      unfolding fire_tx_def lock sc sum.case by (auto split: sum.split_asm if_split_asm prod.split_asm)
    with lock sc have "apart (scopeTenant s) d d1" "apart (scopeTenant s) d1 d2" "apart (scopeTenant s) d2 d3" "apart (scopeTenant s) d3 d'"
      using queueLock_apart the_schedule_tenant [OF sc] admitCutover_apart admitJob_apart queuedOccurrence_apart by metis+
    then show ?thesis by (blast intro: apart_trans)
  qed
  then show ?thesis by (auto simp: FireSchedule_def intro: apart_tx)
qed
subsection \<open>Calls\<close>

text \<open>
  The calls of a caller with a verified envelope, with the readings they use; reading calls are left out, they
  change nothing.
\<close>

datatype call =
    CallSubmit string submission
  | CallCancel string
  | CallCreate string schedule_request
  | CallImport string schedule_request
  | CallSet string int bool
  | CallFire string string
  | CallTest string string int
  | CallReplace string int string schedule_request
  | CallRetire string int

inductive service_step ::
  "golib \<Rightarrow> calendar \<Rightarrow> job_service \<Rightarrow> envelope \<Rightarrow> (nat \<Rightarrow> go_time) \<Rightarrow> call \<Rightarrow> int \<times> queue_db \<Rightarrow> int \<times> queue_db \<Rightarrow> bool"
  for g cal sv e now where
  submit: "t \<le> clock a \<Longrightarrow> service_step g cal sv e now (CallSubmit key r) (t, d) (clock a, snd (Service_Submit g sv now a e key r d))"
| cancel: "t \<le> clock a \<Longrightarrow> service_step g cal sv e now (CallCancel ident) (t, d) (clock a, snd (Service_Cancel g (now 0) a e ident d))"
| create: "t \<le> clock a \<Longrightarrow>
    service_step g cal sv e now (CallCreate key sr) (t, d) (clock a, snd (Service_CreateSchedule g cal sv now a e key sr d))"
| import_one: "t \<le> clock a \<Longrightarrow>
    service_step g cal sv e now (CallImport key sr) (t, d) (clock a, snd (Service_CreateImportedSchedule g cal sv now a e key sr d))"
| set_enabled: "t \<le> clock a \<Longrightarrow>
    service_step g cal sv e now (CallSet sid n b) (t, d) (clock a, snd (Service_SetSchedule g cal sv now a e sid n b d))"
| fire: "t \<le> fired \<Longrightarrow> fired \<le> clock a \<Longrightarrow>
    service_step g cal sv e now (CallFire sid key) (t, d) (clock a, snd (Service_Fire g cal sv now fired a e sid key d))"
| test: "t \<le> fired \<Longrightarrow> fired \<le> clock a \<Longrightarrow>
    service_step g cal sv e now (CallTest sid key n) (t, d) (clock a, snd (Service_TestSchedule g cal sv now fired a e sid key n d))"
| replace: "t \<le> clock a \<Longrightarrow>
    service_step g cal sv e now (CallReplace sid n key sr) (t, d) (clock a, snd (Service_ReplaceSchedule g cal sv now a e sid n key sr d))"
| retire: "t \<le> clock a \<Longrightarrow>
    service_step g cal sv e now (CallRetire sid n) (t, d) (clock a, snd (Service_RetireSchedule g cal (now 0) a e sid n d))"

text \<open>
  What a call asks of the envelope, as action and resources at a reading of the clock. A call that admits work,
  or resumes a schedule that will, also asks for the binding of the target, which for a stored schedule is the stored one.
\<close>

type_synonym demand = "nat \<times> string \<times> resource list"

definition admits :: "envelope \<Rightarrow> nat \<Rightarrow> submission \<Rightarrow> demand" where
  "admits e n r = (n, ''scheduling.write'', [Tenant e ''write'', own e ''execution_binding'' ''use'' (subBinding r)])"

definition stored_target :: "envelope \<Rightarrow> string \<Rightarrow> queue_db \<Rightarrow> demand list" where
  "stored_target e sid d =
     (case find (schedule_named (envTenant e) sid) (qSchedules d) of None \<Rightarrow> [] | Some sh \<Rightarrow> [admits e 1 (srTarget (shRequest sh))])"

fun demands :: "envelope \<Rightarrow> queue_db \<Rightarrow> call \<Rightarrow> demand list" where
  "demands e d (CallSubmit key r) = [admits e 0 r]"
| "demands e d (CallCancel ident) = [(0, ''scheduling.cancel'', [own e ''run'' ''write'' ident])]"
| "demands e d (CallCreate key sr) = [admits e 0 (srTarget sr)]"
| "demands e d (CallImport key sr) = [admits e 0 (srTarget sr)]"
| "demands e d (CallSet sid n b) = (0, ''scheduling.write'', [own e ''schedule'' ''write'' sid]) # (if b then stored_target e sid d else [])"
| "demands e d (CallFire sid key) = (0, ''scheduling.execute'', [own e ''schedule'' ''execute'' sid]) # stored_target e sid d"
| "demands e d (CallTest sid key n) = (0, ''scheduling.execute'', [own e ''schedule'' ''execute'' sid]) # stored_target e sid d"
| "demands e d (CallReplace sid n key sr) = [(0, ''scheduling.write'', [own e ''schedule'' ''write'' sid]), admits e 1 (srTarget sr)]"
| "demands e d (CallRetire sid n) = [(0, ''scheduling.write'', [own e ''schedule'' ''write'' sid])]"

fun admitting :: "call \<Rightarrow> bool" where
  "admitting (CallCancel ident) = False"
| "admitting (CallRetire sid n) = False"
| "admitting (CallSet sid n b) = b"
| "admitting _ = True"

definition granted :: "(nat \<Rightarrow> go_time) \<Rightarrow> envelope \<Rightarrow> demand \<Rightarrow> bool" where
  "granted now e = (\<lambda>(n, action, rs). Require (now n) e action rs = Inr ())"

text \<open>A call is sound when it is refused, or was granted and did one step of the store for the caller's tenant.\<close>

definition sound ::
  "golib \<Rightarrow> calendar \<Rightarrow> job_service \<Rightarrow> envelope \<Rightarrow> (nat \<Rightarrow> go_time) \<Rightarrow> call \<Rightarrow> int \<times> queue_db \<Rightarrow> int \<times> queue_db \<Rightarrow> bool" where
  "sound g cal sv e now c st st' \<longleftrightarrow> system_step g cal st st' \<and> apart (envTenant e) (snd st) (snd st') \<and>
     (snd st' \<noteq> snd st \<longrightarrow> list_all (granted now e) (demands e (snd st) c) \<and> (admitting c \<longrightarrow> svDispatch sv))"

lemma refused: "t \<le> t' \<Longrightarrow> sound g cal sv e now c (t, d) (t', d)"
  by (simp add: sound_def system_step.queue queue_step.pass)

lemma scope_of_Inr: "scope_of e = Inr s \<Longrightarrow> scopeTenant s = envTenant e"
  by (auto simp: scope_of_def NewScope_def split: if_splits)

lemma admission_Inr:
  assumes "admission g sv now e r = Inr s"
  shows "svDispatch sv" "Require (now 0) e ''scheduling.write'' [Tenant e ''write'', own e ''execution_binding'' ''use'' (subBinding r)] = Inr ()"
    "scopeTenant s = envTenant e"
  using assms scope_of_Inr [of e s]
  by (auto simp: admission_def maintenance_scope_def StoreScope_def NewScope_def lift_access_def split: if_split_asm sum.split_asm option.split_asm)

lemma admission_granted: "admission g sv (\<lambda>k. now (n + k)) e r = Inr s \<Longrightarrow> granted now e (admits e n r)"
  using admission_Inr(2) [of g sv "\<lambda>k. now (n + k)" e r s] by (simp add: granted_def admits_def)

lemma guarded_cases:
  obtains (no) "snd (guarded now e action r fn d) = d"
    | (yes) s where "Require now e action [r] = Inr ()" "scope_of e = Inr s" "guarded now e action r fn d = fn s d"
  by (cases "Require now e action [r]"; cases "scope_of e") (auto simp: guarded_def lift_access_def)

lemma ReadSchedule_cases:
  obtains (no) err where "ReadSchedule g cal s sid d = (Inl err, d)"
    | (yes) sh current where "ReadSchedule g cal s sid d = (Inr current, d)" "find (schedule_named (scopeTenant s) sid) (qSchedules d) = Some sh"
      "sdRequest current = shRequest sh"
proof (cases "the_schedule g cal (scopeTenant s) sid d")
  case (Inl err)
  then show ?thesis using no by (cases "Scope_Valid s \<and> Identifier sid") (auto simp: ReadSchedule_def q_transaction_def)
next
  case (Inr current)
  then obtain sh where "find (schedule_named (scopeTenant s) sid) (qSchedules d) = Some sh" "sdRequest current = shRequest sh"
    by (auto simp: the_schedule_def scanSchedule_def row_schedule_def split: option.split_asm if_split_asm)
  then show ?thesis using Inr no yes by (cases "Scope_Valid s \<and> Identifier sid") (auto simp: ReadSchedule_def q_transaction_def)
qed

text \<open>The two shapes of a call: on one resource, with the stored target checked again where it is asked for.\<close>

lemma guarded_sound:
  assumes "demands e d c = [(0, action, [r])]" "\<not> admitting c" "t \<le> t'"
    and "\<And>s. scopeTenant s = envTenant e \<Longrightarrow> system_step g cal (t, d) (t', snd (fn s d)) \<and> apart (envTenant e) d (snd (fn s d))"
  shows "sound g cal sv e now c (t, d) (t', snd (guarded (now 0) e action r fn d))"
proof (cases rule: guarded_cases [of "now 0" e action r fn d])
  case no
  then show ?thesis by (simp add: refused assms(3))
next
  case (yes s)
  with assms(4) [OF scope_of_Inr [OF yes(2)]] assms(1,2) show ?thesis by (simp add: sound_def granted_def)
qed

lemma admitted_sound:
  assumes "demands e d c = ds @ [admits e n r]" "list_all (granted now e) ds" "t \<le> t'"
    and "\<And>s. scopeTenant s = envTenant e \<Longrightarrow> system_step g cal (t, d) (t', snd (fn s)) \<and> apart (envTenant e) d (snd (fn s))"
  shows "sound g cal sv e now c (t, d) (t', snd (case admission g sv (\<lambda>k. now (n + k)) e r of Inl err \<Rightarrow> (Inl err, d) | Inr s \<Rightarrow> fn s))"
proof (cases "admission g sv (\<lambda>k. now (n + k)) e r")
  case (Inr s)
  with assms(4) [OF admission_Inr(3) [OF Inr]] admission_Inr(1) [OF Inr] admission_granted [OF Inr] assms(1,2) show ?thesis
    by (simp add: sound_def)
qed (simp add: refused assms(3))

lemma read_sound:
  assumes "t \<le> t'"
    and "\<And>s current. scopeTenant s = envTenant e \<Longrightarrow> granted now e (0, action, [r]) \<Longrightarrow>
      stored_target e sid d = [admits e 1 (srTarget (sdRequest current))] \<Longrightarrow> sound g cal sv e now c (t, d) (t', snd (k s current d))"
  shows "sound g cal sv e now c (t, d) (t', snd (guarded (now 0) e action r (\<lambda>s d.
      case ReadSchedule g cal s sid d of (Inl err, d) \<Rightarrow> (Inl err, d) | (Inr current, d) \<Rightarrow> k s current d) d))"
proof (cases rule: guarded_cases [of "now 0" e action r "\<lambda>s d. case ReadSchedule g cal s sid d of
    (Inl err, d) \<Rightarrow> (Inl err, d) | (Inr current, d) \<Rightarrow> k s current d" d])
  case no
  then show ?thesis by (simp add: refused assms(1))
next
  case (yes s)
  note s = scope_of_Inr [OF yes(2)]
  show ?thesis
  proof (cases rule: ReadSchedule_cases [of g cal s sid d])
    case no
    with yes(3) show ?thesis by (simp add: refused assms(1))
  next
    case read: (yes sh current)
    then have "stored_target e sid d = [admits e 1 (srTarget (sdRequest current))]" by (simp add: stored_target_def s [symmetric])
    from assms(2) [OF s _ this] yes(1) yes(3) read(1) show ?thesis by (simp add: granted_def)
  qed
qed

lemma Set_sound:
  assumes "t \<le> clock a"
  shows "sound g cal sv e now (CallSet sid n b) (t, d) (clock a, snd (Service_SetSchedule g cal sv now a e sid n b d))"
proof (cases b)
  case True
  have set: "system_step g cal (t, d) (clock a, snd (SetSchedule g cal a s sid n True d)) \<and> apart (envTenant e) d (snd (SetSchedule g cal a s sid n True d))"
    if "scopeTenant s = envTenant e" for s
    using system_step.set_enabled [OF assms] schedule_calls_apart(1) [of s] that by auto
  have "sound g cal sv e now (CallSet sid n True) (t, d) (clock a, snd (Service_SetSchedule g cal sv now a e sid n True d))"
    unfolding Service_SetSchedule_def if_True
  proof (rule read_sound [OF assms])
    fix s :: store_scope and current :: schedule
    assume s: "scopeTenant s = envTenant e" and "granted now e (0, ''scheduling.write'', [own e ''schedule'' ''write'' sid])"
      and "stored_target e sid d = [admits e 1 (srTarget (sdRequest current))]"
    then show "sound g cal sv e now (CallSet sid n True) (t, d) (clock a,
        snd (case admission g sv (\<lambda>n. now (Suc n)) e (srTarget (sdRequest current)) of Inl err \<Rightarrow> (Inl err, d)
             | Inr _ \<Rightarrow> SetSchedule g cal a s sid n True d))"
      using admitted_sound [where n = 1 and fn = "\<lambda>_. SetSchedule g cal a s sid n True d", OF _ _ assms set [OF s]] by simp
  qed
  with True show ?thesis by simp
next
  case False
  show ?thesis unfolding Service_SetSchedule_def if_not_P [OF False]
    by (rule guarded_sound [OF _ _ assms])
       (use False system_step.set_enabled [OF assms] schedule_calls_apart(1) in \<open>auto simp: eq_commute [of "scopeTenant _"]\<close>)
qed

lemma fire_facts:
  assumes "t \<le> fired" "fired \<le> clock a" "scopeTenant s = envTenant e"
  shows "system_step g cal (t, d) (clock a, snd (FireSchedule g cal a fired s session sid key n l d)) \<and>
    apart (envTenant e) d (snd (FireSchedule g cal a fired s session sid key n l d))"
  using system_step.fire [OF assms(1,2)] FireSchedule_apart [of s] assms(3) by auto

lemma Fire_sound:
  assumes "t \<le> fired" "fired \<le> clock a"
  shows "sound g cal sv e now (CallFire sid key) (t, d) (clock a, snd (Service_Fire g cal sv now fired a e sid key d))"
  unfolding Service_Fire_def
proof (rule read_sound)
  show le: "t \<le> clock a" using assms by simp
  fix s :: store_scope and current :: schedule
  assume s: "scopeTenant s = envTenant e" and "granted now e (0, ''scheduling.execute'', [own e ''schedule'' ''execute'' sid])"
    and "stored_target e sid d = [admits e 1 (srTarget (sdRequest current))]"
  then show "sound g cal sv e now (CallFire sid key) (t, d) (clock a,
      snd (case admission g sv (\<lambda>n. now (Suc n)) e (srTarget (sdRequest current)) of Inl err \<Rightarrow> (Inl err, d)
           | Inr _ \<Rightarrow> if \<not> Identifier key then (Inl (FJobs JInvalid), d)
               else FireSchedule g cal a fired s (envSession e) sid key (sdRevision current) (svLimits sv) d))"
    using admitted_sound [where n = 1 and fn = "\<lambda>_. FireSchedule g cal a fired s (envSession e) sid key (sdRevision current) (svLimits sv) d",
        OF _ _ le fire_facts [OF assms s]]
    by (cases "Identifier key") (simp_all add: refused le split: sum.split)
qed

lemma Test_sound:
  assumes "t \<le> fired" "fired \<le> clock a"
  shows "sound g cal sv e now (CallTest sid key n) (t, d) (clock a, snd (Service_TestSchedule g cal sv now fired a e sid key n d))"
proof (cases "\<not> Identifier sid \<or> \<not> Identifier key \<or> n < 1 \<or> n \<ge> 2 ^ 62")
  case True
  with assms show ?thesis unfolding Service_TestSchedule_def if_P [OF True] by (simp add: refused)
next
  case ok: False
  have le: "t \<le> clock a" using assms by simp
  show ?thesis unfolding Service_TestSchedule_def if_not_P [OF ok]
  proof (rule read_sound [OF le])
    fix s :: store_scope and current :: schedule
    assume s: "scopeTenant s = envTenant e" and "granted now e (0, ''scheduling.execute'', [own e ''schedule'' ''execute'' sid])"
      and "stored_target e sid d = [admits e 1 (srTarget (sdRequest current))]"
    then show "sound g cal sv e now (CallTest sid key n) (t, d) (clock a,
        snd (if sdRevision current \<noteq> n \<or> sdRetired current \<or> \<not> sdEnabled current then (Inl (FStore StoreErrConflict), d)
             else case admission g sv (\<lambda>n. now (Suc n)) e (srTarget (sdRequest current)) of Inl err \<Rightarrow> (Inl err, d)
               | Inr _ \<Rightarrow> FireSchedule g cal a fired s (envSession e) sid key n (svLimits sv) d))"
      using admitted_sound [where n = 1 and fn = "\<lambda>_. FireSchedule g cal a fired s (envSession e) sid key n (svLimits sv) d",
          OF _ _ le fire_facts [OF assms s]]
      by (simp add: refused le)
  qed
qed

lemma Submit_sound:
  assumes "t \<le> clock a"
  shows "sound g cal sv e now (CallSubmit key r) (t, d) (clock a, snd (Service_Submit g sv now a e key r d))"
proof (cases "Identifier key")
  case True
  have "system_step g cal (t, d) (clock a, snd (AdmitJob g a s (envSession e) key r (svLimits sv) d)) \<and>
      apart (envTenant e) d (snd (AdmitJob g a s (envSession e) key r (svLimits sv) d))" if "scopeTenant s = envTenant e" for s
    using system_step.queue [OF queue_step.admit [OF assms]] AdmitJob_apart [of s] that by auto
  from admitted_sound [where n = 0 and ds = "[]" and c = "CallSubmit key r" and r = r and sv = sv and now = now
      and fn = "\<lambda>s. AdmitJob g a s (envSession e) key r (svLimits sv) d", OF _ _ assms this] True
  show ?thesis by (simp add: Service_Submit_def cong: sum.case_cong)
qed (use assms in \<open>auto simp: Service_Submit_def refused split: sum.split\<close>)

lemma Create_sound:
  assumes "t \<le> clock a"
  shows "sound g cal sv e now (CallCreate key r) (t, d) (clock a, snd (Service_CreateSchedule g cal sv now a e key r d))"
    and "sound g cal sv e now (CallImport key r) (t, d) (clock a, snd (Service_CreateImportedSchedule g cal sv now a e key r d))"
proof -
  have c: "system_step g cal (t, d) (clock a, snd (createSchedule g cal a s (envSession e) key r (svLimits sv) b d)) \<and>
      apart (envTenant e) d (snd (createSchedule g cal a s (envSession e) key r (svLimits sv) b d))" if "scopeTenant s = envTenant e" for s b
    using system_step.create [OF assms] createSchedule_apart [of s] that by auto
  note a = admitted_sound [where n = 0 and ds = "[]" and r = "srTarget r" and sv = sv and now = now, OF _ _ assms c]
  show "sound g cal sv e now (CallCreate key r) (t, d) (clock a, snd (Service_CreateSchedule g cal sv now a e key r d))"
    using a [of "CallCreate key r" "\<lambda>s. s" "\<lambda>_. True"] by (simp add: Service_CreateSchedule_def CreateSchedule_def refused assms cong: sum.case_cong)
  show "sound g cal sv e now (CallImport key r) (t, d) (clock a, snd (Service_CreateImportedSchedule g cal sv now a e key r d))"
    using a [of "CallImport key r" "\<lambda>s. s" "\<lambda>_. False"] by (simp add: Service_CreateImportedSchedule_def CreateImportedSchedule_def refused assms cong: sum.case_cong)
qed

lemma Replace_sound:
  assumes "t \<le> clock a"
  shows "sound g cal sv e now (CallReplace sid n key r) (t, d) (clock a, snd (Service_ReplaceSchedule g cal sv now a e sid n key r d))"
proof (cases "Require (now 0) e ''scheduling.write'' [own e ''schedule'' ''write'' sid]")
  case (Inr u)
  have "system_step g cal (t, d) (clock a, snd (ReplaceSchedule g cal a s (envSession e) sid n key r (svLimits sv) d)) \<and>
      apart (envTenant e) d (snd (ReplaceSchedule g cal a s (envSession e) sid n key r (svLimits sv) d))" if "scopeTenant s = envTenant e" for s
    using system_step.replace [OF assms] schedule_calls_apart(3) [of s] that by auto
  from admitted_sound [where n = 1 and ds = "[(0, ''scheduling.write'', [own e ''schedule'' ''write'' sid])]" and r = "srTarget r"
      and c = "CallReplace sid n key r" and sv = sv and now = now
      and fn = "\<lambda>s. ReplaceSchedule g cal a s (envSession e) sid n key r (svLimits sv) d", OF _ _ assms this] Inr
  show ?thesis by (simp add: Service_ReplaceSchedule_def refused assms lift_access_def granted_def)
qed (use assms in \<open>simp add: Service_ReplaceSchedule_def lift_access_def refused\<close>)

lemma Cancel_sound:
  assumes "t \<le> clock a"
  shows "sound g cal sv e now (CallCancel ident) (t, d) (clock a, snd (Service_Cancel g (now 0) a e ident d))"
  unfolding Service_Cancel_def
  by (rule guarded_sound [OF _ _ assms])
     (use system_step.queue [OF queue_step.cancel [OF assms]] CancelJob_apart in \<open>auto simp: eq_commute [of "scopeTenant _"]\<close>)

lemma Retire_sound:
  assumes "t \<le> clock a"
  shows "sound g cal sv e now (CallRetire sid n) (t, d) (clock a, snd (Service_RetireSchedule g cal (now 0) a e sid n d))"
proof -
  have "sound g cal sv e now (CallRetire sid n) (t, d) (clock a, snd (guarded (now 0) e ''scheduling.write'' (own e ''schedule'' ''write'' sid)
      (\<lambda>s. RetireSchedule g cal a s sid n) d))"
    by (rule guarded_sound [OF _ _ assms])
       (use system_step.retire [OF assms] schedule_calls_apart(2) in \<open>auto simp: eq_commute [of "scopeTenant _"]\<close>)
  then show ?thesis by (simp add: Service_RetireSchedule_def refused assms)
qed

lemma service_step_sound: "service_step g cal sv e now c st st' \<Longrightarrow> sound g cal sv e now c st st'"
  by (induction rule: service_step.induct)
     (simp_all add: Submit_sound Cancel_sound Create_sound Set_sound Fire_sound Test_sound Replace_sound Retire_sound)

text \<open>Runs of calls by any callers are runs of the store, so its limits and its versions of schedules are kept.\<close>

definition served :: "golib \<Rightarrow> calendar \<Rightarrow> job_service \<Rightarrow> int \<times> queue_db \<Rightarrow> int \<times> queue_db \<Rightarrow> bool" where
  "served g cal sv st st' \<longleftrightarrow> (\<exists>e now c. service_step g cal sv e now c st st')"

lemma served_step: "served g cal sv st st' \<Longrightarrow> system_step g cal st st'"
  unfolding served_def by (blast dest: service_step_sound [unfolded sound_def])

interpretation served_run: simulation_run "served g cal sv" "\<lambda>_. True" "system_step g cal" "\<lambda>st. st" for g cal sv
  by unfold_locales (auto dest: served_step)

lemma served_limits:
  assumes "(served g cal sv)\<^sup>*\<^sup>* st st'" "collision_free g l" "controlled g l st"
  shows "controlled g l st'"
  using system_run.run_keeps [OF served_run.simulated.run_rel [OF assms(1) TrueI]] assms(2,3) by blast

lemma served_versions:
  assumes "(served g cal sv)\<^sup>*\<^sup>* st st'" "history_ok (snd st)"
  shows "history_ok (snd st')"
  by (rule versioned_run.run_keeps [OF served_run.simulated.run_rel [OF assms(1) TrueI] assms(2)])

definition ana_scopes :: "string list" where
  "ana_scopes = [''scheduling.write'', ''ops.maintain'', ''cw.tenant.write:acme'', ''cw.tenant.erase:acme'', ''cw.execution_binding.use:nightly'']"

definition ana_envelope :: envelope where
  "ana_envelope = (case FromVerified 0 ''acme'' ''ana'' ''s1'' ana_scopes 100 of Inl _ \<Rightarrow> zero_envelope | Inr e \<Rightarrow> e)"

definition sweep_service :: job_service where
  "sweep_service = \<lparr>svDispatch = True, svPipeline = None, svReporting = None, svLimits = Defaults\<rparr>"

definition submitted :: "(fault + job) \<times> queue_db" where
  "submitted = Service_Submit queue_lib sweep_service (\<lambda>_. 5) sample_ambient ana_envelope ''k1'' sweep_submission configured_queue"


subsection \<open>One attempt of a worker\<close>

text \<open>
  An error is the list of the errors joined in it, and \<^verbatim>\<open>errors.Is\<close> finds one of them. Where the code of an attempt
  calls other packages (the broker of execution authority and the consumers of pipelines and reports) the
  results are readings of the attempt, as are the beats of the heart that come before the effect. The heart stops
  at a refused beat and cancels the work.
\<close>

datatype leaf = Fault fault | ErrReportingBudget | ErrReportingAttention | DeadlineExceeded | Canceled | Unclassified

type_synonym joined = "leaf list"

record attempt =
  wkOwner :: string
  wkClaim :: "int \<times> int"
  wkLocked :: "string \<times> string \<Rightarrow> bool"
  wkLockedAttempts :: "string \<times> string \<times> int \<Rightarrow> bool"
  wkBeats :: "int list"
  wkAcquire :: "job \<Rightarrow> joined + exec_proof"
  wkAssert :: go_time
  wkPipeline :: "job_lease \<Rightarrow> exec_proof \<Rightarrow> queue_db \<Rightarrow> (joined + unit) \<times> queue_db"
  wkReporting :: "job_lease \<Rightarrow> exec_proof \<Rightarrow> queue_db \<Rightarrow> (joined + unit) \<times> queue_db"
  wkEvent :: string
  wkDone :: "int \<times> int \<times> int"
  wkLockedAudits :: "string \<Rightarrow> bool"
  wkLockedOps :: "string \<Rightarrow> bool"
  wkLockedBundles :: "string \<times> string \<times> string \<times> string \<Rightarrow> bool"
  wkShutdown :: bool
  wkFinish :: "int \<times> int"

fun heartbeats :: "golib \<Rightarrow> limits \<Rightarrow> job_lease \<Rightarrow> int list \<Rightarrow> queue_db \<Rightarrow> bool \<times> queue_db" where
  "heartbeats g l lease [] d = (True, d)"
| "heartbeats g l lease (t # ts) d =
     (case HeartbeatJob g t lease (LeaseTime l) d of (Inl _, d) \<Rightarrow> (False, d) | (Inr _, d) \<Rightarrow> heartbeats g l lease ts d)"

definition run_effect :: "golib \<Rightarrow> job_service \<Rightarrow> attempt \<Rightarrow> bool \<Rightarrow> job_lease \<Rightarrow> exec_proof \<Rightarrow> queue_db \<Rightarrow> (joined + unit) \<times> queue_db" where
  "run_effect g sv w alive lease proof d =
     (if jobKind (jlJob lease) = ''pipeline.run'' then
        (if Option.is_none (svPipeline sv) then (Inl [Fault (FJobs JAuthority)], d) else wkPipeline w lease proof d)
      else if jobKind (jlJob lease) = ''reporting.scheduled'' then
        (if Option.is_none (svReporting sv) then (Inl [Fault (FJobs JAuthority)], d) else wkReporting w lease proof d)
      else if \<not> alive then (Inl [Canceled], d)
      else (case wkDone w of (now0, now1, now2) \<Rightarrow>
        (case CompleteJob g (wkEvent w) now0 now1 now2 (wkLockedAudits w) (wkLockedOps w) (wkLockedBundles w) lease proof d of
           (Inl err, d) \<Rightarrow> (Inl [Fault err], d) | (Inr _, d) \<Rightarrow> (Inr (), d))))"

definition work :: "golib \<Rightarrow> job_service \<Rightarrow> attempt \<Rightarrow> bool \<Rightarrow> job_lease \<Rightarrow> queue_db \<Rightarrow> (joined + unit) \<times> queue_db" where
  "work g sv w alive lease d =
     (case wkAcquire w (jlJob lease) of Inl err \<Rightarrow> (Inl err, d) | Inr proof \<Rightarrow>
     (case AssertExecution g (wkAssert w) proof (jlJob lease) of Inl err \<Rightarrow> (Inl [Fault (FJobs err)], d) | Inr _ \<Rightarrow>
      run_effect g sv w alive lease proof d))"

definition attempt_code :: "joined \<Rightarrow> string \<times> bool" where
  "attempt_code err =
     (if ErrReportingBudget \<in> set err then (''reporting_budget'', True)
      else if ErrReportingAttention \<in> set err then (''reporting_attention'', True)
      else if Fault (FJobs JAuthority) \<in> set err then (''authority_blocked'', True)
      else if Fault (FStore StoreErrConflict) \<in> set err then (''definition_changed'', True)
      else if DeadlineExceeded \<in> set err \<or> Canceled \<in> set err then (''attempt_timeout'', False)
      else (''attempt_failed'', False))"

definition retry_delay :: "limits \<Rightarrow> int \<Rightarrow> int" where
  "retry_delay l n = (let delay = Backoff l * 2 ^ nat (min (n - 1) 5) in if delay > 60 * second then 60 * second else delay)"

definition RunOnce :: "golib \<Rightarrow> job_service \<Rightarrow> attempt \<Rightarrow> queue_db \<Rightarrow> (joined + unit) \<times> queue_db" where
  "RunOnce g sv w d =
     (if \<not> svDispatch sv then (Inl [Fault (FJobs JTransient)], d)
      else case ClaimJob g (fst (wkClaim w)) (snd (wkClaim w)) (wkLocked w) (wkLockedAttempts w) (wkOwner w) (svLimits sv) d of
        (Inl err, d) \<Rightarrow> (Inl [Fault err], d)
      | (Inr lease, d) \<Rightarrow>
          (case heartbeats g (svLimits sv) lease (wkBeats w) d of (alive, d) \<Rightarrow>
          (case work g sv w alive lease d of
             (Inr _, d) \<Rightarrow> (Inr (), d)
           | (Inl err, d) \<Rightarrow>
               if wkShutdown w then (Inl [Canceled], d)
               else (case FinishAttempt g (fst (wkFinish w)) (snd (wkFinish w)) lease (fst (attempt_code err)) (snd (attempt_code err))
                       (retry_delay (svLimits sv) (jlAttempt lease)) d of
                       (Inl ferr, d) \<Rightarrow> (Inl [Fault ferr], d)
                     | (Inr _, d) \<Rightarrow> (Inl err, d)))))"

text \<open>The delay grows with the attempts up to a minute.\<close>

lemma retry_delay_range:
  assumes "Limits_Validate l = Inr ()"
  shows "0 < retry_delay l n" "retry_delay l n \<le> 60 * second"
  using assms by (auto simp: retry_delay_def Let_def Limits_Validate_def split: if_splits)

lemma retry_delay_mono: "0 \<le> Backoff l \<Longrightarrow> m \<le> n \<Longrightarrow> retry_delay l m \<le> retry_delay l n"
proof -
  assume "0 \<le> Backoff l" "m \<le> n"
  then have "Backoff l * 2 ^ nat (min (m - 1) 5) \<le> Backoff l * 2 ^ nat (min (n - 1) 5)"
    by (intro mult_left_mono power_increasing nat_mono) auto
  then show ?thesis by (auto simp: retry_delay_def Let_def)
qed

lemma attempt_code_known: "fst (attempt_code err) \<in> set attempt_codes"
  by (simp add: attempt_code_def attempt_codes_def)

lemma Job_Valid_running: "Job_Valid g (j\<lparr>jobAttempts := n, jobState := st\<rparr>) = Job_Valid g j"
proof -
  let ?j = "j\<lparr>jobAttempts := n, jobState := st\<rparr>"
  have "manifest_parts g ?j = manifest_parts g j" "ReportingInput g ?j = ReportingInput g j" "job_shape ?j = job_shape j"
    by (simp_all add: manifest_parts_def ReportingInput_def job_shape_def cong: option.case_cong)
  moreover from this(1) have "Job_Digest g ?j = Job_Digest g j" by (simp add: Job_Digest_def)
  ultimately show ?thesis by (simp add: Job_Valid_def cong: option.case_cong)
qed

lemma claimed_lease:
  assumes ok: "queue_ok d" and claim: "ClaimJob g now1 now2 skip skipA owner l d = (Inr lease, d1)"
  shows "Job_Valid g (jlJob lease)" "1 \<le> jlFence lease" "Identifier (jlOwner lease)" "Limits_Validate l = Inr ()"
proof -
  from claim have own: "Identifier owner" and lim: "is_ok (Limits_Validate l)" and tx: "claim_tx g now1 now2 skip skipA owner l d = Inr (Some lease, d1)"
    by (auto simp: ClaimJob_def q_transaction_def split: if_split_asm prod.split_asm sum.split_asm option.split_asm)
  from tx obtain d0 where lock: "queueLock g l d = Inr d0" by (cases "queueLock g l d") (simp_all add: claim_tx_def)
  let ?s = "tidied now1 skip skipA d0"
  have "queue_ok d0" using ok queueLock_Inr(4) [OF lock] by (force simp: queue_ok_def)
  from tidied_ok [OF this] have rows: "\<forall>r \<in> set (q_ops ?s). row_ok r" by (simp add: queue_ok_def)
  from tx obtain r j where j: "Job_Valid g j" "jlJob lease = j\<lparr>jobAttempts := jlAttempt lease, jobState := Running\<rparr>" "jlOwner lease = owner"
    and cl: "on_ledger (claimOperationLease now2 (jobTenant j) (jobID j) owner (LeaseTime l div millisecond)) ?s =
      Inr ((jlFence lease, jlAttempt lease, jlUntil lease div 1000), d1)"
    unfolding claim_tx_def lock sum.case Let_def tidied_def [symmetric]
    by (auto split: if_split_asm option.split_asm sum.split_asm prod.split_asm)
  show "Job_Valid g (jlJob lease)"
    using j(1) unfolding j(2) Job_Valid_running .
  from cl obtain r' where r': "find (dispatchable now2 (jobTenant j) (jobID j)) (q_ops ?s) = Some r'" "jlFence lease = opFence r' + 1"
    by (auto simp: on_ledger_Inr claimOperationLease_def insert_attempt_def Let_def split: option.split_asm if_split_asm)
  then have "r' \<in> set (q_ops ?s)" by (auto simp: find_Some_iff)
  with rows r'(2) show "1 \<le> jlFence lease" by (simp add: row_ok_def)
  show "Identifier (jlOwner lease)" using own j(3) by simp
  show "Limits_Validate l = Inr ()" using queueLock_Inr(1) [OF lock] .
qed

lemma AssertExecution_Inl: "AssertExecution g now proof j = Inl err \<Longrightarrow> err = JAuthority"
  unfolding AssertExecution_def Let_def by (simp split: if_split_asm)

lemma FinishAttempt_row:
  assumes "find (held now1 (queue_lease lease)) (q_ops d) = Some r"
    and "Job_Valid g (jlJob lease)" "1 \<le> jlFence lease" "Identifier (jlOwner lease)" "0 \<le> delay" "delay \<le> 60 * second" "err \<in> set attempt_codes"
  shows "\<exists>d'. FinishAttempt g now1 now2 lease err permanent delay d = (Inr (), d') \<and> (\<exists>r' \<in> set (q_ops d').
    op_pk r' = op_pk r \<and> opError r' = err \<and> opOwner r' = None \<and> opNextAttempt r' = now2 + delay div millisecond * 1000 \<and>
    opStatus r' = (if permanent then Blocked else if opAttempts r \<ge> opMaxAttempts r then Failed else Retry))"
proof -
  have r: "r \<in> set (q_ops d)" "held now1 (queue_lease lease) r" using assms(1) by (auto simp: find_Some_iff)
  define st where "st = (if permanent then Blocked else if opAttempts r \<ge> opMaxAttempts r then Failed else Retry)"
  let ?p = "\<lambda>r. named (olTenant (queue_lease lease)) (olOp (queue_lease lease)) r \<and> opOwner r = Some (olOwner (queue_lease lease)) \<and>
     opFence r = olFence (queue_lease lease)"
  let ?f = "\<lambda>x. x\<lparr>opStatus := st, opError := err, opOwner := None, opUntil := None,
     opFinished := (if st = Retry then None else Some now2), opNextAttempt := now2 + delay div millisecond * 1000\<rparr>"
  obtain led where "failOperationLease now1 now2 (queue_lease lease) err permanent (delay div millisecond) (qLedger d) = Inr ((), led)"
    and ops: "dbOps led = update_where ?p ?f (q_ops d)"
    unfolding failOperationLease_def assms(1) option.case Let_def st_def [symmetric] by simp
  then have "FinishAttempt g now1 now2 lease err permanent delay d = (Inr (), d\<lparr>qLedger := led\<rparr>)"
    using assms(2-) by (simp add: FinishAttempt_def q_transaction_def on_ledger_def)
  moreover have "?p r" using r(2) by (auto simp: held_def holds_def)
  then have new: "?f r \<in> set (q_ops (d\<lparr>qLedger := led\<rparr>))" using r(1) by (simp add: ops image_iff) blast
  have "\<exists>r' \<in> set (q_ops (d\<lparr>qLedger := led\<rparr>)). op_pk r' = op_pk r \<and> opError r' = err \<and> opOwner r' = None \<and>
      opNextAttempt r' = now2 + delay div millisecond * 1000 \<and> opStatus r' = st"
    by (rule bexI [OF _ new]) (simp add: op_pk_def)
  ultimately show ?thesis unfolding st_def by blast
qed

lemma FinishAttempt_stale:
  assumes "find (held now1 (queue_lease lease)) (q_ops d) = None"
    and "Job_Valid g (jlJob lease)" "1 \<le> jlFence lease" "Identifier (jlOwner lease)" "0 \<le> delay" "delay \<le> 60 * second" "err \<in> set attempt_codes"
  shows "FinishAttempt g now1 now2 lease err permanent delay d = (Inl (FStore StoreErrConflict), d)"
  using assms by (simp add: FinishAttempt_def q_transaction_def on_ledger_def failOperationLease_def)


definition refused_attempt :: attempt where
  "refused_attempt =
     \<lparr>wkOwner = ''w1'', wkClaim = (2000, 2001), wkLocked = \<lambda>_. False, wkLockedAttempts = \<lambda>_. False, wkBeats = [2500],
      wkAcquire = \<lambda>_. Inl [Fault (FJobs JAuthority)], wkAssert = 0, wkPipeline = \<lambda>_ _ d. (Inr (), d), wkReporting = \<lambda>_ _ d. (Inr (), d),
      wkEvent = ''ev2'', wkDone = (2600, 2601, 2602), wkLockedAudits = \<lambda>_. False, wkLockedOps = \<lambda>_. False, wkLockedBundles = \<lambda>_. False,
      wkShutdown = False, wkFinish = (3000, 3001)\<rparr>"


end
