(* ===== verification/Spec2Isabelle.thy ===== *)
theory Spec2Isabelle
  imports ChartSelect Service
begin

text \<open>
  Chartworks is a service for governed analytics: a caller's signed authority is verified and
  enforced, results are turned into exact chart specifications, and durable jobs are admitted, scheduled and executed
  under leases. This development models that core from the Go sources under \<^verbatim>\<open>src/internal\<close> and
  proves what makes it correct.

  \<^bold>\<open>Layout.\<close>
  \<^item> \<open>Prelude\<close>: results as sums (\<^term>\<open>Inl\<close> the error), folds that stop at the first error, strings as Go
    cuts and joins them, the loop of \<^verbatim>\<open>sort.Search\<close> with the contract of a monotone search.
  \<^item> \<open>Identity\<close>: \<^verbatim>\<open>identity/identity.go\<close> and the scopes of \<^verbatim>\<open>store/store.go\<close>: the grammar of
    identifiers and of signed reach, the construction of a verified envelope, its clock checks.
  \<^item> \<open>Access\<close>: \<^verbatim>\<open>access/access.go\<close>: action and resource enforcement, the pre-query selection with its
    binary search, execution and artifact rules (C1 to C3).
  \<^item> \<open>Decimal\<close>: \<^verbatim>\<open>charts/number.go\<close> and the exact arithmetic of \<^verbatim>\<open>charts/display_build.go\<close>: the
    bounded decimal reader, rounding to the nearest double, exact differences and percentages with their
    printed texts (C4, C5).
  \<^item> \<open>Text\<close>: UTF-8, case folding and the compact JSON encoding whose byte lengths bound every request.
  \<^item> \<open>ChartModel\<close>: the records of \<^verbatim>\<open>charts/model.go\<close> with their wire form and \<^verbatim>\<open>charts/validate.go\<close> (C6).
  \<^item> \<open>ChartMapping\<close>: \<^verbatim>\<open>charts/mapping.go\<close> and \<^verbatim>\<open>charts/rich_contract.go\<close>: catalog, binding, pinning,
    coordinate identity, shapes and rebinding (C7 to C10).
  \<^item> \<open>ChartBuild\<close>: \<^verbatim>\<open>charts/build.go\<close>, \<^verbatim>\<open>rich_build.go\<close>, \<^verbatim>\<open>display_build.go\<close> and \<^verbatim>\<open>source_rows.go\<close>:
    row order, totals, and the scalar, rich, hierarchy and display outputs (C11 to C17).
  \<^item> \<open>ChartSelect\<close>: \<^verbatim>\<open>charts/select.go\<close> and \<^verbatim>\<open>selection_intent.go\<close>: lexical intent, profile, candidate
    bindings with scores and the sealed ranking (C18).
  \<^item> \<open>Schedule\<close>: \<^verbatim>\<open>jobs/schedule.go\<close>: recurrence definitions and their neighbours (C21, C22).
  \<^item> \<open>Ledger\<close>: \<^verbatim>\<open>store/postgres/operations.go\<close>, \<^verbatim>\<open>operation_leases.go\<close>, the policies and audits of
    \<^verbatim>\<open>postgres.go\<close> and \<^verbatim>\<open>maintenance\<close>: transactions on table rows and the lease state machine
    (C23 to C28).
  \<^item> \<open>Jobs\<close>: \<^verbatim>\<open>jobs/jobs.go\<close>, the targets of \<^verbatim>\<open>pipeline_target.go\<close> and \<^verbatim>\<open>reporting_target.go\<close>, the tasks of
    \<^verbatim>\<open>requests.go\<close> and the execution proof of \<^verbatim>\<open>auth/execution.go\<close>: limits, submissions, sealed manifests and the
    authority under which an accepted effect acts (C29 to C33).
  \<^item> \<open>Queue\<close>: \<^verbatim>\<open>store/postgres/jobs.go\<close> and \<^verbatim>\<open>sweep.go\<close>, with the capacity views of the migrations: pinning of
    the limits, admission, listing, cancellation, claims, heartbeats, failures and completions (C34 to C37).
  \<^item> \<open>Occurrences\<close>: \<^verbatim>\<open>store/postgres/schedules.go\<close>, \<^verbatim>\<open>schedule_replace.go\<close>, \<^verbatim>\<open>schedule_lifecycle.go\<close> and the
    requests of \<^verbatim>\<open>jobs/schedule_lifecycle.go\<close>: the life of a schedule, manual firing, the bounded tick and the
    history kept by the triggers (C38 to C40).
  \<^item> \<open>Service\<close>: \<^verbatim>\<open>jobs/service.go\<close> with the calls of \<^verbatim>\<open>schedule_lifecycle.go\<close> and \<^verbatim>\<open>schedule_replace.go\<close>: signed authority in
    front of every handler above, and one attempt of a worker (C19, C20).

  \<^bold>\<open>How the model corresponds to the code.\<close> Structs are records with one field per Go field, errors are
  constructors of a datatype per package, a function that returns a value and an error returns a
  sum. Loops over slices are folds whose step is a definition of its own; loops whose recursion is
  not structural come with a termination proof (the tick of a schedule by the turns its policy still allows), and no
  definition uses fuel. Database tables are lists of row records; a transaction is a function of the tables that
  gives its result and the new tables, or an error and the old ones; unique keys, checks and triggers the code relies on
  are branches of the inserts and updates. Interleavings of replicas are the inductive step relations
  \<open>ledger_step\<close>, \<open>queue_step\<close>, \<open>system_step\<close> and \<open>service_step\<close>: each handler is one serializable step, at a clock that
  moves forward. What holds along their runs comes from the locales \<open>invariant_run\<close>, \<open>ordered_run\<close> and \<open>simulation_run\<close> of
  \<open>Prelude\<close>, interpreted on each relation. Go integers are \<^typ>\<open>int\<close>:
  every quantity the code computes with is bounded by earlier checks far below 64 bits.
  \<^verbatim>\<open>math/big\<close> rationals are \<^typ>\<open>rat\<close>, and a double is the rational it denotes. A slice index out of range, which
  panics in Go, is the unspecified element of a list; the pinning theorem C7 shows that validated
  definitions never reach it. Contexts are live: cancellation checks do not appear.
  \<^verbatim>\<open>sort.SliceStable\<close> is stable insertion, which is the same function on every order that is a strict
  weak one; the locale \<open>strict_weak\<close> states that contract and is interpreted on the orders the code
  uses.

  \<^bold>\<open>Parameters.\<close> Large tables of the standard library (time layouts, Unicode classes, the shortest
  decimal of a double, SHA-256, the JSON validator) are fields of the record \<open>golib\<close>; no property
  assumes anything of them except that sort columns hold readable times where C11 says so. The
  cron library and the time zone archive are fields of \<open>calendar\<close>; C22 assumes the contract
  \<open>recurrence\<close> of the parsed schedule, which the interval schedules satisfy. Clock readings, fresh
  identifiers and rows locked by other transactions are arguments of the handlers, in the queue
  gathered in the record \<open>ambient\<close> together with the resolver of reporting definitions and the receipt of a
  reporting delivery, which belong to packages outside the model. C31, C34 and C39 assume that SHA-256 does not collide on
  the manifests and limits at hand; C38 assumes that \<open>Next\<close> and \<open>Previous\<close> of the schedule walk one
  set of instants, the contract that C21 and C22 establish.

  \<^bold>\<open>What is shown.\<close> Authority: access is granted exactly by what was signed, and the selection used in
  queries is the same authority. Charts: validation bounds the wire size, mappings are pinned to the
  data, no two marks share a place, every drawn, omitted, missing and summed value is accounted for
  exactly, selections contain only validated charts in rank order; \<open>temporal_order_cycle\<close> and \<open>long_scale_sum_fails\<close> exhibit two inputs the
  code does not treat as its comments intend. Schedules: neighbours of an instant are exact. Ledger: an
  invariant over every interleaving of handlers, powerlessness of stale leases, mutual
  exclusion, compare-and-swap of policies, the exact effect of a sweep and its safe replay. Jobs: an effect is
  authorised exactly by a valid job, its proof and the signed grants, and a manifest hash fixes every accepted coordinate.
  Queue: the bounds on waiting and live work hold for the queue and for each tenant whatever the replicas do, an admitted
  key is replayed, a free slot serves the first eligible job, a settled lease stays settled. Occurrences: the windows of a
  tick tile the time between its cursors, the limits also hold with the scheduler at work, and the tables refine
  a store of immutable versions; \<open>fenced_turn_fails\<close> shows that an occurrence fenced by a cutover aborts the tick. Service: a call is one authorised
  step of the store within the tenant of its caller, so that all of the above holds for runs of calls, and a
  failed attempt is recorded as its cause deserves.

  \<^bold>\<open>Not modelled.\<close> HTTP, MCP and command line adapters, token verification, database drivers and
  connection pools, rendering to bytes and model inference consist of effects outside the program or of calls into other
  packages. The request runner of \<^verbatim>\<open>jobs/requests.go\<close> and the loops that repeat ticks and attempts are goroutines and
  timers over the handlers modelled here; the usage budget of reporting occurrences and the definition resolver of
  \<^verbatim>\<open>reporting_jobs.go\<close> need the reporting package. Checks of the database on the size of stored JSON, which
  repeat the validation done before, do not appear. The natural-language, semantics, reporting, migration and
  engineering services are not covered.
\<close>

end
